(* ===== verification/Prelude.thy ===== *)
theory Prelude
  imports Main "HOL-Library.Word"
begin

unbundle bit_operations_syntax

text \<open>
  What every component shares: the names of the C integer types, arrays as functions
  from an index (with the bound written out wherever the code stores), the bits of an
  octet in line order, and the small lemmas about them that carry the later proofs.
\<close>

section \<open>Integer types and arrays\<close>

type_synonym u8 = "8 word"
type_synonym u16 = "16 word"
type_synonym u32 = "32 word"
type_synonym u64 = "64 word"

text \<open>
  A C array is a function from the index; the size is a constant of the component, and
  each store of the model tests the index against it.
\<close>

type_synonym 'a arr = "nat \<Rightarrow> 'a"

definition arr_take :: "nat \<Rightarrow> 'a arr \<Rightarrow> 'a list" where
  "arr_take n a = map a [0..<n]"

lemma length_arr_take [simp]: "length (arr_take n a) = n"
  by (simp add: arr_take_def)

lemma arr_take_0 [simp]: "arr_take 0 a = []"
  by (simp add: arr_take_def)

lemma arr_take_Suc: "arr_take (Suc n) a = arr_take n a @ [a n]"
  by (simp add: arr_take_def)

lemma arr_take_snoc [simp]: "arr_take (Suc n) (a(n := x)) = arr_take n a @ [x]"
  by (simp add: arr_take_def)

lemma arr_take_upd_beyond [simp]: "n \<le> i \<Longrightarrow> arr_take n (a(i := x)) = arr_take n a"
  by (simp add: arr_take_def)

lemma arr_take_cong: "(\<And>i. i < n \<Longrightarrow> a i = b i) \<Longrightarrow> arr_take n a = arr_take n b"
  by (simp add: arr_take_def)

section \<open>Unsigned counters that do not wrap\<close>

text \<open>The reading of a C counter after \<open>++\<close> when it is known not to wrap.\<close>

lemma unat_inc32: "unat (w :: u32) < 4294967295 \<Longrightarrow> unat (w + 1) = Suc (unat w)"
  by (simp add: unat_word_ariths)

lemma unat_inc8: "unat (w :: u8) < 255 \<Longrightarrow> unat (w + 1) = Suc (unat w)"
  by (simp add: unat_word_ariths)

section \<open>Bits of an octet, least significant first\<close>

definition bits8 :: "u8 \<Rightarrow> bool list" where
  "bits8 b = map (bit b) [0..<8]"

lemma bits8_eq:
  "bits8 b = [bit b 0, bit b 1, bit b 2, bit b 3, bit b 4, bit b 5, bit b 6, bit b 7]"
  by (simp add: bits8_def upt_rec numeral_2_eq_2 numeral_eq_Suc)

lemma length_bits8 [simp]: "length (bits8 b) = 8"
  by (simp add: bits8_def)

lemma nth_bits8 [simp]: "i < 8 \<Longrightarrow> bits8 b ! i = bit b i"
  by (simp add: bits8_def)

definition bits8s :: "u8 list \<Rightarrow> bool list" where
  "bits8s bs = concat (map bits8 bs)"

lemma bits8s_simps [simp]:
  "bits8s [] = []"
  "bits8s (b # bs) = bits8 b @ bits8s bs"
  "bits8s (bs @ cs) = bits8s bs @ bits8s cs"
  by (simp_all add: bits8s_def)

lemma length_bits8s [simp]: "length (bits8s bs) = 8 * length bs"
  by (induction bs) simp_all

lemma bits8_inject [simp]: "bits8 a = bits8 b \<longleftrightarrow> a = b"
proof
  assume eq: "bits8 a = bits8 b"
  show "a = b"
  proof (rule bit_word_eqI)
    fix n assume "n < LENGTH(8)"
    with arg_cong [OF eq, of "\<lambda>xs. xs ! n"] show "bit a n = bit b n" by simp
  qed
qed simp

lemma bits8s_inject: "length as = length bs \<Longrightarrow> bits8s as = bits8s bs \<longleftrightarrow> as = bs"
  by (induction as bs rule: list_induct2) auto

text \<open>The octet a list of bits spells, least significant bit first.\<close>

definition octet_of :: "bool list \<Rightarrow> u8" where
  "octet_of bs = horner_sum of_bool 2 bs"

lemma bit_octet_of: "length bs \<le> 8 \<Longrightarrow> bit (octet_of bs) n \<longleftrightarrow> n < length bs \<and> bs ! n"
  by (auto simp: octet_of_def bit_horner_sum_bit_word_iff)

lemma octet_of_bits8 [simp]: "octet_of (bits8 b) = b"
  by (rule bit_word_eqI) (simp add: bit_octet_of)

lemma bits8_octet_of: "length bs = 8 \<Longrightarrow> bits8 (octet_of bs) = bs"
  by (rule nth_equalityI) (simp_all add: bit_octet_of)

text \<open>The top bit of an octet, as the C code writes it.\<close>

lemma bit_0x80: "bit (0x80 :: u8) n \<longleftrightarrow> n = 7" "bit (0x80 :: u32) n \<longleftrightarrow> n = 7"
proof -
  have "(0x80 :: u8) = 2 ^ 7" "(0x80 :: u32) = 2 ^ 7" by simp_all
  then show "bit (0x80 :: u8) n \<longleftrightarrow> n = 7" "bit (0x80 :: u32) n \<longleftrightarrow> n = 7"
    by (simp_all only: bit_exp_iff) auto
qed

end
