(* ===== verification/Crc.thy ===== *)
theory Crc
  imports Prelude
begin

unbundle bit_operations_syntax

text \<open>
  The frame check sequence. The MTP1 engine holds its 256-entry table as a literal, the
  HDLC engine builds one from eight magic numbers; both are shown here to be one step of
  the bitwise CRC with the reflected polynomial \<open>0x8408\<close>. What a frame check
  promises (good frames leave a fixed residue, a damaged octet never goes unseen) is
  proved once in the locale \<open>fcs16\<close>.
\<close>

section \<open>The reference: one bit at a time\<close>

definition crc_shift :: "u16 \<Rightarrow> u16" where
  "crc_shift c = drop_bit 1 c XOR (if bit c 0 then 0x8408 else 0)"

definition crc_bit :: "bool \<Rightarrow> u16 \<Rightarrow> u16" where
  "crc_bit b c = crc_shift (c XOR (if b then 1 else 0))"

definition crc_octet :: "u16 \<Rightarrow> u8 \<Rightarrow> u16" where
  "crc_octet c b = fold crc_bit (bits8 b) c"

section \<open>The table of wanpipe_mtp1.c\<close>

definition crc_tss_rev_table :: "u16 list" where
  "crc_tss_rev_table =
     [0x0000, 0x1189, 0x2312, 0x329B, 0x4624, 0x57AD, 0x6536, 0x74BF,
      0x8C48, 0x9DC1, 0xAF5A, 0xBED3, 0xCA6C, 0xDBE5, 0xE97E, 0xF8F7,
      0x1081, 0x0108, 0x3393, 0x221A, 0x56A5, 0x472C, 0x75B7, 0x643E,
      0x9CC9, 0x8D40, 0xBFDB, 0xAE52, 0xDAED, 0xCB64, 0xF9FF, 0xE876,
      0x2102, 0x308B, 0x0210, 0x1399, 0x6726, 0x76AF, 0x4434, 0x55BD,
      0xAD4A, 0xBCC3, 0x8E58, 0x9FD1, 0xEB6E, 0xFAE7, 0xC87C, 0xD9F5,
      0x3183, 0x200A, 0x1291, 0x0318, 0x77A7, 0x662E, 0x54B5, 0x453C,
      0xBDCB, 0xAC42, 0x9ED9, 0x8F50, 0xFBEF, 0xEA66, 0xD8FD, 0xC974,
      0x4204, 0x538D, 0x6116, 0x709F, 0x0420, 0x15A9, 0x2732, 0x36BB,
      0xCE4C, 0xDFC5, 0xED5E, 0xFCD7, 0x8868, 0x99E1, 0xAB7A, 0xBAF3,
      0x5285, 0x430C, 0x7197, 0x601E, 0x14A1, 0x0528, 0x37B3, 0x263A,
      0xDECD, 0xCF44, 0xFDDF, 0xEC56, 0x98E9, 0x8960, 0xBBFB, 0xAA72,
      0x6306, 0x728F, 0x4014, 0x519D, 0x2522, 0x34AB, 0x0630, 0x17B9,
      0xEF4E, 0xFEC7, 0xCC5C, 0xDDD5, 0xA96A, 0xB8E3, 0x8A78, 0x9BF1,
      0x7387, 0x620E, 0x5095, 0x411C, 0x35A3, 0x242A, 0x16B1, 0x0738,
      0xFFCF, 0xEE46, 0xDCDD, 0xCD54, 0xB9EB, 0xA862, 0x9AF9, 0x8B70,
      0x8408, 0x9581, 0xA71A, 0xB693, 0xC22C, 0xD3A5, 0xE13E, 0xF0B7,
      0x0840, 0x19C9, 0x2B52, 0x3ADB, 0x4E64, 0x5FED, 0x6D76, 0x7CFF,
      0x9489, 0x8500, 0xB79B, 0xA612, 0xD2AD, 0xC324, 0xF1BF, 0xE036,
      0x18C1, 0x0948, 0x3BD3, 0x2A5A, 0x5EE5, 0x4F6C, 0x7DF7, 0x6C7E,
      0xA50A, 0xB483, 0x8618, 0x9791, 0xE32E, 0xF2A7, 0xC03C, 0xD1B5,
      0x2942, 0x38CB, 0x0A50, 0x1BD9, 0x6F66, 0x7EEF, 0x4C74, 0x5DFD,
      0xB58B, 0xA402, 0x9699, 0x8710, 0xF3AF, 0xE226, 0xD0BD, 0xC134,
      0x39C3, 0x284A, 0x1AD1, 0x0B58, 0x7FE7, 0x6E6E, 0x5CF5, 0x4D7C,
      0xC60C, 0xD785, 0xE51E, 0xF497, 0x8028, 0x91A1, 0xA33A, 0xB2B3,
      0x4A44, 0x5BCD, 0x6956, 0x78DF, 0x0C60, 0x1DE9, 0x2F72, 0x3EFB,
      0xD68D, 0xC704, 0xF59F, 0xE416, 0x90A9, 0x8120, 0xB3BB, 0xA232,
      0x5AC5, 0x4B4C, 0x79D7, 0x685E, 0x1CE1, 0x0D68, 0x3FF3, 0x2E7A,
      0xE70E, 0xF687, 0xC41C, 0xD595, 0xA12A, 0xB0A3, 0x8238, 0x93B1,
      0x6B46, 0x7ACF, 0x4854, 0x59DD, 0x2D62, 0x3CEB, 0x0E70, 0x1FF9,
      0xF78F, 0xE606, 0xD49D, 0xC514, 0xB1AB, 0xA022, 0x92B9, 0x8330,
      0x7BC7, 0x6A4E, 0x58D5, 0x495C, 0x3DE3, 0x2C6A, 0x1EF1, 0x0F78]"

definition crc_tss_rev_step :: "u16 \<Rightarrow> u8 \<Rightarrow> u16" where
  "crc_tss_rev_step crc p =
     drop_bit 8 crc XOR (crc_tss_rev_table ! unat ((crc XOR ucast p) AND 0xff))"

fun crc_tss_rev :: "u16 \<Rightarrow> nat \<Rightarrow> u8 arr \<Rightarrow> u16" where
  "crc_tss_rev crc 0 p_buf = crc"
| "crc_tss_rev crc (Suc len) p_buf = crc_tss_rev (crc_tss_rev_step crc (p_buf 0)) len (\<lambda>i. p_buf (Suc i))"

section \<open>The table of wanpipe_hdlc_eng.c\<close>

definition MagicNums :: "u32 list" where
  "MagicNums = [0x1189, 0x2312, 0x4624, 0x8C48, 0x1081, 0x2102, 0x4204, 0x8408]"

text \<open>The inner loop of \<open>init_crc\<close>, for one entry of \<open>CRC_TABLE\<close>.\<close>

definition init_crc_entry :: "nat \<Rightarrow> u16" where
  "init_crc_entry i =
     fold (\<lambda>j acc. if (word_of_nat i :: u32) AND push_bit j 1 \<noteq> 0
                   then ucast (ucast acc XOR (MagicNums ! j)) else acc) [0..<8] 0"

definition init_crc :: "u16 list" where
  "init_crc = map init_crc_entry [0..<256]"


section \<open>Both tables compute eight bitwise steps\<close>

lemma crc_shift_linear: "crc_shift (a XOR b) = crc_shift a XOR crc_shift b"
  by (auto simp: crc_shift_def bit_xor_iff ac_simps)

lemma crc_shift_0 [simp]: "crc_shift 0 = 0"
  by (simp add: crc_shift_def)

lemma crc_shifts_linear: "(crc_shift ^^ n) (a XOR b) = (crc_shift ^^ n) a XOR (crc_shift ^^ n) b"
  by (induction n) (simp_all add: crc_shift_linear)

lemma crc_shift_bit: "crc_shift (c XOR w) = crc_bit (bit w 0) c XOR drop_bit 1 w"
proof -
  have one: "drop_bit 1 (c XOR 1) = drop_bit 1 c"
    by (rule bit_word_eqI) (auto simp: bit_simps)
  show ?thesis
    by (cases "bit w 0"; cases "bit c 0")
      (simp_all add: crc_bit_def crc_shift_def bit_xor_iff one ac_simps)
qed

lemma crc_shifts_bits:
  "(crc_shift ^^ n) (c XOR w) = fold crc_bit (map (bit w) [0..<n]) c XOR drop_bit n w"
proof (induction n)
  case (Suc n)
  have "(crc_shift ^^ Suc n) (c XOR w) = crc_shift (fold crc_bit (map (bit w) [0..<n]) c XOR drop_bit n w)"
    by (simp add: Suc.IH)
  then show ?case
    by (simp add: crc_shift_bit bit_drop_bit_eq)
qed simp

lemma bits8_ucast: "map (bit (ucast b :: u16)) [0..<8] = bits8 b"
  by (simp add: bits8_def bit_ucast_iff)

lemma crc_octet_shifts: "crc_octet c b = (crc_shift ^^ 8) (c XOR ucast b)"
proof -
  have "drop_bit 8 (ucast b :: u16) = 0"
    by (rule bit_word_eqI) (auto simp: bit_simps dest: bit_imp_le_length)
  then show ?thesis
    by (simp only: crc_octet_def crc_shifts_bits bits8_ucast xor.right_neutral)
qed

lemma fold_crc_bit_0: "fold crc_bit (map (\<lambda>_. False) xs) 0 = 0"
  by (induction xs) (simp_all add: crc_bit_def)

lemma and_ff: "w AND 0xff = take_bit 8 (w :: u16)"
  by (simp add: take_bit_eq_mask mask_eq_decr_exp)

lemma crc_shifts_high: "(crc_shift ^^ 8) (push_bit 8 w) = take_bit 8 w"
proof -
  have "(crc_shift ^^ 8) (0 XOR push_bit 8 w)
      = fold crc_bit (map (\<lambda>_. False) [0..<8]) 0 XOR drop_bit 8 (push_bit 8 w)"
    unfolding crc_shifts_bits
    by (rule arg_cong2 [where f = "\<lambda>x y. fold crc_bit x 0 XOR y"]) (auto simp: bit_push_bit_iff)
  moreover have "drop_bit 8 (push_bit 8 w) = take_bit 8 w"
    by (rule bit_word_eqI) (auto simp: bit_simps)
  ultimately show ?thesis
    by (simp only: fold_crc_bit_0 xor.left_neutral)
qed

subsection \<open>The literal table\<close>

lemma upt_16: "[0..<16] = [0, 1, 2, 3, 4, 5, 6, 7, 8, 9, 10, 11, 12, 13, 14, 15]"
  by (simp add: upt_rec)

lemma upt_256: "[0..<256] = concat (map (\<lambda>h. map (\<lambda>l. 16 * h + l) [0..<16]) [0..<16])"
  unfolding upt_16 by (simp add: upt_rec)

lemma crc_shift_numerals:
  "crc_shift (numeral n) =
     drop_bit 1 (numeral n) XOR (if bit (numeral n :: u16) 0 then 0x8408 else 0)"
  "crc_shift 1 = 0x8408"
  by (simp_all add: crc_shift_def)

lemma crc_tss_rev_table_shifts:
  "crc_tss_rev_table = map (\<lambda>i. (crc_shift ^^ 8) (word_of_nat i)) [0..<256]"
proof -
  have eight: "(crc_shift ^^ 8) c = crc_shift (crc_shift (crc_shift (crc_shift
      (crc_shift (crc_shift (crc_shift (crc_shift c)))))))" for c
    by (simp add: numeral_eq_Suc)
  show ?thesis
    unfolding upt_256 upt_16 eight
    by (simp add: crc_shift_numerals crc_tss_rev_table_def)
qed

lemma init_crc_table: "init_crc = crc_tss_rev_table"
  unfolding init_crc_def upt_256 upt_16
  by (simp add: init_crc_entry_def MagicNums_def crc_tss_rev_table_def upt_rec [of _ 8])

lemma low_octet_less: "unat (w AND 0xff :: u16) < 256"
  using take_bit_nat_less_exp [of 8 "unat w"] by (simp add: and_ff unsigned_take_bit_eq)

lemma crc_table_nth: "crc_tss_rev_table ! unat (w AND 0xff) = (crc_shift ^^ 8) (w AND 0xff)"
  by (simp add: crc_tss_rev_table_shifts low_octet_less)

lemma crc_tss_rev_step_octet: "crc_tss_rev_step c b = crc_octet c b"
proof -
  let ?w = "c XOR ucast b"
  have split: "?w = (?w AND 0xff) XOR push_bit 8 (drop_bit 8 c)"
    unfolding and_ff
    by (rule bit_word_eqI) (auto simp: bit_simps dest: bit_imp_le_length)
  have "take_bit 8 (drop_bit 8 c) = drop_bit 8 c"
    by (rule bit_word_eqI) (auto simp: bit_simps dest: bit_imp_le_length)
  then have "(crc_shift ^^ 8) (push_bit 8 (drop_bit 8 c)) = drop_bit 8 c"
    by (simp add: crc_shifts_high)
  then have "(crc_shift ^^ 8) ?w = (crc_shift ^^ 8) (?w AND 0xff) XOR drop_bit 8 c"
    by (subst split) (simp only: crc_shifts_linear)
  then show ?thesis
    by (simp add: crc_tss_rev_step_def crc_octet_shifts crc_table_nth ac_simps)
qed

section \<open>What a frame check sequence promises\<close>

text \<open>
  \<open>upd c b\<close> is the running check value after the octet \<open>b\<close>. The frame check
  sequence of a message is the complement of the value, low octet first. A provider
  promises the residue of a message followed by its sequence, and that a step forgets
  neither the octet nor the value before it.
\<close>

definition fcs_octets :: "u16 \<Rightarrow> u8 list" where
  "fcs_octets c = [ucast (NOT c), ucast (drop_bit 8 (NOT c))]"

definition fcs_check :: "(u16 \<Rightarrow> u8 \<Rightarrow> u16) \<Rightarrow> u8 list \<Rightarrow> u16" where
  "fcs_check upd p = foldl upd 0xffff p"

locale fcs16 =
  fixes upd :: "u16 \<Rightarrow> u8 \<Rightarrow> u16"
  assumes residue: "upd (upd c (ucast (NOT c))) (ucast (drop_bit 8 (NOT c))) = 0xf0b8"
    and octet_kept: "upd c a = upd c b \<Longrightarrow> a = b"
    and state_kept: "upd c b = upd d b \<Longrightarrow> c = d"
begin

lemma check_good: "fcs_check upd (p @ fcs_octets (fcs_check upd p)) = 0xf0b8"
  by (simp add: fcs_check_def fcs_octets_def residue)

lemma foldl_state_kept: "foldl upd c p = foldl upd d p \<Longrightarrow> c = d"
  by (induction p arbitrary: c d) (auto dest: state_kept)

lemma check_one_octet:
  assumes "a \<noteq> b"
  shows "fcs_check upd (p @ a # q) \<noteq> fcs_check upd (p @ b # q)"
  using assms by (auto simp: fcs_check_def dest!: foldl_state_kept octet_kept)

lemma damaged_octet_caught:
  assumes good: "fcs_check upd (p @ a # q) = 0xf0b8" and "b \<noteq> a"
  shows "fcs_check upd (p @ b # q) \<noteq> 0xf0b8"
  using check_one_octet [OF assms(2), of p q] good by simp

end

subsection \<open>The MTP1 step is one\<close>

lemma xor_left_cancel: "(c :: 'a :: len word) XOR a = c XOR b \<longleftrightarrow> a = b"
  by (metis xor.assoc xor_self_eq xor.left_neutral)

lemma xor_right_cancel: "(a :: 'a :: len word) XOR c = b XOR c \<longleftrightarrow> a = b"
  by (metis xor.assoc xor_self_eq xor.right_neutral)

lemma crc_shift_inject: "crc_shift a = crc_shift b \<longleftrightarrow> a = b"
proof
  assume eq: "crc_shift a = crc_shift b"
  have top: "bit (crc_shift c) 15 = bit c 0" for c
    by (auto simp: crc_shift_def bit_simps dest: bit_imp_le_length)
  have low: "bit a 0 = bit b 0"
    using eq top [of a] top [of b] by simp
  with eq have "drop_bit 1 a = drop_bit 1 b"
    by (cases "bit b 0") (simp_all add: crc_shift_def xor_right_cancel)
  then have high: "bit a (Suc n) = bit b (Suc n)" for n
    using bit_drop_bit_eq [of 1 a] bit_drop_bit_eq [of 1 b] by (simp add: fun_eq_iff)
  show "a = b"
    by (rule bit_word_eqI) (metis high low not0_implies_Suc)
qed simp

lemma crc_shifts_inject: "(crc_shift ^^ n) a = (crc_shift ^^ n) b \<longleftrightarrow> a = b"
  by (induction n) (simp_all add: crc_shift_inject)

lemma crc_octet_state_kept: "crc_octet c b = crc_octet d b \<Longrightarrow> c = d"
  by (simp add: crc_octet_shifts crc_shifts_inject xor_right_cancel)

lemma ucast_u8_inject: "(ucast (a :: u8) :: u16) = ucast b \<longleftrightarrow> a = b"
proof
  assume eq: "(ucast a :: u16) = ucast b"
  show "a = b"
  proof (rule bit_word_eqI)
    fix n assume "n < LENGTH(8)"
    with arg_cong [OF eq, of "\<lambda>w. bit w n"] show "bit a n = bit b n"
      by (simp add: bit_simps)
  qed
qed simp

lemma crc_octet_kept: "crc_octet c a = crc_octet c b \<Longrightarrow> a = b"
  by (simp add: crc_octet_shifts crc_shifts_inject xor_left_cancel ucast_u8_inject)

lemma crc_octet_residue:
  "crc_octet (crc_octet c (ucast (NOT c))) (ucast (drop_bit 8 (NOT c))) = 0xf0b8"
proof -
  have ff: "0xff = (mask 8 :: u16)"
    by (simp add: mask_eq_decr_exp)
  have lo: "(c XOR ucast (ucast (NOT c) :: u8)) AND 0xff = 0xff"
    unfolding ff by (rule bit_word_eqI) (auto simp: bit_simps)
  have c1: "crc_octet c (ucast (NOT c)) = drop_bit 8 c XOR 0x0f78"
    unfolding crc_tss_rev_step_octet [symmetric] crc_tss_rev_step_def lo
    by (simp add: crc_tss_rev_table_def)
  have comp: "ucast (ucast (drop_bit 8 (NOT c)) :: u8) = 0xff XOR drop_bit 8 c"
    unfolding ff by (rule bit_word_eqI) (auto simp: bit_simps dest: bit_imp_le_length)
  have "(drop_bit 8 c XOR 0x0f78) XOR (0xff XOR drop_bit 8 c) = 0x0f87"
    using xor_self_eq [of "drop_bit 8 c"] by (simp add: ac_simps)
  then have lo2: "((drop_bit 8 c XOR 0x0f78) XOR ucast (ucast (drop_bit 8 (NOT c)) :: u8)) AND 0xff = 0x87"
    by (simp add: comp)
  have "drop_bit 16 c = 0"
    by (rule bit_word_eqI) (auto simp: bit_simps dest: bit_imp_le_length)
  then have hi2: "drop_bit 8 (drop_bit 8 c XOR 0x0f78) = 0xf"
    by simp
  have c2: "crc_octet (drop_bit 8 c XOR 0x0f78) (ucast (drop_bit 8 (NOT c))) = 0xf0b8"
    unfolding crc_tss_rev_step_octet [symmetric] crc_tss_rev_step_def lo2 hi2
    by (simp add: crc_tss_rev_table_def)
  show ?thesis
    by (simp only: c1 c2)
qed

interpretation mtp1_fcs: fcs16 crc_tss_rev_step
  by unfold_locales
    (auto simp: crc_tss_rev_step_octet crc_octet_residue
       dest: crc_octet_kept crc_octet_state_kept)

text \<open>The loop of \<open>crc_tss_rev\<close> over a buffer, as a fold over the octets it reads.\<close>

lemma crc_tss_rev_foldl:
  "crc_tss_rev c n a = foldl crc_tss_rev_step c (map a [0..<n])"
proof (induction n arbitrary: c a)
  case (Suc n)
  have "map a [0..<Suc n] = a 0 # map (\<lambda>i. a (Suc i)) [0..<n]"
    by (simp add: map_upt_Suc del: upt_Suc)
  then show ?case by (simp add: Suc.IH)
qed simp

lemma crc_tss_rev_list: "crc_tss_rev c (length p) ((!) p) = foldl crc_tss_rev_step c p"
  by (simp add: crc_tss_rev_foldl map_nth)

lemma crc_tss_rev_check: "crc_tss_rev 0xffff (length p) ((!) p) = fcs_check crc_tss_rev_step p"
  by (simp add: crc_tss_rev_list fcs_check_def)

end
