(* ===== verification/Mtp1_State.thy ===== *)
theory Mtp1_State
  imports Crc
begin

unbundle bit_operations_syntax

text \<open>
  The link of wanpipe_mtp1.c: the configuration and the callbacks a client registers,
  the transmit buffer \<open>wp_tbs_t\<close>, the link \<open>wp_mtp1_link_t\<close>, and registration.
  A callback is a pointer into code outside the file, so its invocation is recorded in
  \<open>events\<close> with the arguments it is given; whether the pointer is null is part of
  the registration. The results of the callbacks are not used by the code. Arrays are
  functions; \<open>rx_fault\<close> and \<open>tbs_fault\<close> are not in the code, they record an
  access outside an array, after which the C program has no meaning.
\<close>

section \<open>Constants of wanpipe_mtp1.c and wanpipe_mtp1.h\<close>

definition BITS_IN_OCTET :: u32 where "BITS_IN_OCTET = 8"
definition TX_BUF_SIZE :: u32 where "TX_BUF_SIZE = 10240"
definition RX_BUF_SIZE :: u32 where "RX_BUF_SIZE = 8192"
definition WP_MTP1_MAX_TX_Q :: nat where "WP_MTP1_MAX_TX_Q = 10"

definition WP_MTP1_HDLC_8BIT :: u8 where "WP_MTP1_HDLC_8BIT = 0"
definition WP_MTP1_HDLC_7BIT :: u8 where "WP_MTP1_HDLC_7BIT = 1"
definition WP_MTP1_HDLC_BIT_0_FIRST :: u8 where "WP_MTP1_HDLC_BIT_0_FIRST = 2"
definition WP_MTP1_HDLC_BIT_7_FIRST :: u8 where "WP_MTP1_HDLC_BIT_7_FIRST = 3"

definition WP_MTP1_CRC_ERROR_BIT :: nat where "WP_MTP1_CRC_ERROR_BIT = 1"
definition WP_MTP1_ABORT_ERROR_BIT :: nat where "WP_MTP1_ABORT_ERROR_BIT = 2"
definition WP_MTP1_FRAME_ERROR_BIT :: nat where "WP_MTP1_FRAME_ERROR_BIT = 3"

lemmas mtp1_consts = BITS_IN_OCTET_def TX_BUF_SIZE_def RX_BUF_SIZE_def WP_MTP1_MAX_TX_Q_def
  WP_MTP1_HDLC_8BIT_def WP_MTP1_HDLC_7BIT_def WP_MTP1_HDLC_BIT_0_FIRST_def
  WP_MTP1_HDLC_BIT_7_FIRST_def WP_MTP1_CRC_ERROR_BIT_def WP_MTP1_ABORT_ERROR_BIT_def
  WP_MTP1_FRAME_ERROR_BIT_def

section \<open>The link\<close>

datatype daed_state = INIT | DAEDRX_0 | DAEDRX_1 | DAEDRX_2

text \<open>What the link hands to its client.\<close>

datatype mtp1_event =
    Rx_Data "u8 list" u32
  | Rx_Suerm
  | Trace "u8 list" int
  | Wakeup

record wp_mtp1_cfg =
  hdlc_op_mode :: u8
  hdlc_bit_endian :: u8
  param_N :: u32
  max_mru :: u32

record wp_mtp1_reg =
  has_rx_data :: bool
  has_rx_suerm :: bool
  has_trace :: bool
  reg_cfg :: wp_mtp1_cfg

record skb =
  skb_data :: "u8 list"
  skb_csum :: u32

record wp_tbs =
  cur_1s_bit_count :: u32
  cur_bit_pos :: u32
  cur_index :: u32
  card_index :: u32
  tbs_buf :: "u8 arr"
  tx_q :: "skb list"
  tx_r_q :: "skb list"
  tx_q_dealloc :: "skb list"
  tbs_fault :: bool

record wp_mtp1_link =
  link_init :: bool
  link_no :: nat
  state_daedr :: daed_state
  r_total_octet_count :: u32
  r_su_accepted :: u32
  r_su_rejected :: u32
  r_fisu_count :: u32
  r_lssu_1_count :: u32
  r_lssu_2_count :: u32
  r_msu_count :: u32
  r_flag_accum :: u32
  r_flag_count :: u32
  r_accum :: u32
  r_1s_bit_count :: u32
  r_octet_counting_mode :: u32
  r_octet_counting_count :: u32
  r_octet_bit_count :: u32
  r_bit_gate_count :: u32
  tbs :: wp_tbs
  reg :: wp_mtp1_reg
  cfg :: wp_mtp1_cfg
  rx_buf :: "u8 arr"
  rx_buf_len :: u32
  events :: "mtp1_event list"
  rx_fault :: bool

section \<open>Registration\<close>

definition zero_tbs :: wp_tbs where
  "zero_tbs = \<lparr>cur_1s_bit_count = 0, cur_bit_pos = 0, cur_index = 0, card_index = 0,
     tbs_buf = (\<lambda>_. 0), tx_q = [], tx_r_q = [], tx_q_dealloc = [], tbs_fault = False\<rparr>"

text \<open>
  \<open>wp_mtp1_register\<close>: \<open>mem\<close> says whether the allocation succeeds, \<open>gcnt\<close> is the
  static link counter. The result is \<open>None\<close> for NULL, with the registration as the
  caller finds it afterwards (the code caps the caller's \<open>max_mru\<close> in place).
\<close>

definition wp_mtp1_register ::
    "bool \<Rightarrow> nat \<Rightarrow> wp_mtp1_reg \<Rightarrow> nat \<times> wp_mtp1_reg \<times> wp_mtp1_link option" where
  "wp_mtp1_register mem gcnt r =
     (if max_mru (reg_cfg r) = 0 then (gcnt, r, None)
      else
        let r' = (if max_mru (reg_cfg r) > RX_BUF_SIZE
                  then r\<lparr>reg_cfg := (reg_cfg r)\<lparr>max_mru := RX_BUF_SIZE\<rparr>\<rparr> else r)
        in if \<not> mem then (gcnt, r', None)
           else (Suc gcnt, r', Some
             \<lparr>link_init = False, link_no = Suc gcnt, state_daedr = INIT,
              r_total_octet_count = 0, r_su_accepted = 0, r_su_rejected = 0,
              r_fisu_count = 0, r_lssu_1_count = 0, r_lssu_2_count = 0, r_msu_count = 0,
              r_flag_accum = 0, r_flag_count = 0, r_accum = 0, r_1s_bit_count = 0,
              r_octet_counting_mode = 0, r_octet_counting_count = 0,
              r_octet_bit_count = 0, r_bit_gate_count = 0,
              tbs = zero_tbs, reg = r', cfg = reg_cfg r',
              rx_buf = (\<lambda>_. 0), rx_buf_len = 0,
              events = [], rx_fault = False\<rparr>))"

definition wp_mtp1_reset :: "wp_mtp1_link \<Rightarrow> wp_mtp1_link" where
  "wp_mtp1_reset l = l\<lparr>state_daedr := INIT\<rparr>"

text \<open>
  \<open>wp_mtp1_free\<close> marks the link and releases every queued buffer; the released
  buffers are returned in the order the code frees them.
\<close>

definition wp_mtp1_free :: "wp_mtp1_link \<Rightarrow> wp_mtp1_link \<times> skb list" where
  "wp_mtp1_free l =
     (l\<lparr>link_init := True, tbs := (tbs l)\<lparr>tx_q_dealloc := [], tx_r_q := [], tx_q := []\<rparr>\<rparr>,
      tx_q_dealloc (tbs l) @ tx_r_q (tbs l) @ tx_q (tbs l))"

definition emit :: "mtp1_event \<Rightarrow> wp_mtp1_link \<Rightarrow> wp_mtp1_link" where
  "emit e l = l\<lparr>events := events l @ [e]\<rparr>"

text \<open>
  The bits of the line an octet exchanged with the driver stands for, in line order:
  on a 56 kb/s link bit 7 is not used.
\<close>

definition line_bits :: "u8 \<Rightarrow> u8 \<Rightarrow> bool list" where
  "line_bits mode v = (if mode = WP_MTP1_HDLC_8BIT then bits8 v else take 7 (bits8 v))"

end
