(* ===== verification/Bitstream.thy ===== *)
theory Bitstream
  imports Prelude
begin

unbundle bit_operations_syntax

text \<open>
  The line protocol that the two HDLC implementations of the repository share, stated on
  lists of bits: the flag, zero insertion after five ones, and its inverse. Two
  interfaces follow: a transmitter that appends bits to an octet buffer
  (\<open>bit_sink\<close>), and one that also inserts the zeros (\<open>stuffing_sink\<close>).
  The transmitters of Mtp1_Tx and Hdlc_Encoder are interpretations of them.
\<close>

section \<open>Flags and zero insertion\<close>

definition flag_bits :: "bool list" where
  "flag_bits = [False, True, True, True, True, True, True, False]"

lemma flag_bits_octet: "bits8 0x7E = flag_bits"
  by (simp add: bits8_eq flag_bits_def)

lemma flag_bits_len [simp]: "length flag_bits = 8"
  by (simp add: flag_bits_def)

text \<open>One bit of a frame, after \<open>k\<close> ones in a row: the bits sent and the new count.\<close>

fun stuff1 :: "nat \<Rightarrow> bool \<Rightarrow> bool list \<times> nat" where
  "stuff1 k True = (if Suc k = 5 then ([True, False], 0) else ([True], Suc k))"
| "stuff1 k False = ([False], 0)"

fun stuff :: "nat \<Rightarrow> bool list \<Rightarrow> bool list" where
  "stuff k [] = []"
| "stuff k (b # bs) = fst (stuff1 k b) @ stuff (snd (stuff1 k b)) bs"

fun ones_after :: "nat \<Rightarrow> bool list \<Rightarrow> nat" where
  "ones_after k [] = k"
| "ones_after k (b # bs) = ones_after (snd (stuff1 k b)) bs"

lemma stuff_append: "stuff k (xs @ ys) = stuff k xs @ stuff (ones_after k xs) ys"
  by (induction xs arbitrary: k) auto

lemma ones_after_append: "ones_after k (xs @ ys) = ones_after (ones_after k xs) ys"
  by (induction xs arbitrary: k) auto

lemma snd_stuff1_less: "k < 5 \<Longrightarrow> snd (stuff1 k b) < 5"
  by (cases b) auto

lemma ones_after_less: "k < 5 \<Longrightarrow> ones_after k bs < 5"
  by (induction bs arbitrary: k) (auto simp: snd_stuff1_less)

lemma length_stuff_le: "length (stuff k bs) \<le> 2 * length bs"
proof (induction bs arbitrary: k)
  case (Cons b bs)
  show ?case using Cons.IH [of "snd (stuff1 k b)"] by (cases b) auto
qed simp

lemma length_stuff_ge: "length bs \<le> length (stuff k bs)"
proof (induction bs arbitrary: k)
  case (Cons b bs)
  show ?case using Cons.IH [of "snd (stuff1 k b)"] by (cases b) auto
qed simp

lemma length_stuff_div: "5 * length (stuff k bs) \<le> 6 * length bs + k"
proof (induction bs arbitrary: k)
  case (Cons b bs)
  show ?case using Cons.IH [of "snd (stuff1 k b)"] by (cases b) (auto split: if_splits)
qed simp

text \<open>
  Removal of the inserted zeros: after five ones a zero is dropped. A sixth one is not
  part of any frame.
\<close>

fun unstuff :: "nat \<Rightarrow> bool list \<Rightarrow> bool list" where
  "unstuff k [] = []"
| "unstuff k (True # bs) = True # unstuff (Suc k) bs"
| "unstuff k (False # bs) = (if k = 5 then unstuff 0 bs else False # unstuff 0 bs)"

lemma unstuff_stuff: "k < 5 \<Longrightarrow> unstuff k (stuff k bs) = bs"
proof (induction bs arbitrary: k)
  case (Cons b bs)
  then show ?case
    by (cases b) auto
qed simp

text \<open>
  What a receiver relies on: \<open>calm k bs\<close> holds when \<open>bs\<close>, read after \<open>k\<close> ones,
  never reaches six ones in a row. Every stuffed stream is calm, and a flag is the
  first place where a calm stream followed by a flag shows six ones.
\<close>

fun calm :: "nat \<Rightarrow> bool list \<Rightarrow> bool" where
  "calm k [] = True"
| "calm k (True # bs) = (k < 5 \<and> calm (Suc k) bs)"
| "calm k (False # bs) = calm 0 bs"

lemma calm_stuff: "k < 5 \<Longrightarrow> calm k (stuff k bs)"
proof (induction bs arbitrary: k)
  case (Cons b bs)
  then show ?case by (cases b) auto
qed simp

lemma calm_mono: "calm k bs \<Longrightarrow> j \<le> k \<Longrightarrow> calm j bs"
proof (induction k bs arbitrary: j rule: calm.induct)
  case (2 k bs)
  then show ?case by auto
qed auto

section \<open>Octets from bits\<close>

text \<open>
  The unit being assembled: the octets stored and the bits of the next one. A bit
  kept by a receiver moves it to \<open>su_push\<close>.
\<close>

fun su_push :: "bool \<Rightarrow> u8 list \<times> bool list \<Rightarrow> u8 list \<times> bool list" where
  "su_push b (bs, p) = (if length p = 7 then (bs @ [octet_of (p @ [b])], []) else (bs, p @ [b]))"

definition su_pushes :: "u8 list \<times> bool list \<Rightarrow> bool list \<Rightarrow> u8 list \<times> bool list" where
  "su_pushes u bs = fold su_push bs u"

lemma su_pushes_simps [simp]:
  "su_pushes u [] = u"
  "su_pushes u (b # bs) = su_pushes (su_push b u) bs"
  "su_pushes u (bs @ cs) = su_pushes (su_pushes u bs) cs"
  by (simp_all add: su_pushes_def)

lemma su_push_grows: "length (fst u) \<le> length (fst (su_push b u))"
  by (cases u) simp

lemma su_pushes_grows: "length (fst u) \<le> length (fst (su_pushes u bs))"
proof (induction bs arbitrary: u)
  case (Cons b bs)
  show ?case
    using order_trans [OF su_push_grows Cons.IH, of u b] by (simp del: su_push.simps)
qed simp

lemma su_pushes_octet: "su_pushes (bs, []) (bits8 o8) = (bs @ [o8], [])"
proof -
  have "octet_of [bit o8 0, bit o8 1, bit o8 2, bit o8 3, bit o8 4, bit o8 5, bit o8 6, bit o8 7] = o8"
    using octet_of_bits8 [of o8] by (simp only: bits8_eq)
  then show ?thesis by (simp add: bits8_eq)
qed

lemma su_pushes_octets: "su_pushes (bs, []) (bits8s os) = (bs @ os, [])"
  by (induction os arbitrary: bs) (simp_all add: su_pushes_octet)

lemma su_pushes_count:
  assumes "length (snd u) < 8"
  shows "8 * length (fst (su_pushes u bs)) + length (snd (su_pushes u bs)) =
      8 * length (fst u) + length (snd u) + length bs \<and> length (snd (su_pushes u bs)) < 8"
  using assms
proof (induction bs arbitrary: u)
  case (Cons b bs)
  obtain os p where u: "u = (os, p)" by (cases u)
  have "length (snd (su_push b u)) < 8" using Cons.prems by (simp add: u)
  from Cons.IH [OF this] Cons.prems show ?case by (auto simp: u)
qed simp

lemma length_su_pushes: "length (fst (su_pushes ([], []) bs)) = length bs div 8"
  using su_pushes_count [of "([], [])" bs] by simp arith

section \<open>Transmit buffers as bit sinks\<close>

text \<open>
  A bit sink appends one bit to the stream its buffer holds. \<open>room s n\<close> says that
  the buffer of \<open>s\<close> has space for \<open>n\<close> more bits.
\<close>

locale bit_sink =
  fixes put :: "bool \<Rightarrow> 's \<Rightarrow> 's"
    and stream :: "'s \<Rightarrow> bool list"
    and room :: "'s \<Rightarrow> nat \<Rightarrow> bool"
  assumes stream_put: "room s (Suc n) \<Longrightarrow> stream (put b s) = stream s @ [b]"
    and room_put: "room s (Suc n) \<Longrightarrow> room (put b s) n"
    and room_mono: "room s n \<Longrightarrow> m \<le> n \<Longrightarrow> room s m"
begin

lemma stream_puts: "room s (length bs) \<Longrightarrow> stream (fold put bs s) = stream s @ bs"
proof (induction bs arbitrary: s)
  case (Cons b bs)
  from Cons.prems have r: "room s (Suc (length bs))" by simp
  show ?case
    using Cons.IH [OF room_put [OF r]] stream_put [OF r] by simp
qed simp

lemma room_puts: "room s (length bs + n) \<Longrightarrow> room (fold put bs s) n"
proof (induction bs arbitrary: s)
  case (Cons b bs)
  then have "room s (Suc (length bs + n))" by simp
  then have "room (put b s) (length bs + n)" by (rule room_put)
  then show ?case by (simp add: Cons.IH)
qed simp

end

text \<open>
  A stuffing sink also has an operation that appends a bit of a frame and, after the
  fifth one in a row, the inserted zero; \<open>ones\<close> is the count it keeps.
\<close>

locale stuffing_sink = bit_sink put stream room
  for put :: "bool \<Rightarrow> 's \<Rightarrow> 's" and stream :: "'s \<Rightarrow> bool list" and room :: "'s \<Rightarrow> nat \<Rightarrow> bool" +
  fixes sput :: "bool \<Rightarrow> 's \<Rightarrow> 's"
    and ones :: "'s \<Rightarrow> nat"
  assumes stream_sput:
      "room s (length (fst (stuff1 (ones s) b))) \<Longrightarrow> ones s < 5 \<Longrightarrow>
        stream (sput b s) = stream s @ fst (stuff1 (ones s) b)"
    and ones_sput: "ones s < 5 \<Longrightarrow> ones (sput b s) = snd (stuff1 (ones s) b)"
    and room_sput:
      "room s (length (fst (stuff1 (ones s) b)) + n) \<Longrightarrow> ones s < 5 \<Longrightarrow> room (sput b s) n"
begin

lemma ones_sputs: "ones s < 5 \<Longrightarrow> ones (fold sput bs s) = ones_after (ones s) bs"
  by (induction bs arbitrary: s) (simp_all add: ones_sput snd_stuff1_less)

lemma room_sputs:
  "room s (length (stuff (ones s) bs) + n) \<Longrightarrow> ones s < 5 \<Longrightarrow> room (fold sput bs s) n"
proof (induction bs arbitrary: s)
  case (Cons b bs)
  have "room (sput b s) (length (stuff (ones (sput b s)) bs) + n)"
    using Cons.prems room_sput [of s b] by (simp add: ones_sput add.assoc)
  with Cons.prems(2) show ?case
    by (simp add: Cons.IH ones_sput snd_stuff1_less)
qed simp

lemma stream_sputs:
  "room s (length (stuff (ones s) bs)) \<Longrightarrow> ones s < 5 \<Longrightarrow>
     stream (fold sput bs s) = stream s @ stuff (ones s) bs"
proof (induction bs arbitrary: s)
  case (Cons b bs)
  have r: "room (sput b s) (length (stuff (ones (sput b s)) bs))"
    using Cons.prems room_sput [of s b] by (simp add: ones_sput)
  have "room s (length (fst (stuff1 (ones s) b)))"
    by (rule room_mono [OF Cons.prems(1)]) simp
  from stream_sput [OF this Cons.prems(2)] r Cons.prems(2) show ?case
    by (simp add: Cons.IH ones_sput snd_stuff1_less)
qed simp

end

end
