(* ===== verification/Mtp1_Rx.thy ===== *)
theory Mtp1_Rx
  imports Mtp1_State Bitstream
begin

unbundle bit_operations_syntax

text \<open>
  The receiver of wanpipe_mtp1.c. \<open>rx_bit_to_su\<close> is the state machine that finds
  flags, removes the inserted zeros and assembles signal units; its cases are the
  definitions \<open>rx_init\<close>, \<open>rx_daedrx_0\<close>, \<open>rx_daedrx_1\<close> and
  \<open>rx_daedrx_2\<close>. A bit is the octet \<open>0x80\<close> or \<open>0\<close>, as \<open>daed_rx\<close>
  passes it.
\<close>

section \<open>Signal units and octet counting\<close>

definition suerm :: "wp_mtp1_link \<Rightarrow> wp_mtp1_link" where
  "suerm l = (if has_rx_suerm (reg l) then emit Rx_Suerm l else l)"

definition rx_su :: "wp_mtp1_link \<Rightarrow> u8 list" where
  "rx_su l = arr_take (unat (rx_buf_len l)) (rx_buf l)"

definition su_accept :: "u32 \<Rightarrow> wp_mtp1_link \<Rightarrow> wp_mtp1_link" where
  "su_accept err_code l =
     (if rx_buf_len l < 3 then
        (if has_rx_suerm (reg l) then emit Rx_Suerm l else l)
      else
        let l1 = (if has_trace (reg l) \<and> err_code = 0
                  then emit (Trace (take (unat (rx_buf_len l - 2)) (rx_su l)) 1) l else l)
        in if has_rx_data (reg l) then emit (Rx_Data (rx_su l) err_code) l1 else l1)"

definition octet_count_inc :: "wp_mtp1_link \<Rightarrow> wp_mtp1_link" where
  "octet_count_inc l =
     (let l1 = l\<lparr>r_octet_bit_count := r_octet_bit_count l + 1\<rparr>
      in if r_octet_bit_count l1 \<ge> 8 then
           let l2 = l1\<lparr>r_octet_counting_count := r_octet_counting_count l1 + 1\<rparr>
           in if r_octet_counting_count l2 \<ge> param_N (cfg l2)
              then suerm (l2\<lparr>r_octet_counting_count := 0\<rparr>) else l2
         else l1)"

definition octet_count_start :: "wp_mtp1_link \<Rightarrow> wp_mtp1_link" where
  "octet_count_start l =
     (octet_count_inc (l\<lparr>r_octet_counting_mode := 1, r_octet_counting_count := 0\<rparr>))
       \<lparr>state_daedr := DAEDRX_0\<rparr>"

definition count_if_mode :: "wp_mtp1_link \<Rightarrow> wp_mtp1_link" where
  "count_if_mode l = (if r_octet_counting_mode l \<noteq> 0 then octet_count_inc l else l)"

section \<open>The states of rx_bit_to_su\<close>

definition flag_shift :: "u8 \<Rightarrow> wp_mtp1_link \<Rightarrow> wp_mtp1_link" where
  "flag_shift bt l = l\<lparr>r_flag_accum := drop_bit 1 (r_flag_accum l) OR ucast bt\<rparr>"

definition abort_frame :: "wp_mtp1_link \<Rightarrow> wp_mtp1_link" where
  "abort_frame l = octet_count_start (su_accept (push_bit WP_MTP1_ABORT_ERROR_BIT 1) l)"

definition rx_init :: "wp_mtp1_link \<Rightarrow> wp_mtp1_link" where
  "rx_init l = l\<lparr>r_su_accepted := 0, r_su_rejected := 0, r_fisu_count := 0,
     r_lssu_1_count := 0, r_lssu_2_count := 0, r_msu_count := 0,
     r_flag_accum := 0, r_octet_counting_mode := 0, state_daedr := DAEDRX_0\<rparr>"

definition rx_daedrx_0 :: "u8 \<Rightarrow> wp_mtp1_link \<Rightarrow> wp_mtp1_link" where
  "rx_daedrx_0 bt l =
     (let l1 = flag_shift bt (count_if_mode l)
      in if r_flag_accum l1 = 0x7e then
           l1\<lparr>r_flag_count := r_flag_count l1 + 1, r_bit_gate_count := 7, state_daedr := DAEDRX_1\<rparr>
         else if r_flag_accum l1 = 0x7f \<or> r_flag_accum l1 = 0xfe then abort_frame l1
         else l1)"

definition rx_daedrx_1 :: "u8 \<Rightarrow> wp_mtp1_link \<Rightarrow> wp_mtp1_link" where
  "rx_daedrx_1 bt l =
     (let l1 = count_if_mode (flag_shift bt l)
      in if r_bit_gate_count l1 > 0 then l1\<lparr>r_bit_gate_count := r_bit_gate_count l1 - 1\<rparr>
         else
           let l2 = l1\<lparr>r_accum := 0, r_octet_bit_count := 0, rx_buf := (\<lambda>_. 0),
                       rx_buf_len := 0, r_1s_bit_count := 0, state_daedr := DAEDRX_2\<rparr>
           in if r_flag_accum l2 = 0x7e then
                l2\<lparr>r_flag_count := r_flag_count l2 + 1, r_bit_gate_count := 7, state_daedr := DAEDRX_1\<rparr>
              else if r_flag_accum l2 = 0x7f \<or> r_flag_accum l2 = 0xfe then abort_frame l2
              else l2)"

text \<open>\<open>DAEDRX_2_RESET_VARS\<close>: the closing flag may be the opening one of the next unit.\<close>

definition rx_reset_vars :: "wp_mtp1_link \<Rightarrow> wp_mtp1_link" where
  "rx_reset_vars l = l\<lparr>r_flag_count := r_flag_count l + 1, r_bit_gate_count := 7,
     state_daedr := DAEDRX_1, rx_buf := (\<lambda>_. 0), rx_buf_len := 0\<rparr>"

text \<open>\<open>DAEDRX_2_CHECK_FLAG\<close>: shift the new bit in and look for the closing flag.\<close>

definition rx_check_flag :: "u8 \<Rightarrow> wp_mtp1_link \<Rightarrow> wp_mtp1_link" where
  "rx_check_flag bt l =
     (let l1 = flag_shift bt l
      in if r_flag_accum l1 = 0x7e then
           (if r_octet_bit_count l1 \<noteq> 0 then
              rx_reset_vars (su_accept (push_bit WP_MTP1_FRAME_ERROR_BIT 1) (suerm l1))
            else if rx_buf_len l1 < 3 then
              rx_reset_vars (su_accept (push_bit WP_MTP1_FRAME_ERROR_BIT 1) (suerm l1))
            else if crc_tss_rev 0xffff (unat (rx_buf_len l1)) (rx_buf l1) \<noteq> 0xf0b8 then
              rx_reset_vars (su_accept (push_bit WP_MTP1_CRC_ERROR_BIT 1) (suerm l1))
            else rx_reset_vars (su_accept 0 l1))
         else if r_flag_accum l1 = 0x7f \<or> r_flag_accum l1 = 0xfe then abort_frame l1
         else l1)"

text \<open>The store of a completed octet: outside the array it is a fault.\<close>

definition rx_store :: "u8 \<Rightarrow> wp_mtp1_link \<Rightarrow> wp_mtp1_link" where
  "rx_store v l =
     (if rx_buf_len l < RX_BUF_SIZE then l\<lparr>rx_buf := (rx_buf l)(unat (rx_buf_len l) := v)\<rparr>
      else l\<lparr>rx_fault := True\<rparr>)"

text \<open>A bit that is kept goes to the octet accumulator.\<close>

definition rx_collect :: "u32 \<Rightarrow> u8 \<Rightarrow> wp_mtp1_link \<Rightarrow> wp_mtp1_link" where
  "rx_collect su_bit bt l =
     (let l1 = l\<lparr>r_accum := drop_bit 1 (r_accum l) OR su_bit,
                 r_octet_bit_count := r_octet_bit_count l + 1\<rparr>
      in if r_octet_bit_count l1 < 8 then rx_check_flag bt l1
         else if r_octet_bit_count l1 = 8 then
           (if rx_buf_len l1 > max_mru (cfg l1) then
              octet_count_start
                ((su_accept (push_bit WP_MTP1_FRAME_ERROR_BIT 1) l1)\<lparr>rx_buf := (\<lambda>_. 0), rx_buf_len := 0\<rparr>)
            else
              let l2 = rx_store (ucast (r_accum l1)) l1
              in rx_check_flag bt
                   (l2\<lparr>rx_buf_len := rx_buf_len l2 + 1, r_octet_bit_count := 0, r_accum := 0\<rparr>))
         else rx_check_flag bt (l1\<lparr>state_daedr := INIT\<rparr>))"

definition rx_daedrx_2 :: "u8 \<Rightarrow> wp_mtp1_link \<Rightarrow> wp_mtp1_link" where
  "rx_daedrx_2 bt l =
     (let l1 = count_if_mode l;
          su_bit = (if r_flag_accum l1 AND 1 \<noteq> 0 then 0x80 else 0)
      in if su_bit > 0 then
           let l2 = l1\<lparr>r_1s_bit_count := r_1s_bit_count l1 + 1\<rparr>
           in if r_1s_bit_count l2 \<ge> 7 then octet_count_start l2
              else rx_collect su_bit bt l2
         else if r_1s_bit_count l1 = 5 then rx_check_flag bt (l1\<lparr>r_1s_bit_count := 0\<rparr>)
         else rx_collect su_bit bt (l1\<lparr>r_1s_bit_count := 0\<rparr>))"

definition rx_bit_to_su :: "u8 \<Rightarrow> wp_mtp1_link \<Rightarrow> wp_mtp1_link" where
  "rx_bit_to_su bt l =
     (case state_daedr l of
        INIT \<Rightarrow> rx_daedrx_0 bt (rx_init l)
      | DAEDRX_0 \<Rightarrow> rx_daedrx_0 bt l
      | DAEDRX_1 \<Rightarrow> rx_daedrx_1 bt l
      | DAEDRX_2 \<Rightarrow> rx_daedrx_2 bt l)"

section \<open>Octets from the line\<close>

definition daed_rx :: "u8 \<Rightarrow> wp_mtp1_link \<Rightarrow> wp_mtp1_link" where
  "daed_rx octet l0 =
     (let l = l0\<lparr>r_total_octet_count := r_total_octet_count l0 + 1\<rparr>
      in if hdlc_bit_endian (cfg l) = WP_MTP1_HDLC_BIT_0_FIRST then
           let l7 = rx_bit_to_su (if octet AND 0x40 \<noteq> 0 then 0x80 else 0)
                 (rx_bit_to_su (if octet AND 0x20 \<noteq> 0 then 0x80 else 0)
                 (rx_bit_to_su (if octet AND 0x10 \<noteq> 0 then 0x80 else 0)
                 (rx_bit_to_su (if octet AND 0x08 \<noteq> 0 then 0x80 else 0)
                 (rx_bit_to_su (if octet AND 0x04 \<noteq> 0 then 0x80 else 0)
                 (rx_bit_to_su (if octet AND 0x02 \<noteq> 0 then 0x80 else 0)
                 (rx_bit_to_su (if octet AND 0x01 \<noteq> 0 then 0x80 else 0) l))))))
           in if hdlc_op_mode (cfg l7) = WP_MTP1_HDLC_8BIT
              then rx_bit_to_su (octet AND 0x80) l7 else l7
         else
           let l1 = (if hdlc_op_mode (cfg l) = WP_MTP1_HDLC_8BIT
                     then rx_bit_to_su (octet AND 0x80) l else l)
           in rx_bit_to_su (push_bit 7 (octet AND 0x01))
             (rx_bit_to_su (push_bit 6 (octet AND 0x02))
             (rx_bit_to_su (push_bit 5 (octet AND 0x04))
             (rx_bit_to_su (push_bit 4 (octet AND 0x08))
             (rx_bit_to_su (push_bit 3 (octet AND 0x10))
             (rx_bit_to_su (push_bit 2 (octet AND 0x20))
             (rx_bit_to_su (push_bit 1 (octet AND 0x40)) l1)))))))"

text \<open>
  \<open>daed_rx\<close> always returns 0, so the loop of the handler runs over all of the buffer
  and the handler returns 0.
\<close>

definition wp_mtp1_rx_handler :: "u8 list \<Rightarrow> wp_mtp1_link \<Rightarrow> wp_mtp1_link" where
  "wp_mtp1_rx_handler data l = fold daed_rx data l"

end
