(* ===== verification/Mtp1_Rx_Line.thy ===== *)
theory Mtp1_Rx_Line
  imports Mtp1_Rx
begin

unbundle bit_operations_syntax

text \<open>
  What the receiver of wanpipe_mtp1.c does with a line: the accumulators read as lists
  of bits, one kept bit, one unit, a sequence of units between flags, and the handler on
  the octets of the driver (\<open>rx_line\<close>). The abstract receiver is \<open>unit_ev\<close>: the
  calls made for the bits between two flags.
\<close>

section \<open>The accumulators as lists of bits\<close>

definition bitw :: "bool \<Rightarrow> u8" where
  "bitw b = (if b then 0x80 else 0)"

lemma bit_bitw: "bit (bitw x) n \<longleftrightarrow> x \<and> n = 7"
proof (cases x)
  case True
  then show ?thesis by (simp only: bitw_def if_True bit_0x80 simp_thms)
qed (simp add: bitw_def)

text \<open>A window of eight line bits, the oldest in bit 0, as the flag accumulator holds it.\<close>

definition acc_of :: "bool list \<Rightarrow> u32" where
  "acc_of bs = horner_sum of_bool 2 bs"

lemma bit_acc_of: "length bs \<le> 32 \<Longrightarrow> bit (acc_of bs) n \<longleftrightarrow> n < length bs \<and> bs ! n"
  by (auto simp: acc_of_def bit_horner_sum_bit_word_iff)

lemma acc_of_inject: "length v = 8 \<Longrightarrow> length w = 8 \<Longrightarrow> acc_of v = acc_of w \<longleftrightarrow> v = w"
proof
  assume len: "length v = 8" "length w = 8" and eq: "acc_of v = acc_of w"
  show "v = w"
  proof (rule nth_equalityI)
    fix i assume "i < length v"
    with len arg_cong [OF eq, of "\<lambda>a. bit a i"] show "v ! i = w ! i"
      by (simp add: bit_acc_of)
  qed (simp add: len)
qed simp

lemma acc_of_flag: "acc_of flag_bits = 0x7e"
  and acc_of_7f: "acc_of [True, True, True, True, True, True, True, False] = 0x7f"
  and acc_of_fe: "acc_of [False, True, True, True, True, True, True, True] = 0xfe"
  by (simp_all add: acc_of_def flag_bits_def)

lemma acc_of_shift:
  assumes "length w = 7"
  shows "drop_bit 1 (acc_of (b # w)) OR ucast (bitw x) = acc_of (w @ [x])"
proof (rule bit_word_eqI)
  fix n assume "n < LENGTH(32)"
  have "bit (ucast (bitw x) :: u32) n \<longleftrightarrow> x \<and> n = 7"
    by (auto simp: bit_ucast_iff bit_bitw)
  with assms show "bit (drop_bit 1 (acc_of (b # w)) OR ucast (bitw x)) n = bit (acc_of (w @ [x])) n"
    by (auto simp: bit_simps bit_acc_of nth_append nth_Cons')
qed

lemma acc_of_oldest: "length w = 7 \<Longrightarrow> acc_of (b # w) AND 1 \<noteq> 0 \<longleftrightarrow> b"
proof -
  assume "length w = 7"
  then have "bit (acc_of (b # w)) 0 = b" by (simp add: bit_acc_of)
  then show ?thesis by (simp add: and_one_eq bit_0 odd_iff_mod_2_eq_one)
qed

text \<open>Bits collected for the octet that is being assembled.\<close>

definition partial_of :: "bool list \<Rightarrow> u32" where
  "partial_of p = foldl (\<lambda>a b. drop_bit 1 a OR (if b then 0x80 else 0)) 0 p"

lemma partial_of_simps [simp]:
  "partial_of [] = 0"
  "partial_of (p @ [b]) = drop_bit 1 (partial_of p) OR (if b then 0x80 else 0)"
  by (simp_all add: partial_of_def)

lemma partial_of_octet:
  assumes "length p = 8"
  shows "ucast (partial_of p) = octet_of p"
proof -
  from assms obtain b0 b1 b2 b3 b4 b5 b6 b7 where p: "p = [b0, b1, b2, b3, b4, b5, b6, b7]"
    by (auto simp: length_Suc_conv numeral_eq_Suc)
  show ?thesis
    unfolding p
    by (cases b0; cases b1; cases b2; cases b3; cases b4; cases b5; cases b6; cases b7)
      (simp_all add: partial_of_def octet_of_def)
qed

text \<open>A calm stream shows no special window before its closing flag.\<close>

lemma calm_Cons: "calm k (b # bs) \<longleftrightarrow> (if b then k < 5 \<and> calm (Suc k) bs else calm 0 bs)"
  by (cases b) auto

lemma window_calm:
  assumes "calm k s" and "s \<noteq> []"
  shows "take 8 (s @ flag_bits) \<notin>
    {flag_bits, [True, True, True, True, True, True, True, False],
     [False, True, True, True, True, True, True, True]}"
proof -
  have c: "calm 0 s" using assms(1) by (rule calm_mono) simp
  have six: False if "calm j (replicate 6 True @ r)" for j r
    using that by (simp add: numeral_eq_Suc)
  show ?thesis
  proof
    let ?w = "take 8 (s @ flag_bits)"
    assume special: "?w \<in> {flag_bits, [True, True, True, True, True, True, True, False],
       [False, True, True, True, True, True, True, True]}"
    show False
    proof (cases "7 \<le> length s")
      case True
      then obtain a0 a1 a2 a3 a4 a5 a6 r where s: "s = a0 # a1 # a2 # a3 # a4 # a5 # a6 # r"
        by (auto simp: numeral_eq_Suc Suc_le_length_iff)
      show False using special c six [of 0 "r"] six [of 0 "a6 # r"]
        by (auto simp: s flag_bits_def calm_Cons numeral_eq_Suc)
    next
      case False
      then have "length s < 7" by simp
      with assms(2) have "length s \<in> {1, 2, 3, 4, 5, 6}" by (cases s) (auto simp: less_Suc_eq numeral_eq_Suc)
      then show False using special
        by (auto simp: length_Suc_conv numeral_eq_Suc flag_bits_def)
    qed
  qed
qed
section \<open>Receiving one unit\<close>

definition su_holds :: "u8 list \<times> bool list \<Rightarrow> wp_mtp1_link \<Rightarrow> bool" where
  "su_holds u l \<longleftrightarrow> rx_su l = fst u \<and> length (snd u) < 8 \<and>
     unat (r_octet_bit_count l) = length (snd u) \<and> r_accum l = partial_of (snd u)"

text \<open>What stays the same while bits are collected.\<close>

definition same_env :: "wp_mtp1_link \<Rightarrow> wp_mtp1_link \<Rightarrow> bool" where
  "same_env l l' \<longleftrightarrow> cfg l' = cfg l \<and> reg l' = reg l \<and> tbs l' = tbs l \<and> rx_fault l' = rx_fault l"

definition in_unit :: "nat \<Rightarrow> u8 list \<times> bool list \<Rightarrow> wp_mtp1_link \<Rightarrow> bool" where
  "in_unit k u l \<longleftrightarrow> state_daedr l = DAEDRX_2 \<and> r_octet_counting_mode l = 0 \<and>
     unat (r_1s_bit_count l) = k \<and> su_holds u l"

definition after_flag :: "wp_mtp1_link \<Rightarrow> bool" where
  "after_flag l \<longleftrightarrow> state_daedr l = DAEDRX_1 \<and> r_octet_counting_mode l = 0 \<and>
     r_bit_gate_count l = 7 \<and> r_flag_accum l = acc_of flag_bits"

text \<open>The calls the closing flag of a unit makes.\<close>

definition suerm_ev :: "wp_mtp1_reg \<Rightarrow> mtp1_event list" where
  "suerm_ev r = (if has_rx_suerm r then [Rx_Suerm] else [])"

definition accept_ev :: "wp_mtp1_reg \<Rightarrow> u8 list \<Rightarrow> u32 \<Rightarrow> mtp1_event list" where
  "accept_ev r bs err =
     (if length bs < 3 then suerm_ev r
      else (if has_trace r \<and> err = 0 then [Trace (take (length bs - 2) bs) 1] else []) @
           (if has_rx_data r then [Rx_Data bs err] else []))"

fun closing_ev :: "wp_mtp1_reg \<Rightarrow> u8 list \<times> bool list \<Rightarrow> mtp1_event list" where
  "closing_ev r (bs, p) =
     (if p \<noteq> [] \<or> length bs < 3 then suerm_ev r @ accept_ev r bs 8
      else if fcs_check crc_tss_rev_step bs \<noteq> 0xf0b8 then suerm_ev r @ accept_ev r bs 2
      else accept_ev r bs 0)"

lemma length_rx_su: "length (rx_su l) = unat (rx_buf_len l)"
  by (simp add: rx_su_def)

lemma emit_sel [simp]:
  "events (emit e l) = events l @ [e]" "cfg (emit e l) = cfg l" "reg (emit e l) = reg l"
  "tbs (emit e l) = tbs l" "rx_fault (emit e l) = rx_fault l"
  "state_daedr (emit e l) = state_daedr l" "rx_buf (emit e l) = rx_buf l"
  "rx_buf_len (emit e l) = rx_buf_len l" "r_flag_accum (emit e l) = r_flag_accum l"
  "r_octet_counting_mode (emit e l) = r_octet_counting_mode l"
  "r_octet_bit_count (emit e l) = r_octet_bit_count l"
  by (simp_all add: emit_def)

lemma rx_su_emit [simp]: "rx_su (emit e l) = rx_su l"
  by (simp add: rx_su_def)

lemma suerm_sel [simp]:
  "events (suerm l) = events l @ suerm_ev (reg l)" "cfg (suerm l) = cfg l" "reg (suerm l) = reg l"
  "tbs (suerm l) = tbs l" "rx_fault (suerm l) = rx_fault l" "rx_su (suerm l) = rx_su l"
  "r_flag_accum (suerm l) = r_flag_accum l" "rx_buf_len (suerm l) = rx_buf_len l"
  "r_octet_counting_mode (suerm l) = r_octet_counting_mode l"
  by (simp_all add: suerm_def suerm_ev_def)

lemma su_accept_sel [simp]:
  "events (su_accept err l) = events l @ accept_ev (reg l) (rx_su l) err"
  "cfg (su_accept err l) = cfg l" "reg (su_accept err l) = reg l"
  "tbs (su_accept err l) = tbs l" "rx_fault (su_accept err l) = rx_fault l"
  "r_flag_accum (su_accept err l) = r_flag_accum l"
  "r_octet_counting_mode (su_accept err l) = r_octet_counting_mode l"
proof -
  have short: "rx_buf_len l < 3 \<longleftrightarrow> length (rx_su l) < 3"
    by (simp add: length_rx_su word_less_nat_alt)
  have two: "unat (rx_buf_len l - 2) = length (rx_su l) - 2" if "\<not> rx_buf_len l < 3"
    using that by (simp add: length_rx_su unat_sub word_le_nat_alt word_less_nat_alt)
  show "events (su_accept err l) = events l @ accept_ev (reg l) (rx_su l) err"
    using short two by (auto simp: su_accept_def accept_ev_def suerm_ev_def Let_def)
qed (simp_all add: su_accept_def Let_def)

lemma rx_reset_vars_sel [simp]:
  "events (rx_reset_vars l) = events l" "cfg (rx_reset_vars l) = cfg l"
  "reg (rx_reset_vars l) = reg l" "tbs (rx_reset_vars l) = tbs l"
  "rx_fault (rx_reset_vars l) = rx_fault l"
  by (simp_all add: rx_reset_vars_def)

lemma rx_crc: "crc_tss_rev 0xffff (unat (rx_buf_len l)) (rx_buf l) = fcs_check crc_tss_rev_step (rx_su l)"
  by (simp add: crc_tss_rev_foldl fcs_check_def rx_su_def arr_take_def)

text \<open>The closing flag.\<close>

lemma rx_check_flag_close:
  assumes acc: "r_flag_accum l = acc_of (b # w)" and w: "w @ [x] = flag_bits"
    and u: "su_holds u l" and mode: "r_octet_counting_mode l = 0"
  shows "let l' = rx_check_flag (bitw x) l
    in after_flag l' \<and> same_env l l' \<and> events l' = events l @ closing_ev (reg l) u"
proof -
  have len: "length w = 7" using arg_cong [OF w, of length] by (simp add: flag_bits_def)
  let ?l1 = "flag_shift (bitw x) l"
  have "?l1 = l\<lparr>r_flag_accum := acc_of flag_bits\<rparr>"
    by (simp only: flag_shift_def acc acc_of_shift [OF len] w)
  then have a1: "r_flag_accum ?l1 = acc_of flag_bits" by simp
  have fields: "rx_su ?l1 = rx_su l" "rx_buf_len ?l1 = rx_buf_len l" "rx_buf ?l1 = rx_buf l"
    "r_octet_bit_count ?l1 = r_octet_bit_count l" "events ?l1 = events l" "reg ?l1 = reg l"
    "cfg ?l1 = cfg l" "tbs ?l1 = tbs l" "rx_fault ?l1 = rx_fault l"
    "r_octet_counting_mode ?l1 = 0"
    by (simp_all add: flag_shift_def rx_su_def mode)
  obtain bs p where up: "u = (bs, p)" by (cases u)
  have nz: "r_octet_bit_count l \<noteq> 0 \<longleftrightarrow> p \<noteq> []" and bs: "rx_su l = bs"
    using u by (auto simp: su_holds_def up unat_eq_0 [symmetric])
  have short: "rx_buf_len l < 3 \<longleftrightarrow> length bs < 3"
    using bs length_rx_su [of l] by (simp add: word_less_nat_alt)
  have after: "after_flag (rx_reset_vars m)" if "r_flag_accum m = acc_of flag_bits" "r_octet_counting_mode m = 0" for m
    using that by (simp add: after_flag_def rx_reset_vars_def)
  show ?thesis
    unfolding rx_check_flag_def Let_def rx_crc
    using a1 bs
    by (auto simp: fields acc_of_flag [symmetric] nz short up same_env_def
        WP_MTP1_FRAME_ERROR_BIT_def WP_MTP1_CRC_ERROR_BIT_def intro!: after)
qed

lemma acc_not_special:
  assumes "length v = 8"
    and "v \<notin> {flag_bits, [True, True, True, True, True, True, True, False],
       [False, True, True, True, True, True, True, True]}"
  shows "acc_of v \<noteq> 0x7e \<and> acc_of v \<noteq> 0x7f \<and> acc_of v \<noteq> 0xfe"
  using assms acc_of_inject [of v]
  by (auto simp: acc_of_flag [symmetric] acc_of_7f [symmetric] acc_of_fe [symmetric] flag_bits_def)

text \<open>No special window: the bit is only shifted in.\<close>

lemma rx_check_flag_open:
  assumes acc: "r_flag_accum l = acc_of (b # w)" and len: "length w = 7"
    and w: "w @ [x] \<notin> {flag_bits, [True, True, True, True, True, True, True, False],
       [False, True, True, True, True, True, True, True]}"
  shows "rx_check_flag (bitw x) l = l\<lparr>r_flag_accum := acc_of (w @ [x])\<rparr>"
proof -
  have a1: "flag_shift (bitw x) l = l\<lparr>r_flag_accum := acc_of (w @ [x])\<rparr>"
    by (simp only: flag_shift_def acc acc_of_shift [OF len])
  have "acc_of (w @ [x]) \<noteq> 0x7e" "acc_of (w @ [x]) \<noteq> 0x7f" "acc_of (w @ [x]) \<noteq> 0xfe"
    using acc_not_special [OF _ w] len by simp_all
  then show ?thesis
    by (simp add: rx_check_flag_def a1)
qed

text \<open>A kept bit moves the unit by \<open>su_push\<close>, as long as the unit is not too long.\<close>

definition fits :: "nat \<Rightarrow> wp_mtp1_link \<Rightarrow> bool" where
  "fits n l \<longleftrightarrow> n \<le> Suc (unat (max_mru (cfg l))) \<and> n \<le> 8192"

lemma rx_collect_push:
  assumes u: "su_holds (bs, p) l" and room: "fits (length (fst (su_push b (bs, p)))) l"
  shows "\<exists>l'. rx_collect (if b then 0x80 else 0) bt l = rx_check_flag bt l' \<and>
    su_holds (su_push b (bs, p)) l' \<and> same_env l l' \<and> events l' = events l \<and>
    state_daedr l' = state_daedr l \<and> r_octet_counting_mode l' = r_octet_counting_mode l \<and>
    r_1s_bit_count l' = r_1s_bit_count l \<and> r_flag_accum l' = r_flag_accum l"
proof -
  let ?l1 = "l\<lparr>r_accum := drop_bit 1 (r_accum l) OR (if b then 0x80 else 0),
                 r_octet_bit_count := r_octet_bit_count l + 1\<rparr>"
  have p: "length p < 8" and cnt: "unat (r_octet_bit_count l) = length p"
    and acc: "r_accum ?l1 = partial_of (p @ [b])" and su: "rx_su l = bs"
    using u by (simp_all add: su_holds_def)
  have cnt1: "unat (r_octet_bit_count l + 1) = Suc (length p)"
    using p cnt by (simp add: unat_inc32)
  show ?thesis
  proof (cases "length p = 7")
    case False
    with p have less: "r_octet_bit_count ?l1 < 8"
      using cnt1 by (simp add: word_less_nat_alt)
    have "su_holds (su_push b (bs, p)) ?l1"
      using False p cnt1 acc su by (simp add: su_holds_def rx_su_def)
    with less show ?thesis
      by (intro exI [of _ ?l1]) (simp add: rx_collect_def same_env_def Let_def)
  next
    case True
    then have eight: "r_octet_bit_count ?l1 = 8"
      using cnt1 by (simp add: word_unat_eq_iff)
    have len: "unat (rx_buf_len l) = length bs" using length_rx_su [of l] su by simp
    have small: "\<not> rx_buf_len l > max_mru (cfg l)" "rx_buf_len l < RX_BUF_SIZE"
      using room len True by (simp_all add: fits_def word_less_nat_alt RX_BUF_SIZE_def)
    let ?l2 = "?l1\<lparr>rx_buf := (rx_buf l)(length bs := octet_of (p @ [b])),
                   rx_buf_len := rx_buf_len l + 1, r_octet_bit_count := 0, r_accum := 0\<rparr>"
    have oct: "ucast (partial_of (p @ [b])) = octet_of (p @ [b])"
      using True by (intro partial_of_octet) simp
    have eq: "rx_collect (if b then 0x80 else 0) bt l = rx_check_flag bt ?l2"
      using small eight acc oct
      by (simp add: rx_collect_def Let_def rx_store_def len del: partial_of_simps)
    have "unat (rx_buf_len l + 1) = Suc (length bs)"
      using room len True by (simp add: unat_inc32 fits_def)
    then have "su_holds (su_push b (bs, p)) ?l2"
      using True su len by (simp add: su_holds_def rx_su_def arr_take_snoc)
    with eq show ?thesis
      by (intro exI [of _ ?l2]) (simp add: same_env_def)
  qed
qed

text \<open>One step in a unit: the bit that leaves the window is kept or dropped.\<close>

definition kept :: "nat \<Rightarrow> bool \<Rightarrow> u8 list \<times> bool list \<Rightarrow> u8 list \<times> bool list" where
  "kept k b u = (if \<not> b \<and> k = 5 then u else su_push b u)"

lemma rx_daedrx_2_step:
  assumes unit: "in_unit k u l" and acc: "r_flag_accum l = acc_of (b # w)" and len: "length w = 7"
    and k: "if b then k < 5 else True" and room: "fits (length (fst (kept k b u))) l"
  shows "\<exists>l'. rx_bit_to_su bt l = rx_check_flag bt l' \<and>
    in_unit (if b then Suc k else 0) (kept k b u) l' \<and> same_env l l' \<and>
    events l' = events l \<and> r_flag_accum l' = acc_of (b # w)"
proof -
  obtain bs p where up: "u = (bs, p)" by (cases u)
  have st: "state_daedr l = DAEDRX_2" and mode: "r_octet_counting_mode l = 0"
    and ones: "unat (r_1s_bit_count l) = k" and h: "su_holds (bs, p) l"
    using unit by (simp_all add: in_unit_def up)
  have oldest: "r_flag_accum l AND 1 \<noteq> 0 \<longleftrightarrow> b"
    using acc_of_oldest [OF len] acc by simp
  define l1 where "l1 = l\<lparr>r_1s_bit_count := (if b then r_1s_bit_count l + 1 else 0)\<rparr>"
  have k1: "unat (r_1s_bit_count l1) = (if b then Suc k else 0)"
    using k ones by (cases b) (simp_all add: l1_def unat_inc32)
  have h1: "su_holds (bs, p) l1" and room1: "fits (length (fst (kept k b (bs, p)))) l1"
    and env1: "same_env l l1" "events l1 = events l" "r_flag_accum l1 = acc_of (b # w)"
      "state_daedr l1 = DAEDRX_2" "r_octet_counting_mode l1 = 0"
    using h room st mode acc by (simp_all add: l1_def su_holds_def rx_su_def fits_def up same_env_def)
  have five: "r_1s_bit_count l = 5 \<longleftrightarrow> k = 5"
    using ones by (auto simp: word_unat_eq_iff)
  have seven: "\<not> 7 \<le> r_1s_bit_count l + 1" if b
    using that k ones by (simp add: word_le_nat_alt unat_inc32)
  show ?thesis
  proof (cases "\<not> b \<and> k = 5")
    case True
    then have "rx_bit_to_su bt l = rx_check_flag bt l1"
      using oldest five
      by (simp add: rx_bit_to_su_def st rx_daedrx_2_def count_if_mode_def mode Let_def l1_def)
    with True k1 h1 env1 show ?thesis
      by (intro exI [of _ l1]) (simp add: in_unit_def kept_def up)
  next
    case False
    have "rx_bit_to_su bt l = rx_collect (if b then 0x80 else 0) bt l1"
      using oldest five seven False
      by (auto simp: rx_bit_to_su_def st rx_daedrx_2_def count_if_mode_def mode Let_def l1_def)
    moreover have "fits (length (fst (su_push b (bs, p)))) l1"
      using room1 False by (simp only: kept_def if_False)
    ultimately show ?thesis
      using rx_collect_push [OF h1, of b bt] False k1 env1
      by (auto simp: in_unit_def kept_def up same_env_def)
  qed
qed

section \<open>A stream of units\<close>

definition rx_bits :: "bool list \<Rightarrow> wp_mtp1_link \<Rightarrow> wp_mtp1_link" where
  "rx_bits bs l = fold (\<lambda>b. rx_bit_to_su (bitw b)) bs l"

lemma rx_bits_simps [simp]:
  "rx_bits [] l = l"
  "rx_bits (b # bs) l = rx_bits bs (rx_bit_to_su (bitw b) l)"
  "rx_bits (bs @ cs) l = rx_bits cs (rx_bits bs l)"
  by (simp_all add: rx_bits_def)

lemma same_env_refl [simp]: "same_env l l"
  by (simp add: same_env_def)

lemma same_env_trans [trans]: "same_env a b \<Longrightarrow> same_env b c \<Longrightarrow> same_env a c"
  by (simp add: same_env_def)

lemma fits_env: "same_env l l' \<Longrightarrow> fits n l' = fits n l"
  by (simp add: same_env_def fits_def)

lemma fits_mono: "fits n l \<Longrightarrow> m \<le> n \<Longrightarrow> fits m l"
  by (simp add: fits_def)

lemma unstuff_step: "su_pushes u (unstuff k (b # s)) = su_pushes (kept k b u) (unstuff (if b then Suc k else 0) s)"
  by (cases b) (auto simp: kept_def)

lemma window_snoc: "take 7 (s @ flag_bits) @ [(s @ flag_bits) ! 7] = take 8 (s @ flag_bits)"
  using take_Suc_conv_app_nth [of 7 "s @ flag_bits"] by (simp del: take_append)

text \<open>From the first bits of a unit to its closing flag.\<close>

lemma rx_unit:
  assumes "s \<noteq> []" and "calm k s" and "in_unit k u l"
    and "r_flag_accum l = acc_of (take 8 (s @ flag_bits))"
    and "fits (length (fst (su_pushes u (unstuff k s)))) l"
  shows "let l' = rx_bits (drop 8 (s @ flag_bits)) l
    in after_flag l' \<and> same_env l l' \<and>
       events l' = events l @ closing_ev (reg l) (su_pushes u (unstuff k s))"
  using assms
proof (induction s arbitrary: k u l)
  case (Cons b s)
  let ?v = "s @ flag_bits"
  define w where "w = take 7 ?v"
  define x where "x = ?v ! 7"
  let ?u = "kept k b u" and ?k = "if b then Suc k else 0"
  have len: "length w = 7" by (simp add: w_def)
  have wx: "w @ [x] = take 8 ?v" by (simp only: w_def x_def window_snoc)
  have feed: "drop 8 ((b # s) @ flag_bits) = x # drop 8 ?v"
    using Cons_nth_drop_Suc [of 7 ?v] by (simp add: x_def del: drop_append)
  have acc: "r_flag_accum l = acc_of (b # w)"
    using Cons.prems(4) by (simp add: w_def)
  have k: "if b then k < 5 else True" and calm: "calm ?k s"
    using Cons.prems(2) by (simp_all add: calm_Cons split: if_splits)
  note fin = Cons.prems(5) [unfolded unstuff_step]
  obtain l1 where st: "rx_bit_to_su (bitw x) l = rx_check_flag (bitw x) l1"
    and unit: "in_unit ?k ?u l1" and env: "same_env l l1"
    and ev: "events l1 = events l" and acc1: "r_flag_accum l1 = acc_of (b # w)"
    using rx_daedrx_2_step [OF Cons.prems(3) acc len k fits_mono [OF fin su_pushes_grows], of "bitw x"]
    by blast
  show ?case
  proof (cases "s = []")
    case True
    then have fl: "w @ [x] = flag_bits" using wx by simp
    have "su_holds ?u l1" "r_octet_counting_mode l1 = 0"
      using unit by (simp_all add: in_unit_def)
    from rx_check_flag_close [OF acc1 fl this] env ev True show ?thesis
      unfolding feed unstuff_step
      by (simp add: st Let_def same_env_def)
  next
    case False
    have open1: "rx_check_flag (bitw x) l1 = l1\<lparr>r_flag_accum := acc_of (take 8 ?v)\<rparr>"
      using rx_check_flag_open [OF acc1 len, of x] window_calm [OF calm False] by (simp only: wx not_False_eq_True simp_thms)
    let ?l2 = "l1\<lparr>r_flag_accum := acc_of (take 8 ?v)\<rparr>"
    have unit2: "in_unit ?k ?u ?l2" using unit by (simp add: in_unit_def su_holds_def rx_su_def)
    have env2: "same_env l ?l2" using env by (simp add: same_env_def)
    have "fits (length (fst (su_pushes ?u (unstuff ?k s)))) ?l2"
      using fin fits_env [OF env2] by simp
    from Cons.IH [OF False calm unit2 _ this] env2 ev show ?thesis
      unfolding feed unstuff_step
      by (auto simp: st open1 Let_def same_env_def)
  qed
qed simp

text \<open>The eight bits after a flag.\<close>

lemma rx_gate_step:
  assumes "state_daedr l = DAEDRX_1" "r_octet_counting_mode l = 0" "0 < r_bit_gate_count l"
    and "r_flag_accum l = acc_of (c # w)" "length w = 7"
  shows "rx_bit_to_su (bitw x) l =
    l\<lparr>r_flag_accum := acc_of (w @ [x]), r_bit_gate_count := r_bit_gate_count l - 1\<rparr>"
  using assms acc_of_shift [of w c x]
  by (simp add: rx_bit_to_su_def rx_daedrx_1_def count_if_mode_def flag_shift_def Let_def)

lemma rx_gate:
  assumes "after_flag l" "length w = 7"
  shows "rx_bits w l = l\<lparr>r_flag_accum := acc_of (False # w), r_bit_gate_count := 0\<rparr>"
proof -
  from assms(2) obtain b0 b1 b2 b3 b4 b5 b6 where w: "w = [b0, b1, b2, b3, b4, b5, b6]"
    by (auto simp: length_Suc_conv numeral_eq_Suc)
  from assms(1) have "state_daedr l = DAEDRX_1" "r_octet_counting_mode l = 0"
      "r_bit_gate_count l = 7" "r_flag_accum l = acc_of flag_bits"
    by (simp_all add: after_flag_def)
  then show ?thesis
    by (simp add: w flag_bits_def rx_gate_step)
qed

definition unit_ev :: "wp_mtp1_reg \<Rightarrow> bool list \<Rightarrow> mtp1_event list" where
  "unit_ev r s = (if s = [] then [] else closing_ev r (su_pushes ([], []) (unstuff 0 s)))"

lemma rx_after_flag:
  assumes l: "after_flag l" and calm: "calm 0 s"
  shows "let l' = rx_bits (take 8 (s @ flag_bits)) l
    in same_env l l' \<and> events l' = events l \<and>
      (if s = [] then after_flag l'
       else in_unit 0 ([], []) l' \<and> r_flag_accum l' = acc_of (take 8 (s @ flag_bits)))"
proof -
  let ?v = "s @ flag_bits"
  define w where "w = take 7 ?v"
  define x where "x = ?v ! 7"
  have len: "length w = 7" by (simp add: w_def)
  have wx: "take 8 ?v = w @ [x]" by (simp only: w_def x_def window_snoc)
  let ?l = "l\<lparr>r_flag_accum := acc_of (False # w), r_bit_gate_count := 0\<rparr>"
  have st: "state_daedr l = DAEDRX_1" and mode: "r_octet_counting_mode l = 0"
    using l by (simp_all add: after_flag_def)
  let ?m = "?l\<lparr>r_flag_accum := acc_of (w @ [x]), r_accum := 0, r_octet_bit_count := 0, rx_buf := (\<lambda>_. 0),
                       rx_buf_len := 0, r_1s_bit_count := 0, state_daedr := DAEDRX_2\<rparr>"
  have shift: "flag_shift (bitw x) ?l = ?l\<lparr>r_flag_accum := acc_of (w @ [x])\<rparr>"
    using acc_of_shift [OF len, of False x] by (simp add: flag_shift_def)
  show ?thesis
  proof (cases "s = []")
    case True
    then have "acc_of (w @ [x]) = 0x7e" using wx acc_of_flag by simp
    then show ?thesis
      using True l unfolding wx
      by (simp add: rx_gate [OF l len] rx_bit_to_su_def rx_daedrx_1_def st mode count_if_mode_def
          shift Let_def same_env_def after_flag_def acc_of_flag)
  next
    case False
    have "acc_of (w @ [x]) \<noteq> 0x7e" "acc_of (w @ [x]) \<noteq> 0x7f" "acc_of (w @ [x]) \<noteq> 0xfe"
      using acc_not_special [OF _ window_calm [OF calm False]] len by (simp_all add: wx del: take_append)
    then have "rx_bit_to_su (bitw x) ?l = ?m"
      by (simp add: rx_bit_to_su_def rx_daedrx_1_def st mode count_if_mode_def shift Let_def)
    with False show ?thesis
      unfolding wx
      by (simp add: rx_gate [OF l len] same_env_def in_unit_def su_holds_def rx_su_def mode)
  qed
qed

lemma rx_frame:
  assumes l: "after_flag l" and calm: "calm 0 s"
    and room: "fits (length (fst (su_pushes ([], []) (unstuff 0 s)))) l"
  shows "let l' = rx_bits (s @ flag_bits) l
    in after_flag l' \<and> same_env l l' \<and> events l' = events l @ unit_ev (reg l) s"
proof (cases "s = []")
  case True
  then show ?thesis
    using rx_after_flag [OF l calm] by (simp add: Let_def unit_ev_def)
next
  case False
  let ?v = "s @ flag_bits"
  let ?l = "rx_bits (take 8 ?v) l"
  have 1: "same_env l ?l" "events ?l = events l" "in_unit 0 ([], []) ?l" "r_flag_accum ?l = acc_of (take 8 ?v)"
    using rx_after_flag [OF l calm] False by (simp_all add: Let_def)
  have "rx_bits ?v l = rx_bits (drop 8 ?v) ?l"
    by (metis append_take_drop_id rx_bits_simps(3))
  with rx_unit [OF False calm 1(3,4)] room fits_env [OF 1(1)] 1(1,2) False show ?thesis
    by (auto simp: Let_def unit_ev_def same_env_def)
qed

lemma rx_frames:
  assumes "after_flag l"
    and "\<forall>s \<in> set ss. calm 0 s \<and> fits (length (fst (su_pushes ([], []) (unstuff 0 s)))) l"
  shows "let l' = rx_bits (concat (map (\<lambda>s. s @ flag_bits) ss)) l
    in after_flag l' \<and> same_env l l' \<and> events l' = events l @ concat (map (unit_ev (reg l)) ss)"
  using assms
proof (induction ss arbitrary: l)
  case (Cons s ss)
  let ?l = "rx_bits (s @ flag_bits) l"
  have 1: "after_flag ?l" "same_env l ?l" "events ?l = events l @ unit_ev (reg l) s"
    using rx_frame [OF Cons.prems(1), of s] Cons.prems(2) by (simp_all add: Let_def)
  have "\<forall>s \<in> set ss. calm 0 s \<and> fits (length (fst (su_pushes ([], []) (unstuff 0 s)))) ?l"
    using Cons.prems(2) fits_env [OF 1(2)] by simp
  from Cons.IH [OF 1(1) this] 1 show ?case
    by (auto simp: Let_def same_env_def)
qed simp

section \<open>The handler\<close>

lemma cfg_octet_count [simp]:
  "cfg (octet_count_inc l) = cfg l" "cfg (count_if_mode l) = cfg l"
  "cfg (octet_count_start l) = cfg l" "cfg (abort_frame l) = cfg l"
  by (simp_all add: octet_count_inc_def count_if_mode_def octet_count_start_def abort_frame_def Let_def)

lemma cfg_flag [simp]:
  "cfg (flag_shift bt l) = cfg l" "cfg (rx_check_flag bt l) = cfg l" "cfg (rx_store v l) = cfg l"
  by (simp_all add: flag_shift_def rx_check_flag_def rx_store_def Let_def)

lemma cfg_states [simp]:
  "cfg (rx_init l) = cfg l" "cfg (rx_daedrx_0 bt l) = cfg l" "cfg (rx_daedrx_1 bt l) = cfg l"
  "cfg (rx_collect c bt l) = cfg l" "cfg (rx_daedrx_2 bt l) = cfg l"
  by (simp_all add: rx_init_def rx_daedrx_0_def rx_daedrx_1_def rx_daedrx_2_def rx_collect_def Let_def)

lemma cfg_rx_bit_to_su [simp]: "cfg (rx_bit_to_su bt l) = cfg l"
  by (simp add: rx_bit_to_su_def split: daed_state.split)

lemma cfg_rx_bits [simp]: "cfg (rx_bits bs l) = cfg l"
  by (induction bs arbitrary: l) simp_all

text \<open>The octet total is only counted, never read.\<close>

abbreviation with_total :: "u32 \<Rightarrow> wp_mtp1_link \<Rightarrow> wp_mtp1_link" where
  "with_total n l \<equiv> l\<lparr>r_total_octet_count := n\<rparr>"

lemma total_out:
  "state_daedr_update f1 (with_total n l) = with_total n (state_daedr_update f1 l)"
  "r_su_accepted_update f2 (with_total n l) = with_total n (r_su_accepted_update f2 l)"
  "r_su_rejected_update f3 (with_total n l) = with_total n (r_su_rejected_update f3 l)"
  "r_fisu_count_update f4 (with_total n l) = with_total n (r_fisu_count_update f4 l)"
  "r_lssu_1_count_update f5 (with_total n l) = with_total n (r_lssu_1_count_update f5 l)"
  "r_lssu_2_count_update f6 (with_total n l) = with_total n (r_lssu_2_count_update f6 l)"
  "r_msu_count_update f7 (with_total n l) = with_total n (r_msu_count_update f7 l)"
  "r_flag_accum_update f8 (with_total n l) = with_total n (r_flag_accum_update f8 l)"
  "r_flag_count_update f9 (with_total n l) = with_total n (r_flag_count_update f9 l)"
  "r_accum_update f10 (with_total n l) = with_total n (r_accum_update f10 l)"
  "r_1s_bit_count_update f11 (with_total n l) = with_total n (r_1s_bit_count_update f11 l)"
  "r_octet_counting_mode_update f12 (with_total n l) = with_total n (r_octet_counting_mode_update f12 l)"
  "r_octet_counting_count_update f13 (with_total n l) = with_total n (r_octet_counting_count_update f13 l)"
  "r_octet_bit_count_update f14 (with_total n l) = with_total n (r_octet_bit_count_update f14 l)"
  "r_bit_gate_count_update f15 (with_total n l) = with_total n (r_bit_gate_count_update f15 l)"
  "rx_buf_update f16 (with_total n l) = with_total n (rx_buf_update f16 l)"
  "rx_buf_len_update f17 (with_total n l) = with_total n (rx_buf_len_update f17 l)"
  "events_update f18 (with_total n l) = with_total n (events_update f18 l)"
  "rx_fault_update f19 (with_total n l) = with_total n (rx_fault_update f19 l)"
  by simp_all

lemma total_accept:
  "suerm (with_total n l) = with_total n (suerm l)"
  "su_accept e (with_total n l) = with_total n (su_accept e l)"
  by (simp_all add: suerm_def su_accept_def emit_def rx_su_def Let_def)

lemma total_count:
  "octet_count_inc (with_total n l) = with_total n (octet_count_inc l)"
  "count_if_mode (with_total n l) = with_total n (count_if_mode l)"
  "octet_count_start (with_total n l) = with_total n (octet_count_start l)"
  by (simp_all add: octet_count_inc_def count_if_mode_def octet_count_start_def suerm_def emit_def Let_def)

lemma total_flag:
  "abort_frame (with_total n l) = with_total n (abort_frame l)"
  "flag_shift bt (with_total n l) = with_total n (flag_shift bt l)"
  "rx_reset_vars (with_total n l) = with_total n (rx_reset_vars l)"
  by (simp_all add: abort_frame_def flag_shift_def rx_reset_vars_def total_accept total_count)

lemma total_check_flag:
  "rx_check_flag bt (with_total n l) = with_total n (rx_check_flag bt l)"
  by (simp add: rx_check_flag_def Let_def total_flag total_accept)

lemma total_collect:
  "rx_collect c bt (with_total n l) = with_total n (rx_collect c bt l)"
  by (simp add: rx_collect_def rx_store_def Let_def total_out total_check_flag total_accept total_count)

lemma total_bit:
  "rx_bit_to_su bt (with_total n l) = with_total n (rx_bit_to_su bt l)"
  by (cases "state_daedr l")
    (simp_all add: rx_bit_to_su_def rx_init_def rx_daedrx_0_def rx_daedrx_1_def rx_daedrx_2_def Let_def
      total_out total_check_flag total_flag total_count total_collect)

lemma bitw_test: "bitw (bit (v :: u8) n) = (if v AND 2 ^ n \<noteq> 0 then 0x80 else 0)"
  by (simp add: bitw_def and_exp_eq_0_iff_not_bit)

lemma bitw_top: "(v :: u8) AND 0x80 = bitw (bit v 7)"
  by (rule bit_word_eqI) (simp only: bit_and_iff bit_0x80 bit_bitw, blast)

lemma daed_rx_bits:
  assumes "hdlc_bit_endian (cfg l) = WP_MTP1_HDLC_BIT_0_FIRST"
  shows "daed_rx v l =
    rx_bits (line_bits (hdlc_op_mode (cfg l)) v) (with_total (r_total_octet_count l + 1) l)"
proof -
  have tests: "(if v AND 0x01 \<noteq> 0 then 0x80 else 0) = bitw (bit v 0)"
    "(if v AND 0x02 \<noteq> 0 then 0x80 else 0) = bitw (bit v 1)"
    "(if v AND 0x04 \<noteq> 0 then 0x80 else 0) = bitw (bit v 2)"
    "(if v AND 0x08 \<noteq> 0 then 0x80 else 0) = bitw (bit v 3)"
    "(if v AND 0x10 \<noteq> 0 then 0x80 else 0) = bitw (bit v 4)"
    "(if v AND 0x20 \<noteq> 0 then 0x80 else 0) = bitw (bit v 5)"
    "(if v AND 0x40 \<noteq> 0 then 0x80 else 0) = bitw (bit v 6)"
    using bitw_test [of v 0] bitw_test [of v 1] bitw_test [of v 2] bitw_test [of v 3]
      bitw_test [of v 4] bitw_test [of v 5] bitw_test [of v 6] by simp_all
  show ?thesis
    unfolding daed_rx_def Let_def tests bitw_top
    using assms by (simp add: line_bits_def bits8_eq)
qed

lemma total_bits: "rx_bits bs (with_total n l) = with_total n (rx_bits bs l)"
  by (induction bs arbitrary: l) (simp_all add: total_bit)

lemma rx_handler_bits:
  assumes "hdlc_bit_endian (cfg l) = WP_MTP1_HDLC_BIT_0_FIRST"
  shows "wp_mtp1_rx_handler vs l =
    with_total (r_total_octet_count l + of_nat (length vs))
      (rx_bits (concat (map (line_bits (hdlc_op_mode (cfg l))) vs)) l)"
  using assms
proof (induction vs arbitrary: l)
  case (Cons v vs)
  let ?l = "rx_bits (line_bits (hdlc_op_mode (cfg l)) v) (with_total (r_total_octet_count l + 1) l)"
  have step: "wp_mtp1_rx_handler (v # vs) l = wp_mtp1_rx_handler vs ?l"
    by (simp add: wp_mtp1_rx_handler_def daed_rx_bits [OF Cons.prems])
  have "r_total_octet_count ?l = r_total_octet_count l + 1"
    by (simp add: total_bits)
  with Cons.IH [of ?l] Cons.prems show ?case
    unfolding step by (simp add: total_bits add.assoc)
qed (simp add: wp_mtp1_rx_handler_def)

lemma rx_bits_init:
  assumes "state_daedr l = INIT"
  shows "let l' = rx_bits flag_bits l
    in after_flag l' \<and> same_env l l' \<and> events l' = events l"
proof -
  have ucast0: "ucast (bitw b) = (if b then 0x80 else 0 :: u32)" for b
    by (simp add: bitw_def)
  show ?thesis
    using assms
    by (simp add: flag_bits_def rx_bit_to_su_def rx_init_def rx_daedrx_0_def count_if_mode_def
        flag_shift_def ucast0 after_flag_def same_env_def acc_of_def)
qed

lemma rx_tail:
  assumes "after_flag l" "length w \<le> 7"
  shows "same_env l (rx_bits w l) \<and> events (rx_bits w l) = events l"
proof -
  have step: "state_daedr (rx_bits w l) = DAEDRX_1 \<and> r_octet_counting_mode (rx_bits w l) = 0 \<and>
      unat (r_bit_gate_count (rx_bits w l)) = 7 - length w \<and>
      same_env l (rx_bits w l) \<and> events (rx_bits w l) = events l"
    using assms(2)
  proof (induction w rule: rev_induct)
    case Nil
    then show ?case using assms(1) by (simp add: after_flag_def)
  next
    case (snoc b w)
    let ?m = "rx_bits w l"
    have IH: "state_daedr ?m = DAEDRX_1" "r_octet_counting_mode ?m = 0"
        "unat (r_bit_gate_count ?m) = 7 - length w" "same_env l ?m" "events ?m = events l"
      using snoc by simp_all
    have pos: "r_bit_gate_count ?m > 0"
      using IH(3) snoc.prems by (simp add: word_less_nat_alt)
    then have "rx_bit_to_su (bitw b) ?m =
        (flag_shift (bitw b) ?m)\<lparr>r_bit_gate_count := r_bit_gate_count ?m - 1\<rparr>"
      using IH by (simp add: rx_bit_to_su_def rx_daedrx_1_def flag_shift_def count_if_mode_def Let_def)
    with IH pos show ?case
      by (simp add: flag_shift_def same_env_def unat_minus_one)
  qed
  then show ?thesis by simp
qed

text \<open>Up to its closing flag a unit makes no calls.\<close>

lemma rx_unit_prefix:
  assumes "s \<noteq> []" and "calm k s" and "in_unit k u l"
    and "r_flag_accum l = acc_of (take 8 (s @ flag_bits))"
    and "fits (length (fst (su_pushes u (unstuff k s)))) l" and "n < length s"
  shows "let l' = rx_bits (take n (drop 8 (s @ flag_bits))) l
    in same_env l l' \<and> events l' = events l"
  using assms
proof (induction s arbitrary: k u l n)
  case (Cons b s)
  let ?v = "s @ flag_bits"
  define w where "w = take 7 ?v"
  define x where "x = ?v ! 7"
  let ?u = "kept k b u" and ?k = "if b then Suc k else 0"
  have len: "length w = 7" by (simp add: w_def)
  have wx: "w @ [x] = take 8 ?v" by (simp only: w_def x_def window_snoc)
  have feed: "drop 8 ((b # s) @ flag_bits) = x # drop 8 ?v"
    using Cons_nth_drop_Suc [of 7 ?v] by (simp add: x_def del: drop_append)
  have acc: "r_flag_accum l = acc_of (b # w)"
    using Cons.prems(4) by (simp add: w_def)
  have k: "if b then k < 5 else True" and calm: "calm ?k s"
    using Cons.prems(2) by (simp_all add: calm_Cons split: if_splits)
  note fin = Cons.prems(5) [unfolded unstuff_step]
  show ?case
  proof (cases n)
    case (Suc j)
    then have False: "s \<noteq> []" and j: "j < length s" using Cons.prems(6) by auto
    obtain l1 where st: "rx_bit_to_su (bitw x) l = rx_check_flag (bitw x) l1"
      and unit: "in_unit ?k ?u l1" and env: "same_env l l1"
      and ev: "events l1 = events l" and acc1: "r_flag_accum l1 = acc_of (b # w)"
      using rx_daedrx_2_step [OF Cons.prems(3) acc len k fits_mono [OF fin su_pushes_grows], of "bitw x"]
      by blast
    have open1: "rx_check_flag (bitw x) l1 = l1\<lparr>r_flag_accum := acc_of (take 8 ?v)\<rparr>"
      using rx_check_flag_open [OF acc1 len, of x] window_calm [OF calm False]
      by (simp only: wx not_False_eq_True simp_thms)
    let ?l2 = "l1\<lparr>r_flag_accum := acc_of (take 8 ?v)\<rparr>"
    have unit2: "in_unit ?k ?u ?l2" using unit by (simp add: in_unit_def su_holds_def rx_su_def)
    have env2: "same_env l ?l2" using env by (simp add: same_env_def)
    have "fits (length (fst (su_pushes ?u (unstuff ?k s)))) ?l2"
      using fin fits_env [OF env2] by simp
    from Cons.IH [OF False calm unit2 _ this j] env2 ev show ?thesis
      unfolding feed Suc by (auto simp: st open1 Let_def same_env_def)
  qed simp
qed simp

lemma rx_frame_prefix:
  assumes l: "after_flag l" and calm: "calm 0 s"
    and room: "fits (length (fst (su_pushes ([], []) (unstuff 0 s)))) l" and n: "n < length s + 8"
  shows "same_env l (rx_bits (take n (s @ flag_bits)) l) \<and>
    events (rx_bits (take n (s @ flag_bits)) l) = events l"
proof (cases "n \<le> 7")
  case True
  then show ?thesis by (intro rx_tail [OF l]) simp
next
  case False
  let ?v = "s @ flag_bits"
  let ?l = "rx_bits (take 8 ?v) l"
  have s: "s \<noteq> []" using n False by auto
  have 1: "same_env l ?l" "events ?l = events l" "in_unit 0 ([], []) ?l" "r_flag_accum ?l = acc_of (take 8 ?v)"
    using rx_after_flag [OF l calm] s by (simp_all add: Let_def)
  have split: "take n ?v = take 8 ?v @ take (n - 8) (drop 8 ?v)"
    using False take_add [of 8 "n - 8" ?v] by simp
  have "n - 8 < length s" using n False by simp
  from rx_unit_prefix [OF s calm 1(3,4) _ this] room fits_env [OF 1(1)] 1(1,2) show ?thesis
    unfolding split rx_bits_simps(3) by (auto simp: Let_def same_env_def)
qed

text \<open>
  The receiver as a whole: from a reset, a line that carries flags and calm units
  between them makes the calls of \<open>unit_ev\<close>, unit by unit.
\<close>

lemma rx_line:
  assumes endian: "hdlc_bit_endian (cfg l) = WP_MTP1_HDLC_BIT_0_FIRST"
    and init: "state_daedr l = INIT"
    and line: "concat (map (line_bits (hdlc_op_mode (cfg l))) vs) =
      flag_bits @ concat (map (\<lambda>s. s @ flag_bits) ss) @ take n (s0 @ flag_bits)"
    and rest: "n < length s0 + 8"
    and units: "\<forall>s \<in> insert s0 (set ss). calm 0 s \<and> length (unstuff 0 s) div 8 \<le> Suc (unat (max_mru (cfg l))) \<and>
      length (unstuff 0 s) div 8 \<le> 8192"
  shows "let l' = wp_mtp1_rx_handler vs l
    in events l' = events l @ concat (map (unit_ev (reg l)) ss) \<and> same_env l l'"
proof -
  let ?l1 = "rx_bits flag_bits l"
  let ?l2 = "rx_bits (concat (map (\<lambda>s. s @ flag_bits) ss)) ?l1"
  have 1: "after_flag ?l1" "same_env l ?l1" "events ?l1 = events l"
    using rx_bits_init [OF init] by (simp_all add: Let_def)
  have "\<forall>s \<in> set ss. calm 0 s \<and> fits (length (fst (su_pushes ([], []) (unstuff 0 s)))) ?l1"
    using units fits_env [OF 1(2)] by (simp add: length_su_pushes fits_def)
  from rx_frames [OF 1(1) this]
  have 2: "after_flag ?l2" "same_env ?l1 ?l2" "events ?l2 = events l @ concat (map (unit_ev (reg l)) ss)"
    using 1 by (simp_all add: Let_def same_env_def)
  let ?rest = "take n (s0 @ flag_bits)"
  have "fits (length (fst (su_pushes ([], []) (unstuff 0 s0)))) ?l2"
    using units 1(2) 2(2) by (simp add: length_su_pushes fits_def same_env_def)
  then have 3: "same_env ?l2 (rx_bits ?rest ?l2)" "events (rx_bits ?rest ?l2) = events ?l2"
    using rx_frame_prefix [OF 2(1) _ _ rest] units by simp_all
  have "same_env l (rx_bits ?rest ?l2)"
    using 1(2) 2(2) 3(1) by (simp add: same_env_def)
  then show ?thesis
    unfolding rx_handler_bits [OF endian] line
    using 2(3) 3(2) by (simp add: same_env_def)
qed

end
