(* ===== verification/Mtp1_Tx.thy ===== *)
theory Mtp1_Tx
  imports Mtp1_State Bitstream
begin

unbundle bit_operations_syntax

text \<open>
  The transmitter of wanpipe_mtp1.c: bits into the transmit buffer with zero insertion
  and, on a 56 kb/s link, the unused bit 7; signal units between flags; the queues; and
  the handler that keeps the buffer filled and hands \<open>mtu\<close> octets to the driver.
\<close>

section \<open>Bits into the transmit buffer\<close>

definition tbs_or :: "u8 \<Rightarrow> wp_tbs \<Rightarrow> wp_tbs" where
  "tbs_or v t =
     (if cur_index t < TX_BUF_SIZE
      then t\<lparr>tbs_buf := (tbs_buf t)
               (unat (cur_index t) := tbs_buf t (unat (cur_index t)) OR v)\<rparr>
      else t\<lparr>tbs_fault := True\<rparr>)"

text \<open>The end of an octet: the next one is cleared, the index wraps at the end.\<close>

definition tbs_next_octet :: "wp_tbs \<Rightarrow> wp_tbs" where
  "tbs_next_octet t =
     (if cur_bit_pos t \<ge> BITS_IN_OCTET then
        let i = cur_index t + 1;
            j = (if i \<ge> TX_BUF_SIZE then 0 else i)
        in t\<lparr>cur_bit_pos := 0, cur_index := j, tbs_buf := (tbs_buf t)(unat j := 0)\<rparr>
      else t)"

definition tbs_skip_bit_7 :: "u8 \<Rightarrow> wp_tbs \<Rightarrow> wp_tbs" where
  "tbs_skip_bit_7 mode t =
     (if cur_bit_pos t = 7 \<and> mode = WP_MTP1_HDLC_7BIT
      then tbs_next_octet ((tbs_or 0x80 t)\<lparr>cur_bit_pos := cur_bit_pos t + 1\<rparr>)
      else t)"

definition tbs_put_bit :: "u8 \<Rightarrow> u32 \<Rightarrow> wp_tbs \<Rightarrow> wp_tbs" where
  "tbs_put_bit mode b t =
     (let t1 = tbs_skip_bit_7 mode t;
          t2 = tbs_or (ucast (push_bit (unat (cur_bit_pos t1)) b)) t1
      in tbs_next_octet (t2\<lparr>cur_bit_pos := cur_bit_pos t2 + 1\<rparr>))"

text \<open>
  \<open>su_bit_to_tbs\<close> calls itself once, with the inserted zero: that inner call puts the
  zero and clears the count of ones.
\<close>

definition su_bit_to_tbs :: "u8 \<Rightarrow> u32 \<Rightarrow> wp_tbs \<Rightarrow> wp_tbs" where
  "su_bit_to_tbs mode b t =
     (let t1 = tbs_put_bit mode b t
      in if b = 1 then
           let t2 = t1\<lparr>cur_1s_bit_count := cur_1s_bit_count t1 + 1\<rparr>
           in if cur_1s_bit_count t2 = 5
              then (tbs_put_bit mode 0 t2)\<lparr>cur_1s_bit_count := 0\<rparr> else t2
         else t1\<lparr>cur_1s_bit_count := 0\<rparr>)"

definition flag_bit_to_txb :: "u8 \<Rightarrow> wp_tbs \<Rightarrow> wp_tbs" where
  "flag_bit_to_txb mode t = fold (tbs_put_bit mode) [0, 1, 1, 1, 1, 1, 1, 0] t"

section \<open>Signal units\<close>

definition su_octet_to_tbs :: "wp_mtp1_cfg \<Rightarrow> u8 \<Rightarrow> wp_tbs \<Rightarrow> wp_tbs" where
  "su_octet_to_tbs c v t =
     (let put = su_bit_to_tbs (hdlc_op_mode c);
          tst = (\<lambda>m :: u8. if v AND m \<noteq> 0 then 1 else 0 :: u32)
      in if hdlc_bit_endian c = WP_MTP1_HDLC_BIT_0_FIRST then
           put (tst 0x80) (put (tst 0x40) (put (tst 0x20) (put (tst 0x10)
          (put (tst 0x08) (put (tst 0x04) (put (tst 0x02) (put (ucast (v AND 0x01)) t)))))))
         else
           put (ucast (v AND 0x01)) (put (tst 0x02) (put (tst 0x04) (put (tst 0x08)
          (put (tst 0x10) (put (tst 0x20) (put (tst 0x40) (put (tst 0x80) t))))))))"

definition daed_tx :: "u8 list \<Rightarrow> u16 option \<Rightarrow> wp_mtp1_link \<Rightarrow> wp_mtp1_link" where
  "daed_tx su crc l =
     (let t1 = flag_bit_to_txb (hdlc_op_mode (cfg l)) ((tbs l)\<lparr>cur_1s_bit_count := 0\<rparr>);
          t2 = fold (su_octet_to_tbs (cfg l)) su t1
      in l\<lparr>tbs := (case crc of
           None \<Rightarrow> t2
         | Some c \<Rightarrow> fold (su_octet_to_tbs (cfg l))
                       [ucast (c AND 0xFF), ucast (drop_bit 8 (c AND 0xFF00))] t2)\<rparr>)"

section \<open>The queues\<close>

definition wp_mtp1_tx_check :: "wp_mtp1_link \<Rightarrow> bool" where
  "wp_mtp1_tx_check l \<longleftrightarrow> length (tx_q (tbs l)) > WP_MTP1_MAX_TX_Q"

text \<open>The check sum of a queued buffer: the complement, kept in 16 bits.\<close>

definition with_csum :: "skb \<Rightarrow> skb" where
  "with_csum s = s\<lparr>skb_csum :=
     ucast (NOT (crc_tss_rev 0xffff (length (skb_data s)) (\<lambda>i. skb_data s ! i)))\<rparr>"

text \<open>\<open>True\<close> is the return value 1: the queue is full and nothing is taken.\<close>

definition wp_mtp1_tx_data :: "skb \<Rightarrow> skb option \<Rightarrow> wp_mtp1_link \<Rightarrow> bool \<times> wp_mtp1_link" where
  "wp_mtp1_tx_data s rs l =
     (if length (tx_q (tbs l)) > WP_MTP1_MAX_TX_Q then (True, l)
      else
        let l1 = l\<lparr>tbs := (tbs l)\<lparr>tx_q := tx_q (tbs l) @ [with_csum s]\<rparr>\<rparr>;
            l2 = (if has_trace (reg l1) then emit (Trace (skb_data s) 0) l1 else l1)
        in (False, case rs of
              None \<Rightarrow> l2
            | Some r \<Rightarrow> l2\<lparr>tbs := (tbs l2)\<lparr>tx_r_q := tx_r_q (tbs l2) @ [with_csum r]\<rparr>\<rparr>))"

definition wp_mtp1_poll_check :: "wp_mtp1_link \<Rightarrow> bool" where
  "wp_mtp1_poll_check l \<longleftrightarrow> length (tx_q_dealloc (tbs l)) > 20"

text \<open>The loop of \<open>wp_mtp1_poll\<close>: the buffers freed, in order, and those that stay.\<close>

fun poll_loop :: "nat \<Rightarrow> skb list \<Rightarrow> skb list \<times> skb list" where
  "poll_loop loops [] = ([], [])"
| "poll_loop loops (s # q) =
     (if Suc loops > 200 then ([], s # q)
      else let (freed, rest) = poll_loop (Suc loops) q in (s # freed, rest))"

definition wp_mtp1_poll :: "wp_mtp1_link \<Rightarrow> skb list \<times> wp_mtp1_link" where
  "wp_mtp1_poll l =
     (let (freed, rest) = poll_loop 0 (tx_q_dealloc (tbs l))
      in (freed, l\<lparr>tbs := (tbs l)\<lparr>tx_q_dealloc := rest\<rparr>\<rparr>))"

section \<open>The bottom half\<close>

definition dealloc :: "skb \<Rightarrow> wp_mtp1_link \<Rightarrow> wp_mtp1_link" where
  "dealloc s l = l\<lparr>tbs := (tbs l)\<lparr>tx_q_dealloc := tx_q_dealloc (tbs l) @ [s]\<rparr>\<rparr>"

text \<open>The inner loop on the repeat queue: all but the last buffer are released.\<close>

fun tx_r_pick :: "skb list \<Rightarrow> skb list \<times> skb option" where
  "tx_r_pick [] = ([], None)"
| "tx_r_pick [s] = ([], Some s)"
| "tx_r_pick (s # r # q) = (s # fst (tx_r_pick (r # q)), snd (tx_r_pick (r # q)))"

text \<open>One round of the loop that fills the transmit buffer.\<close>

definition tx_round :: "wp_mtp1_link \<Rightarrow> wp_mtp1_link" where
  "tx_round l =
     (case tx_q (tbs l) of
        s # q \<Rightarrow>
          let l1 = dealloc s (daed_tx (skb_data s) (Some (ucast (skb_csum s)))
                     (l\<lparr>tbs := (tbs l)\<lparr>tx_q := q\<rparr>\<rparr>))
          in if length (tx_q (tbs l1)) < WP_MTP1_MAX_TX_Q then emit Wakeup l1 else l1
      | [] \<Rightarrow>
          if length (tx_r_q (tbs l)) \<noteq> 0 then
            (case tx_r_pick (tx_r_q (tbs l)) of
               (drop_q, None) \<Rightarrow>
                 daed_tx [] None (fold dealloc drop_q (l\<lparr>tbs := (tbs l)\<lparr>tx_r_q := []\<rparr>\<rparr>))
             | (drop_q, Some s) \<Rightarrow>
                 let l1 = daed_tx (skb_data s) (Some (ucast (skb_csum s)))
                            (fold dealloc drop_q (l\<lparr>tbs := (tbs l)\<lparr>tx_r_q := []\<rparr>\<rparr>))
                 in if length (tx_r_q (tbs l1)) \<noteq> 0 then dealloc s l1
                    else l1\<lparr>tbs := (tbs l1)\<lparr>tx_r_q := tx_r_q (tbs l1) @ [s]\<rparr>\<rparr>)
          else daed_tx [] None l)"

definition tx_pending :: "wp_mtp1_link \<Rightarrow> int" where
  "tx_pending l = sint (cur_index (tbs l) - card_index (tbs l))"

partial_function (option) tx_fill :: "int \<Rightarrow> wp_mtp1_link \<Rightarrow> wp_mtp1_link option" where
  "tx_fill mtu l = (if tx_pending l < mtu then tx_fill mtu (tx_round l) else Some l)"

text \<open>The octets for the driver.\<close>

definition tx_take :: "wp_mtp1_link \<Rightarrow> u8 \<times> wp_mtp1_link" where
  "tx_take l =
     (let t = tbs l
      in if card_index t < TX_BUF_SIZE
         then (tbs_buf t (unat (card_index t)), l\<lparr>tbs := t\<lparr>card_index := card_index t + 1\<rparr>\<rparr>)
         else (0, l\<lparr>tbs := t\<lparr>card_index := card_index t + 1, tbs_fault := True\<rparr>\<rparr>))"

fun tx_drain :: "nat \<Rightarrow> wp_mtp1_link \<Rightarrow> u8 list \<times> wp_mtp1_link" where
  "tx_drain 0 l = ([], l)"
| "tx_drain (Suc n) l =
     (let (v, l1) = tx_take l; (vs, l2) = tx_drain n l1 in (v # vs, l2))"

text \<open>What is left moves to the start of the buffer, octet by octet, upwards.\<close>

fun tx_copy :: "nat \<Rightarrow> nat \<Rightarrow> nat \<Rightarrow> u8 arr \<Rightarrow> u8 arr" where
  "tx_copy i k 0 a = a"
| "tx_copy i k (Suc n) a = tx_copy (Suc i) (Suc k) n (a(i := a k))"

definition tx_compact :: "int \<Rightarrow> wp_mtp1_link \<Rightarrow> wp_mtp1_link" where
  "tx_compact mtu l =
     (let t = tbs l; r = tx_pending l
      in if r < mtu then
           l\<lparr>tbs := t\<lparr>tbs_buf := tx_copy 0 (unat (card_index t)) (nat (r + 1)) (tbs_buf t),
                     cur_index := word_of_int r, card_index := 0,
                     tbs_fault := (tbs_fault t \<or> 0 \<le> r \<and> int (unat (card_index t)) + r \<ge> uint TX_BUF_SIZE)\<rparr>\<rparr>
         else l)"

definition wp_mtp1_tx_bh_handler ::
    "int \<Rightarrow> wp_mtp1_link \<Rightarrow> (u8 list \<times> wp_mtp1_link) option" where
  "wp_mtp1_tx_bh_handler mtu l =
     (case tx_fill mtu l of
        None \<Rightarrow> None
      | Some l1 \<Rightarrow>
          let (vs, l2) = tx_drain (nat mtu) l1 in Some (vs, tx_compact mtu l2))"

end
