(* ===== verification/Mtp1_Tx_Line.thy ===== *)
theory Mtp1_Tx_Line
  imports Mtp1_Tx "HOL-Library.Multiset"
begin

unbundle bit_operations_syntax

text \<open>
  What the transmitter of wanpipe_mtp1.c puts on the line: the transmit buffer read as
  the list of bits not yet handed to the driver, one bit, one signal unit, one round of
  the loop that fills the buffer, and the handler. The buffer is an interpretation of
  \<open>stuffing_sink\<close>.
\<close>

section \<open>The transmit buffer as a list of bits\<close>

definition width :: "u8 \<Rightarrow> nat" where
  "width m = (if m = WP_MTP1_HDLC_8BIT then 8 else 7)"

definition known_mode :: "u8 \<Rightarrow> bool" where
  "known_mode m \<longleftrightarrow> m = WP_MTP1_HDLC_8BIT \<or> m = WP_MTP1_HDLC_7BIT"

text \<open>The invariant of the buffer: the indices, and the bits not yet written are zero.\<close>

definition tbs_ok :: "u8 \<Rightarrow> wp_tbs \<Rightarrow> bool" where
  "tbs_ok m t \<longleftrightarrow> known_mode m \<and> \<not> tbs_fault t \<and> card_index t \<le> cur_index t \<and>
     cur_index t < TX_BUF_SIZE \<and> unat (cur_bit_pos t) < 8 \<and>
     (\<forall>n < 8. bit (tbs_buf t (unat (cur_index t))) n \<longrightarrow> n < unat (cur_bit_pos t))"

text \<open>The bits of the octets from \<open>c\<close> to before \<open>d\<close>.\<close>

definition seg :: "u8 \<Rightarrow> u8 arr \<Rightarrow> nat \<Rightarrow> nat \<Rightarrow> bool list" where
  "seg m a c d = concat (map (\<lambda>i. line_bits m (a i)) [c ..< d])"

lemma seg_beyond [simp]: "d \<le> i \<Longrightarrow> seg m (a(i := x)) c d = seg m a c d"
  unfolding seg_def by (rule arg_cong [where f = concat]) simp

lemma seg_snoc: "c \<le> d \<Longrightarrow> seg m a c (Suc d) = seg m a c d @ line_bits m (a d)"
  by (simp add: seg_def)

lemma seg_empty [simp]: "seg m a c c = []"
  by (simp add: seg_def)

definition tbs_stream :: "u8 \<Rightarrow> wp_tbs \<Rightarrow> bool list" where
  "tbs_stream m t =
     seg m (tbs_buf t) (unat (card_index t)) (unat (cur_index t)) @
     take (unat (cur_bit_pos t)) (bits8 (tbs_buf t (unat (cur_index t))))"

definition tbs_at :: "u8 \<Rightarrow> wp_tbs \<Rightarrow> nat" where
  "tbs_at m t = width m * unat (cur_index t) + unat (cur_bit_pos t)"

definition tbs_room :: "u8 \<Rightarrow> wp_tbs \<Rightarrow> nat \<Rightarrow> bool" where
  "tbs_room m t n \<longleftrightarrow> tbs_ok m t \<and> tbs_at m t + n < width m * 10240"

definition bitv :: "bool \<Rightarrow> u32" where
  "bitv b = (if b then 1 else 0)"

lemma bitv_simps [simp]: "bitv True = 1" "bitv False = 0"
  by (simp_all add: bitv_def)

lemma width_pos: "width m = 7 \<or> width m = 8"
  by (simp add: width_def)

lemma take7_top: "take 7 (bits8 (v OR 0x80)) = take 7 (bits8 v)"
proof (rule nth_equalityI)
  fix i assume "i < length (take 7 (bits8 (v OR 0x80)))"
  then have "i < 7" "i < 8" by simp_all
  moreover from this have "bit (v OR 0x80) i = bit v i"
    by (simp only: bit_or_iff bit_0x80) simp
  ultimately show "take 7 (bits8 (v OR 0x80)) ! i = take 7 (bits8 v) ! i" by simp
qed simp

text \<open>The octet that is complete.\<close>

lemma tbs_next_full:
  assumes "cur_bit_pos t = 8" and "Suc (unat (cur_index t)) < 10240"
  shows "tbs_next_octet t = t\<lparr>cur_bit_pos := 0, cur_index := cur_index t + 1,
      tbs_buf := (tbs_buf t)(Suc (unat (cur_index t)) := 0)\<rparr>"
    and "unat (cur_index t + 1) = Suc (unat (cur_index t))"
proof -
  show 1: "unat (cur_index t + 1) = Suc (unat (cur_index t))"
    using assms(2) by (simp add: unat_inc32)
  then show "tbs_next_octet t = t\<lparr>cur_bit_pos := 0, cur_index := cur_index t + 1,
      tbs_buf := (tbs_buf t)(Suc (unat (cur_index t)) := 0)\<rparr>"
    using assms by (simp add: tbs_next_octet_def BITS_IN_OCTET_def TX_BUF_SIZE_def word_le_nat_alt)
qed

lemma tbs_next_open: "unat (cur_bit_pos t) < 8 \<Longrightarrow> tbs_next_octet t = t"
  by (simp add: tbs_next_octet_def BITS_IN_OCTET_def word_le_nat_alt)

lemma stream_full:
  assumes "card_index t \<le> cur_index t" and "Suc (unat (cur_index t)) < 10240"
    and "unat i = Suc (unat (cur_index t))"
  shows "tbs_stream m (t\<lparr>cur_bit_pos := 0, cur_index := i,
      tbs_buf := (tbs_buf t)(Suc (unat (cur_index t)) := 0)\<rparr>) =
    seg m (tbs_buf t) (unat (card_index t)) (unat (cur_index t)) @
      line_bits m (tbs_buf t (unat (cur_index t)))"
  using assms by (simp add: tbs_stream_def word_le_nat_alt seg_snoc)

lemma tbs_skip:
  assumes ok: "tbs_ok m t" and room: "Suc (tbs_at m t) < width m * 10240"
  shows "tbs_ok m (tbs_skip_bit_7 m t) \<and> tbs_stream m (tbs_skip_bit_7 m t) = tbs_stream m t \<and>
    tbs_at m (tbs_skip_bit_7 m t) = tbs_at m t \<and> unat (cur_bit_pos (tbs_skip_bit_7 m t)) < width m \<and>
    card_index (tbs_skip_bit_7 m t) = card_index t"
proof (cases "cur_bit_pos t = 7 \<and> m = WP_MTP1_HDLC_7BIT")
  case False
  then have "tbs_skip_bit_7 m t = t" by (auto simp: tbs_skip_bit_7_def)
  moreover have "unat (cur_bit_pos t) < width m"
  proof -
    have "unat (cur_bit_pos t) < 8" using ok by (simp add: tbs_ok_def)
    moreover have "unat (cur_bit_pos t) \<noteq> 7" if "m \<noteq> WP_MTP1_HDLC_8BIT"
      using False ok that by (auto simp: tbs_ok_def known_mode_def word_unat_eq_iff)
    ultimately show ?thesis by (auto simp: width_def)
  qed
  ultimately show ?thesis using ok by simp
next
  case True
  let ?c = "unat (cur_index t)"
  have p7: "cur_bit_pos t = 7" using True by simp
  have w: "width m = 7" using True by (simp add: width_def mtp1_consts)
  have c: "Suc ?c < 10240" using room by (simp add: tbs_at_def w p7)
  let ?u = "t\<lparr>tbs_buf := (tbs_buf t)(?c := tbs_buf t ?c OR 0x80), cur_bit_pos := 8\<rparr>"
  have lt: "cur_index t < TX_BUF_SIZE" using ok by (simp add: tbs_ok_def)
  have skip: "tbs_skip_bit_7 m t = tbs_next_octet ?u"
    using True lt by (simp add: tbs_skip_bit_7_def tbs_or_def)
  note next1 = tbs_next_full [of ?u]
  have card: "card_index t \<le> cur_index t" using ok by (simp add: tbs_ok_def)
  have u2: "unat (cur_index t + 1) = Suc ?c" using next1(2) c by simp
  have "tbs_stream m (tbs_next_octet ?u) = tbs_stream m t"
    using stream_full [of ?u "cur_index t + 1" m] c card u2 True
    by (simp add: next1(1) tbs_stream_def line_bits_def mtp1_consts take7_top)
  moreover have "tbs_ok m (tbs_next_octet ?u)"
  proof -
    have "card_index t \<le> cur_index t + 1" using card u2 by (simp add: word_le_nat_alt)
    moreover have "cur_index t + 1 < TX_BUF_SIZE" using u2 c by (simp add: word_less_nat_alt TX_BUF_SIZE_def)
    ultimately show ?thesis
      using ok c u2 by (simp add: next1(1) tbs_ok_def)
  qed
  ultimately show ?thesis
    using c u2 p7 by (simp add: skip next1(1) tbs_at_def w)
qed

lemma bit_shifted: "p < 8 \<Longrightarrow> bit (ucast (push_bit p (bitv b)) :: u8) n \<longleftrightarrow> b \<and> n = p"
  by (cases b) (auto simp: bit_simps)

lemma tbs_put:
  assumes "tbs_room m t (Suc n)"
  shows "tbs_room m (tbs_put_bit m (bitv b) t) n \<and>
    tbs_stream m (tbs_put_bit m (bitv b) t) = tbs_stream m t @ [b] \<and>
    tbs_at m (tbs_put_bit m (bitv b) t) = Suc (tbs_at m t) \<and>
    card_index (tbs_put_bit m (bitv b) t) = card_index t"
proof -
  define t1 where "t1 = tbs_skip_bit_7 m t"
  have ok0: "tbs_ok m t" and r: "tbs_at m t + Suc n < width m * 10240"
    using assms by (simp_all add: tbs_room_def)
  have ok: "tbs_ok m t1" and st: "tbs_stream m t1 = tbs_stream m t"
    and at: "tbs_at m t1 = tbs_at m t" and pw: "unat (cur_bit_pos t1) < width m"
    and ci: "card_index t1 = card_index t"
    using tbs_skip [OF ok0] r by (simp_all add: t1_def)
  let ?c = "unat (cur_index t1)" and ?p = "unat (cur_bit_pos t1)"
  let ?v = "tbs_buf t1 ?c OR ucast (push_bit ?p (bitv b))"
  have lt: "cur_index t1 < TX_BUF_SIZE" and p8: "?p < 8" and card: "card_index t1 \<le> cur_index t1"
    and high: "\<And>n. n < 8 \<Longrightarrow> bit (tbs_buf t1 ?c) n \<Longrightarrow> n < ?p"
    using ok by (auto simp: tbs_ok_def)
  let ?u = "t1\<lparr>tbs_buf := (tbs_buf t1)(?c := ?v), cur_bit_pos := cur_bit_pos t1 + 1\<rparr>"
  have put: "tbs_put_bit m (bitv b) t = tbs_next_octet ?u"
    using lt by (simp add: tbs_put_bit_def t1_def [symmetric] tbs_or_def)
  have p1: "unat (cur_bit_pos t1 + 1) = Suc ?p" using p8 by (simp add: unat_inc32)
  have bits: "take (Suc ?p) (bits8 ?v) = take ?p (bits8 (tbs_buf t1 ?c)) @ [b]"
  proof (rule nth_equalityI)
    fix i assume "i < length (take (Suc ?p) (bits8 ?v))"
    then have i: "i \<le> ?p" "i < 8" using p8 by auto
    then show "take (Suc ?p) (bits8 ?v) ! i = (take ?p (bits8 (tbs_buf t1 ?c)) @ [b]) ! i"
      using high [of i] p8 by (auto simp: nth_append bit_or_iff bit_shifted)
  qed (use p8 in simp)
  have zero: "\<And>n. n < 8 \<Longrightarrow> bit ?v n \<Longrightarrow> n < Suc ?p"
    using high p8 by (auto simp: bit_or_iff bit_shifted dest: less_SucI)
  show ?thesis
  proof (cases "Suc ?p = 8")
    case False
    then have open1: "tbs_next_octet ?u = ?u"
      using p8 p1 by (intro tbs_next_open) simp
    have "tbs_ok m ?u" using ok False p8 p1 zero by (auto simp: tbs_ok_def)
    moreover have "tbs_stream m ?u = tbs_stream m t1 @ [b]"
      using p1 bits by (simp add: tbs_stream_def)
    moreover have "tbs_at m ?u = Suc (tbs_at m t1)"
      using p1 by (simp add: tbs_at_def)
    ultimately show ?thesis
      using r st at ci by (simp add: put open1 tbs_room_def)
  next
    case True
    then have w: "width m = 8" and m: "m = WP_MTP1_HDLC_8BIT"
      using pw by (auto simp: width_def split: if_splits)
    have c: "Suc ?c < 10240" using r at True by (simp add: tbs_at_def w)
    have p: "cur_bit_pos t1 + 1 = 8" using p1 True by (simp add: word_unat_eq_iff)
    let ?z = "?u\<lparr>cur_bit_pos := 0, cur_index := cur_index t1 + 1, tbs_buf := (tbs_buf ?u)(Suc ?c := 0)\<rparr>"
    have "tbs_next_octet ?u = ?z"
      using tbs_next_full(1) [of ?u] p c by simp
    then have put1: "tbs_put_bit m (bitv b) t = ?z" by (simp only: put)
    have u2: "unat (cur_index t1 + 1) = Suc ?c" using c by (simp add: unat_inc32)
    have "take (Suc ?p) (bits8 ?v) = bits8 ?v" using True by simp
    then have bits8: "bits8 ?v = take ?p (bits8 (tbs_buf t1 ?c)) @ [b]" using bits by simp
    have "tbs_stream m ?z = tbs_stream m t1 @ [b]"
      using stream_full [of ?u "cur_index t1 + 1" m] c card u2 bits8
      by (simp add: tbs_stream_def line_bits_def m)
    moreover have "tbs_ok m ?z"
    proof -
      have "card_index t1 \<le> cur_index t1 + 1" using card u2 by (simp add: word_le_nat_alt)
      moreover have "cur_index t1 + 1 < TX_BUF_SIZE" using u2 c by (simp add: word_less_nat_alt TX_BUF_SIZE_def)
      ultimately show ?thesis
        using ok c u2 by (simp add: tbs_ok_def)
    qed
    moreover have "tbs_at m ?z = Suc (tbs_at m t1)"
      using c u2 True by (simp add: tbs_at_def w)
    ultimately show ?thesis
      using r st at ci by (simp add: put1 tbs_room_def)
  qed
qed

section \<open>The transmit buffer is a stuffing sink\<close>

lemma tbs_or_frame [simp]:
  "cur_1s_bit_count (tbs_or v t) = cur_1s_bit_count t" "card_index (tbs_or v t) = card_index t"
  "tx_q (tbs_or v t) = tx_q t" "tx_r_q (tbs_or v t) = tx_r_q t"
  "tx_q_dealloc (tbs_or v t) = tx_q_dealloc t"
  by (simp_all add: tbs_or_def)

lemma tbs_next_frame [simp]:
  "cur_1s_bit_count (tbs_next_octet t) = cur_1s_bit_count t"
  "card_index (tbs_next_octet t) = card_index t"
  "tx_q (tbs_next_octet t) = tx_q t" "tx_r_q (tbs_next_octet t) = tx_r_q t"
  "tx_q_dealloc (tbs_next_octet t) = tx_q_dealloc t"
  by (simp_all add: tbs_next_octet_def Let_def)

lemma tbs_put_frame [simp]:
  "cur_1s_bit_count (tbs_put_bit m b t) = cur_1s_bit_count t"
  "card_index (tbs_put_bit m b t) = card_index t"
  "tx_q (tbs_put_bit m b t) = tx_q t" "tx_r_q (tbs_put_bit m b t) = tx_r_q t"
  "tx_q_dealloc (tbs_put_bit m b t) = tx_q_dealloc t"
  by (simp_all add: tbs_put_bit_def tbs_skip_bit_7_def Let_def)

lemma su_bit_frame [simp]:
  "card_index (su_bit_to_tbs m b t) = card_index t"
  "tx_q (su_bit_to_tbs m b t) = tx_q t" "tx_r_q (su_bit_to_tbs m b t) = tx_r_q t"
  "tx_q_dealloc (su_bit_to_tbs m b t) = tx_q_dealloc t"
  by (simp_all add: su_bit_to_tbs_def Let_def)

lemma ones_free [simp]:
  "tbs_stream m (t\<lparr>cur_1s_bit_count := n\<rparr>) = tbs_stream m t"
  "tbs_room m (t\<lparr>cur_1s_bit_count := n\<rparr>) = tbs_room m t"
  by (simp_all add: tbs_stream_def tbs_room_def tbs_ok_def tbs_at_def fun_eq_iff)

lemma tbs_put_zero:
  assumes "tbs_room m t (Suc n)"
  shows "tbs_room m (tbs_put_bit m 0 t) n" "tbs_stream m (tbs_put_bit m 0 t) = tbs_stream m t @ [False]"
  using tbs_put [OF assms, of False] by simp_all

lemma tbs_put_one:
  assumes "tbs_room m t (Suc n)"
  shows "tbs_room m (tbs_put_bit m 1 t) n" "tbs_stream m (tbs_put_bit m 1 t) = tbs_stream m t @ [True]"
  using tbs_put [OF assms, of True] by simp_all

lemma tbs_put_two:
  assumes "tbs_room m t (Suc (Suc n))"
  shows "tbs_stream m (tbs_put_bit m 0 ((tbs_put_bit m 1 t)\<lparr>cur_1s_bit_count := c\<rparr>)) =
    tbs_stream m t @ [True, False]"
proof -
  have "tbs_room m ((tbs_put_bit m 1 t)\<lparr>cur_1s_bit_count := c\<rparr>) (Suc n)"
    using tbs_put_one(1) [OF assms] by simp
  from tbs_put_zero(2) [OF this] tbs_put_one(2) [OF assms] show ?thesis by simp
qed

lemma fifth_one: "(c :: u32) = 4 \<longleftrightarrow> unat c = 4"
  by (simp add: word_unat_eq_iff)

interpretation tx_sink: stuffing_sink
  "\<lambda>b. tbs_put_bit m (bitv b)" "tbs_stream m" "tbs_room m"
  "\<lambda>b. su_bit_to_tbs m (bitv b)" "\<lambda>t. unat (cur_1s_bit_count t)" for m
proof
  fix t :: wp_tbs and b :: bool and n :: nat
  let ?k = "unat (cur_1s_bit_count t)"
  show "tbs_room m t (Suc n) \<Longrightarrow> tbs_stream m (tbs_put_bit m (bitv b) t) = tbs_stream m t @ [b]"
    and "tbs_room m t (Suc n) \<Longrightarrow> tbs_room m (tbs_put_bit m (bitv b) t) n"
    using tbs_put [of m t n b] by simp_all
  show "tbs_room m t n \<Longrightarrow> j \<le> n \<Longrightarrow> tbs_room m t j" for j
    by (simp add: tbs_room_def)
  show "?k < 5 \<Longrightarrow> unat (cur_1s_bit_count (su_bit_to_tbs m (bitv b) t)) = snd (stuff1 ?k b)"
    by (cases b) (auto simp: su_bit_to_tbs_def Let_def fifth_one unat_inc32)
  show "tbs_room m t (length (fst (stuff1 ?k b))) \<Longrightarrow> ?k < 5 \<Longrightarrow>
      tbs_stream m (su_bit_to_tbs m (bitv b) t) = tbs_stream m t @ fst (stuff1 ?k b)"
    by (cases b) (auto simp: su_bit_to_tbs_def Let_def fifth_one tbs_put_zero tbs_put_one tbs_put_two)
  show "tbs_room m t (length (fst (stuff1 ?k b)) + n) \<Longrightarrow> ?k < 5 \<Longrightarrow>
      tbs_room m (su_bit_to_tbs m (bitv b) t) n"
    by (cases b) (auto simp: su_bit_to_tbs_def Let_def fifth_one tbs_put_zero tbs_put_one split: if_splits)
qed

section \<open>One signal unit\<close>

definition unit_bits :: "u8 \<Rightarrow> u8 list \<Rightarrow> bool list" where
  "unit_bits e os = concat (map (\<lambda>v. if e = WP_MTP1_HDLC_BIT_0_FIRST then bits8 v else rev (bits8 v)) os)"

lemma unit_bits_simps [simp]:
  "unit_bits e [] = []"
  "unit_bits e (v # os) = (if e = WP_MTP1_HDLC_BIT_0_FIRST then bits8 v else rev (bits8 v)) @ unit_bits e os"
  "unit_bits e (os @ ps) = unit_bits e os @ unit_bits e ps"
  by (simp_all add: unit_bits_def)

lemma unit_bits_0: "unit_bits WP_MTP1_HDLC_BIT_0_FIRST os = bits8s os"
  by (simp add: unit_bits_def bits8s_def)

lemma length_unit_bits [simp]: "length (unit_bits e os) = 8 * length os"
  by (induction os) auto

lemma bitv_test: "(if (v :: u8) AND 2 ^ n \<noteq> 0 then 1 else 0) = bitv (bit v n)"
  by (simp add: bitv_def and_exp_eq_0_iff_not_bit)

lemma bitv_low: "ucast ((v :: u8) AND 0x01) = bitv (bit v 0)"
  by (cases "bit v 0") (simp_all add: and_one_eq bit_0 bitv_def odd_iff_mod_2_eq_one)

lemma su_octet_fold:
  "su_octet_to_tbs c v = fold (\<lambda>b. su_bit_to_tbs (hdlc_op_mode c) (bitv b)) (unit_bits (hdlc_bit_endian c) [v])"
proof -
  have tests: "(if v AND 0x02 \<noteq> 0 then 1 else 0) = bitv (bit v 1)"
    "(if v AND 0x04 \<noteq> 0 then 1 else 0) = bitv (bit v 2)"
    "(if v AND 0x08 \<noteq> 0 then 1 else 0) = bitv (bit v 3)"
    "(if v AND 0x10 \<noteq> 0 then 1 else 0) = bitv (bit v 4)"
    "(if v AND 0x20 \<noteq> 0 then 1 else 0) = bitv (bit v 5)"
    "(if v AND 0x40 \<noteq> 0 then 1 else 0) = bitv (bit v 6)"
    "(if v AND 0x80 \<noteq> 0 then 1 else 0) = bitv (bit v 7)"
    using bitv_test [of v 1] bitv_test [of v 2] bitv_test [of v 3]
      bitv_test [of v 4] bitv_test [of v 5] bitv_test [of v 6] bitv_test [of v 7] by simp_all
  show ?thesis
    unfolding su_octet_to_tbs_def Let_def tests bitv_low
    by (rule ext) (simp add: bits8_eq)
qed

lemma su_octets_fold:
  "fold (su_octet_to_tbs c) os = fold (\<lambda>b. su_bit_to_tbs (hdlc_op_mode c) (bitv b)) (unit_bits (hdlc_bit_endian c) os)"
proof (induction os)
  case (Cons v os)
  have "unit_bits e (v # os) = unit_bits e [v] @ unit_bits e os" for e
    by simp
  with Cons show ?case
    by (simp only: fold_simps fold_append su_octet_fold fun_eq_iff o_apply) simp
qed (simp add: fun_eq_iff)

lemma flag_fold: "flag_bit_to_txb m t = fold (\<lambda>b. tbs_put_bit m (bitv b)) flag_bits t"
  by (simp add: flag_bit_to_txb_def flag_bits_def)

lemma su_octets_frame [simp]:
  "card_index (fold (su_octet_to_tbs c) os t) = card_index t"
  "tx_q (fold (su_octet_to_tbs c) os t) = tx_q t"
  "tx_r_q (fold (su_octet_to_tbs c) os t) = tx_r_q t"
  "tx_q_dealloc (fold (su_octet_to_tbs c) os t) = tx_q_dealloc t"
proof -
  have "card_index (fold (\<lambda>b. su_bit_to_tbs m (bitv b)) bs t) = card_index t \<and>
      tx_q (fold (\<lambda>b. su_bit_to_tbs m (bitv b)) bs t) = tx_q t \<and>
      tx_r_q (fold (\<lambda>b. su_bit_to_tbs m (bitv b)) bs t) = tx_r_q t \<and>
      tx_q_dealloc (fold (\<lambda>b. su_bit_to_tbs m (bitv b)) bs t) = tx_q_dealloc t" for m bs
    by (induction bs arbitrary: t) simp_all
  then show "card_index (fold (su_octet_to_tbs c) os t) = card_index t"
    "tx_q (fold (su_octet_to_tbs c) os t) = tx_q t"
    "tx_r_q (fold (su_octet_to_tbs c) os t) = tx_r_q t"
    "tx_q_dealloc (fold (su_octet_to_tbs c) os t) = tx_q_dealloc t"
    by (simp_all add: su_octets_fold)
qed

lemma flag_frame [simp]:
  "card_index (flag_bit_to_txb m t) = card_index t" "tx_q (flag_bit_to_txb m t) = tx_q t"
  "tx_r_q (flag_bit_to_txb m t) = tx_r_q t" "tx_q_dealloc (flag_bit_to_txb m t) = tx_q_dealloc t"
  "cur_1s_bit_count (flag_bit_to_txb m t) = cur_1s_bit_count t"
  by (simp_all add: flag_bit_to_txb_def)

text \<open>The octets of a unit on the line, with its check sum, and their bits.\<close>

definition crc_octets :: "u16 option \<Rightarrow> u8 list" where
  "crc_octets crc = (case crc of None \<Rightarrow> [] | Some c \<Rightarrow> [ucast (c AND 0xFF), ucast (drop_bit 8 (c AND 0xFF00))])"

definition su_line :: "wp_mtp1_cfg \<Rightarrow> u8 list \<Rightarrow> u16 option \<Rightarrow> bool list" where
  "su_line c su crc = flag_bits @ stuff 0 (unit_bits (hdlc_bit_endian c) (su @ crc_octets crc))"

abbreviation link_stream :: "wp_mtp1_link \<Rightarrow> bool list" where
  "link_stream l \<equiv> tbs_stream (hdlc_op_mode (cfg l)) (tbs l)"

abbreviation link_room :: "wp_mtp1_link \<Rightarrow> nat \<Rightarrow> bool" where
  "link_room l \<equiv> tbs_room (hdlc_op_mode (cfg l)) (tbs l)"

lemma tbs_daed_tx:
  "tbs (daed_tx su crc l) = fold (su_octet_to_tbs (cfg l)) (su @ crc_octets crc)
     (flag_bit_to_txb (hdlc_op_mode (cfg l)) ((tbs l)\<lparr>cur_1s_bit_count := 0\<rparr>))"
  by (cases crc) (simp_all add: daed_tx_def Let_def crc_octets_def)

lemma daed_tx_frame [simp]:
  "cfg (daed_tx su crc l) = cfg l" "reg (daed_tx su crc l) = reg l"
  "events (daed_tx su crc l) = events l"
  by (simp_all add: daed_tx_def Let_def)

lemma daed_tx_queues [simp]:
  "card_index (tbs (daed_tx su crc l)) = card_index (tbs l)"
  "tx_q (tbs (daed_tx su crc l)) = tx_q (tbs l)"
  "tx_r_q (tbs (daed_tx su crc l)) = tx_r_q (tbs l)"
  "tx_q_dealloc (tbs (daed_tx su crc l)) = tx_q_dealloc (tbs l)"
  by (simp_all add: tbs_daed_tx del: fold_append)

lemma daed_tx_line:
  assumes "link_room l (length (su_line (cfg l) su crc) + n)"
  shows "link_stream (daed_tx su crc l) = link_stream l @ su_line (cfg l) su crc"
    and "link_room (daed_tx su crc l) n"
proof -
  let ?m = "hdlc_op_mode (cfg l)" and ?e = "hdlc_bit_endian (cfg l)"
  let ?bs = "unit_bits ?e (su @ crc_octets crc)"
  let ?t0 = "(tbs l)\<lparr>cur_1s_bit_count := 0\<rparr>"
  let ?t1 = "flag_bit_to_txb ?m ?t0"
  let ?sput = "\<lambda>b. su_bit_to_tbs ?m (bitv b)"
  have t: "tbs (daed_tx su crc l) = fold ?sput ?bs ?t1"
    by (simp only: tbs_daed_tx su_octets_fold)
  have room: "tbs_room ?m ?t0 (length flag_bits + (length (stuff 0 ?bs) + n))"
    using assms by (simp add: su_line_def add.assoc)
  have r1: "tbs_room ?m ?t1 (length (stuff 0 ?bs) + n)"
    unfolding flag_fold by (rule tx_sink.room_puts [OF room])
  have s1: "tbs_stream ?m ?t1 = link_stream l @ flag_bits"
    unfolding flag_fold using tx_sink.stream_puts [OF tx_sink.room_mono [OF room]] by simp
  have ones: "unat (cur_1s_bit_count ?t1) = 0" by simp
  show "link_room (daed_tx su crc l) n"
    using tx_sink.room_sputs [of ?m ?t1 ?bs n] r1 ones by (simp add: t)
  show "link_stream (daed_tx su crc l) = link_stream l @ su_line (cfg l) su crc"
    using tx_sink.stream_sputs [of ?m ?t1 ?bs] tx_sink.room_mono [OF r1] ones s1
    by (simp add: t su_line_def)
qed

section \<open>The units of a transmitter, in the order they are sent\<close>

type_synonym unit_src = "u8 list \<times> u16 option"

definition skb_unit :: "skb \<Rightarrow> unit_src" where
  "skb_unit s = (skb_data s, Some (ucast (skb_csum s)))"

definition idle_unit :: unit_src where "idle_unit = ([], None)"

text \<open>
  What is sent in \<open>n\<close> rounds: the queue in order, then the last buffer of the repeat
  queue again and again, or flags.
\<close>

fun next_units :: "nat \<Rightarrow> skb list \<Rightarrow> skb list \<Rightarrow> unit_src list" where
  "next_units 0 q r = []"
| "next_units (Suc n) (s # q) r = skb_unit s # next_units n q r"
| "next_units (Suc n) [] r =
     (if r = [] then idle_unit else skb_unit (last r)) # next_units n [] r"

definition unit_line :: "wp_mtp1_cfg \<Rightarrow> unit_src \<Rightarrow> bool list" where
  "unit_line c u = su_line c (fst u) (snd u)"

lemma unit_line_8: "8 \<le> length (unit_line c u)"
  by (simp add: unit_line_def su_line_def)

fun r_left :: "nat \<Rightarrow> skb list \<Rightarrow> skb list \<Rightarrow> skb list" where
  "r_left n q r = (if n \<le> length q \<or> r = [] then r else [last r])"

lemma next_units_repeat: "r \<noteq> [] \<Longrightarrow> next_units n q [last r] = next_units n q r"
  by (induction n q r rule: next_units.induct) simp_all

lemma tx_r_pick: "q \<noteq> [] \<Longrightarrow> tx_r_pick q = (butlast q, Some (last q))"
  by (induction q rule: tx_r_pick.induct) simp_all

lemma dealloc_sel [simp]:
  "cfg (dealloc s l) = cfg l" "reg (dealloc s l) = reg l" "events (dealloc s l) = events l"
  "tx_q (tbs (dealloc s l)) = tx_q (tbs l)" "tx_r_q (tbs (dealloc s l)) = tx_r_q (tbs l)"
  "tx_q_dealloc (tbs (dealloc s l)) = tx_q_dealloc (tbs l) @ [s]"
  "card_index (tbs (dealloc s l)) = card_index (tbs l)"
  by (simp_all add: dealloc_def)

lemma queues_free [simp]:
  "tbs_stream m (t\<lparr>tx_q := q\<rparr>) = tbs_stream m t" "tbs_room m (t\<lparr>tx_q := q\<rparr>) = tbs_room m t"
  "tbs_stream m (t\<lparr>tx_r_q := q\<rparr>) = tbs_stream m t" "tbs_room m (t\<lparr>tx_r_q := q\<rparr>) = tbs_room m t"
  "tbs_stream m (t\<lparr>tx_q_dealloc := q\<rparr>) = tbs_stream m t"
  "tbs_room m (t\<lparr>tx_q_dealloc := q\<rparr>) = tbs_room m t"
  by (simp_all add: tbs_stream_def tbs_room_def tbs_ok_def tbs_at_def fun_eq_iff)

lemma dealloc_free [simp]:
  "tbs_stream m (tbs (dealloc s l)) = tbs_stream m (tbs l)"
  "tbs_room m (tbs (dealloc s l)) = tbs_room m (tbs l)"
  by (simp_all add: dealloc_def)

lemma deallocs_sel [simp]:
  "cfg (fold dealloc q l) = cfg l" "reg (fold dealloc q l) = reg l"
  "tx_q (tbs (fold dealloc q l)) = tx_q (tbs l)"
  "tx_r_q (tbs (fold dealloc q l)) = tx_r_q (tbs l)"
  "tx_q_dealloc (tbs (fold dealloc q l)) = tx_q_dealloc (tbs l) @ q"
  "card_index (tbs (fold dealloc q l)) = card_index (tbs l)"
  "tbs_stream m (tbs (fold dealloc q l)) = tbs_stream m (tbs l)"
  "tbs_room m (tbs (fold dealloc q l)) = tbs_room m (tbs l)"
  by (induction q arbitrary: l) simp_all

lemma emit_tbs [simp]: "tbs (emit e l) = tbs l" "cfg (emit e l) = cfg l"  "reg (emit e l) = reg l"
  by (simp_all add: emit_def)

text \<open>One round sends the next unit.\<close>

definition round_unit :: "wp_mtp1_link \<Rightarrow> unit_src" where
  "round_unit l = hd (next_units 1 (tx_q (tbs l)) (tx_r_q (tbs l)))"

lemma tx_round_line:
  assumes "link_room l (length (unit_line (cfg l) (round_unit l)) + n)"
  shows "link_stream (tx_round l) = link_stream l @ unit_line (cfg l) (round_unit l)"
    and "link_room (tx_round l) n"
    and "cfg (tx_round l) = cfg l"
    and "card_index (tbs (tx_round l)) = card_index (tbs l)"
    and "tx_q (tbs (tx_round l)) = tl (tx_q (tbs l))"
    and "tx_r_q (tbs (tx_round l)) = r_left 1 (tx_q (tbs l)) (tx_r_q (tbs l))"
proof -
  let ?goal = "link_stream (tx_round l) = link_stream l @ unit_line (cfg l) (round_unit l) \<and>
    link_room (tx_round l) n \<and> cfg (tx_round l) = cfg l \<and>
    card_index (tbs (tx_round l)) = card_index (tbs l) \<and>
    tx_q (tbs (tx_round l)) = tl (tx_q (tbs l)) \<and>
    tx_r_q (tbs (tx_round l)) = r_left 1 (tx_q (tbs l)) (tx_r_q (tbs l))"
  have ?goal
  proof (cases "tx_q (tbs l)")
    case (Cons s q)
    let ?l = "l\<lparr>tbs := (tbs l)\<lparr>tx_q := q\<rparr>\<rparr>"
    have u: "round_unit l = skb_unit s" by (simp add: round_unit_def Cons)
    have "link_room ?l (length (su_line (cfg ?l) (skb_data s) (Some (ucast (skb_csum s)))) + n)"
      using assms by (simp add: u unit_line_def skb_unit_def)
    from daed_tx_line [OF this] show ?thesis
      by (simp add: tx_round_def Cons u unit_line_def skb_unit_def Let_def)
  next
    case Nil
    show ?thesis
    proof (cases "tx_r_q (tbs l) = []")
      case True
      have u: "round_unit l = idle_unit" by (simp add: round_unit_def Nil True)
      have "link_room l (length (su_line (cfg l) [] None) + n)"
        using assms by (simp add: u unit_line_def idle_unit_def)
      from daed_tx_line [OF this] True show ?thesis
        by (simp add: tx_round_def Nil u unit_line_def idle_unit_def)
    next
      case False
      let ?s = "last (tx_r_q (tbs l))"
      let ?l = "fold dealloc (butlast (tx_r_q (tbs l))) (l\<lparr>tbs := (tbs l)\<lparr>tx_r_q := []\<rparr>\<rparr>)"
      have u: "round_unit l = skb_unit ?s" by (simp add: round_unit_def Nil False)
      have "link_room ?l (length (su_line (cfg ?l) (skb_data ?s) (Some (ucast (skb_csum ?s)))) + n)"
        using assms by (simp add: u unit_line_def skb_unit_def)
      from daed_tx_line [OF this] False show ?thesis
        by (simp add: tx_round_def Nil tx_r_pick u unit_line_def skb_unit_def Let_def)
    qed
  qed
  then show "link_stream (tx_round l) = link_stream l @ unit_line (cfg l) (round_unit l)"
    and "link_room (tx_round l) n" and "cfg (tx_round l) = cfg l"
    and "card_index (tbs (tx_round l)) = card_index (tbs l)"
    and "tx_q (tbs (tx_round l)) = tl (tx_q (tbs l))"
    and "tx_r_q (tbs (tx_round l)) = r_left 1 (tx_q (tbs l)) (tx_r_q (tbs l))"
    by blast+
qed

section \<open>The loop that fills the buffer\<close>

lemma tx_pending_eq:
  assumes "tbs_ok m (tbs l)"
  shows "tx_pending l = int (unat (cur_index (tbs l))) - int (unat (card_index (tbs l)))"
proof -
  have le: "card_index (tbs l) \<le> cur_index (tbs l)" and small: "unat (cur_index (tbs l)) < 10240"
    using assms by (simp_all add: tbs_ok_def word_less_nat_alt TX_BUF_SIZE_def)
  have u: "unat (cur_index (tbs l) - card_index (tbs l)) = unat (cur_index (tbs l)) - unat (card_index (tbs l))"
    using le by (simp add: unat_sub)
  have "sint w = int (unat w)" if "unat (w :: u32) < 10240" for w
  proof -
    have "0 \<le> uint w" "uint w < 10240" using that uint_nat [of w] by linarith+
    then have "- (2 ^ 31) \<le> uint w" "uint w < 2 ^ 31"
      using order_trans [of "- (2 ^ 31)" 0 "uint w"] by simp_all
    then have "sint w = uint w"
      using signed_take_bit_int_eq_self [of 31 "uint w"] by (simp add: sint_uint)
    then show ?thesis by (simp only: uint_nat)
  qed
  then have "tx_pending l = int (unat (cur_index (tbs l) - card_index (tbs l)))"
    using u small unfolding tx_pending_def by (metis diff_le_self order_le_less_trans)
  also have "\<dots> = int (unat (cur_index (tbs l))) - int (unat (card_index (tbs l)))"
    using le unfolding u word_le_nat_alt by (rule of_nat_diff)
  finally show ?thesis .
qed

lemma length_seg: "length (seg m a c d) = width m * (d - c)"
  by (induction d) (auto simp: seg_def width_def line_bits_def Suc_diff_le)

lemma length_tbs_stream:
  assumes "tbs_ok m t"
  shows "length (tbs_stream m t) + width m * unat (card_index t) = tbs_at m t"
proof -
  have le: "unat (card_index t) \<le> unat (cur_index t)" and p: "unat (cur_bit_pos t) < 8"
    using assms by (simp_all add: tbs_ok_def word_le_nat_alt)
  have "width m * (unat (cur_index t) - unat (card_index t)) + width m * unat (card_index t) =
      width m * unat (cur_index t)"
    using le by (simp flip: distrib_left)
  with p show ?thesis
    by (simp add: tbs_stream_def tbs_at_def length_seg)
qed

text \<open>
  The bound under which no unit reaches the end of the buffer: \<open>B\<close> is the longest unit
  on the line, in bits.
\<close>

definition line_bound :: "nat \<Rightarrow> wp_mtp1_link \<Rightarrow> bool" where
  "line_bound B l \<longleftrightarrow> 8 \<le> B \<and>
     (\<forall>s \<in> set (tx_q (tbs l)) \<union> set (tx_r_q (tbs l)). length (unit_line (cfg l) (skb_unit s)) \<le> B)"

lemma next_units_bound:
  "line_bound B l \<Longrightarrow> u \<in> set (next_units n (tx_q (tbs l)) (tx_r_q (tbs l))) \<Longrightarrow>
     length (unit_line (cfg l) u) \<le> B"
proof -
  assume B: "line_bound B l"
  have "length (unit_line (cfg l) idle_unit) \<le> B"
    using B by (simp add: line_bound_def unit_line_def idle_unit_def su_line_def crc_octets_def)
  moreover have "set (next_units n q r) \<subseteq> {idle_unit} \<union> skb_unit ` (set q \<union> set r)" for q r
    by (induction n q r rule: next_units.induct) auto
  moreover assume "u \<in> set (next_units n (tx_q (tbs l)) (tx_r_q (tbs l)))"
  ultimately show ?thesis using B by (auto simp: line_bound_def)
qed

lemma round_unit_in: "round_unit l \<in> set (next_units 1 (tx_q (tbs l)) (tx_r_q (tbs l)))"
proof -
  have "next_units 1 q r \<noteq> []" for q r by (cases q) simp_all
  then show ?thesis by (simp add: round_unit_def del: One_nat_def)
qed

lemma next_units_round:
  "next_units (Suc n) (tx_q (tbs l)) (tx_r_q (tbs l)) =
     round_unit l # next_units n (tl (tx_q (tbs l))) (r_left 1 (tx_q (tbs l)) (tx_r_q (tbs l)))"
  by (cases "tx_q (tbs l)") (simp_all add: round_unit_def next_units_repeat)

lemma line_bound_round:
  assumes "line_bound B l" "link_room l (length (unit_line (cfg l) (round_unit l)))"
  shows "line_bound B (tx_round l)"
proof -
  have "set (tl q) \<union> set (r_left 1 q r) \<subseteq> set q \<union> set r" for q r :: "skb list"
    by (cases q) auto
  then have "set (tx_q (tbs (tx_round l))) \<union> set (tx_r_q (tbs (tx_round l)))
      \<subseteq> set (tx_q (tbs l)) \<union> set (tx_r_q (tbs l))"
    using tx_round_line(5,6) [of l 0] assms(2) by (simp only: add_0_right)
  moreover have "cfg (tx_round l) = cfg l"
    using tx_round_line(3) [of l 0] assms(2) by simp
  ultimately show ?thesis
    using assms(1) by (auto simp: line_bound_def)
qed

lemma r_left_r_left: "r_left n (tl q) (r_left (Suc 0) q r) = r_left (Suc n) q r"
  by (cases q) auto

lemma tx_fill_line:
  assumes "link_room l 0" "line_bound B l" "unat (card_index (tbs l)) = 0"
    and "width (hdlc_op_mode (cfg l)) * mtu + B < width (hdlc_op_mode (cfg l)) * 10240"
  shows "\<exists>n l'. tx_fill (int mtu) l = Some l' \<and> cfg l' = cfg l \<and> int mtu \<le> tx_pending l' \<and>
    link_stream l' = link_stream l @ concat (map (unit_line (cfg l)) (next_units n (tx_q (tbs l)) (tx_r_q (tbs l)))) \<and>
    link_room l' 0 \<and> line_bound B l' \<and> card_index (tbs l') = card_index (tbs l) \<and>
    tx_q (tbs l') = drop n (tx_q (tbs l)) \<and> tx_r_q (tbs l') = r_left n (tx_q (tbs l)) (tx_r_q (tbs l))"
  using assms
proof (induction "width (hdlc_op_mode (cfg l)) * mtu + 8 - length (link_stream l)" arbitrary: l rule: less_induct)
  case less
  let ?w = "width (hdlc_op_mode (cfg l))"
  have ok: "tbs_ok (hdlc_op_mode (cfg l)) (tbs l)" using less.prems(1) by (simp add: tbs_room_def)
  show ?case
  proof (cases "tx_pending l < int mtu")
    case False
    then have "tx_fill (int mtu) l = Some l" by (simp add: tx_fill.simps)
    with False less.prems show ?thesis
      by (intro exI [of _ 0] exI [of _ l]) simp
  next
    case True
    let ?u = "round_unit l"
    have cur: "unat (cur_index (tbs l)) < mtu"
      using True tx_pending_eq [OF ok] less.prems(3) by linarith
    have pos: "unat (cur_bit_pos (tbs l)) < 8" using ok by (simp add: tbs_ok_def)
    have len: "length (link_stream l) = tbs_at (hdlc_op_mode (cfg l)) (tbs l)"
      using length_tbs_stream [OF ok] less.prems(3) by simp
    have "?w * unat (cur_index (tbs l)) + ?w \<le> ?w * mtu"
      using cur by (metis Suc_leI add.commute mult_Suc_right mult_le_mono2)
    then have at: "tbs_at (hdlc_op_mode (cfg l)) (tbs l) < ?w * mtu + 1"
      using pos width_pos [of "hdlc_op_mode (cfg l)"] by (auto simp: tbs_at_def)
    have uB: "length (unit_line (cfg l) ?u) \<le> B"
      using next_units_bound [OF less.prems(2) round_unit_in] .
    have room: "link_room l (length (unit_line (cfg l) ?u) + 0)"
      using ok at uB less.prems(4) by (simp add: tbs_room_def)
    note rd = tx_round_line [OF room]
    have "length (link_stream (tx_round l)) \<ge> length (link_stream l) + 8"
      using unit_line_8 [of "cfg l" ?u] rd(1) by (simp add: rd(3))
    then have dec: "?w * mtu + 8 - length (link_stream (tx_round l)) < ?w * mtu + 8 - length (link_stream l)"
      using at len by simp
    obtain n l' where l': "tx_fill (int mtu) (tx_round l) = Some l'" "cfg l' = cfg l" "int mtu \<le> tx_pending l'"
      "link_stream l' = link_stream (tx_round l) @ concat (map (unit_line (cfg l))
         (next_units n (tl (tx_q (tbs l))) (r_left 1 (tx_q (tbs l)) (tx_r_q (tbs l)))))"
      "link_room l' 0" "line_bound B l'" "card_index (tbs l') = card_index (tbs l)"
      "tx_q (tbs l') = drop n (tl (tx_q (tbs l)))"
      "tx_r_q (tbs l') = r_left n (tl (tx_q (tbs l))) (r_left 1 (tx_q (tbs l)) (tx_r_q (tbs l)))"
      using less.hyps [of "tx_round l"] dec rd(2) less.prems(3,4)
        line_bound_round [OF less.prems(2)] room
      by (auto simp: rd(3,4,5,6) simp del: r_left.simps)
    have "tx_fill (int mtu) l = Some l'"
      using True l'(1) by (simp add: tx_fill.simps [of _ l])
    moreover have "drop n (tl (tx_q (tbs l))) = drop (Suc n) (tx_q (tbs l))"
      by (simp add: drop_Suc)
    ultimately show ?thesis
      using l' rd(1,3)
      by (intro exI [of _ "Suc n"] exI [of _ l'])
        (simp add: next_units_round r_left_r_left del: r_left.simps next_units.simps)
  qed
qed

section \<open>The octets for the driver, and what is left\<close>

lemma tx_drain_eq:
  assumes "tbs_ok m (tbs l)" "unat (card_index (tbs l)) + n \<le> unat (cur_index (tbs l))"
  shows "tx_drain n l =
    (map (tbs_buf (tbs l)) [unat (card_index (tbs l)) ..< unat (card_index (tbs l)) + n],
     l\<lparr>tbs := (tbs l)\<lparr>card_index := card_index (tbs l) + of_nat n\<rparr>\<rparr>)"
  using assms
proof (induction n arbitrary: l)
  case (Suc n)
  let ?c = "card_index (tbs l)"
  let ?l = "l\<lparr>tbs := (tbs l)\<lparr>card_index := ?c + 1\<rparr>\<rparr>"
  have small: "unat (cur_index (tbs l)) < 10240"
    using Suc.prems(1) by (simp add: tbs_ok_def word_less_nat_alt TX_BUF_SIZE_def)
  have c1: "unat (?c + 1) = Suc (unat ?c)" using small Suc.prems(2) by (simp add: unat_inc32)
  have lt: "?c < TX_BUF_SIZE" using small Suc.prems(2) by (simp add: word_less_nat_alt TX_BUF_SIZE_def)
  have ok: "tbs_ok m (tbs ?l)"
    using Suc.prems c1 by (simp add: tbs_ok_def word_le_nat_alt)
  have "tx_take l = (tbs_buf (tbs l) (unat ?c), ?l)"
    using lt by (simp add: tx_take_def Let_def)
  with Suc.IH [OF ok] Suc.prems(2) c1 show ?case
    by (simp add: upt_conv_Cons add.assoc del: upt_Suc)
qed simp

lemma tx_copy_eq: "i \<le> k \<Longrightarrow> tx_copy i k n a = (\<lambda>x. if i \<le> x \<and> x < i + n then a (x - i + k) else a x)"
  by (induction i k n a rule: tx_copy.induct) (auto simp: fun_eq_iff Suc_diff_Suc)

lemma seg_split: "c \<le> d \<Longrightarrow> d \<le> e \<Longrightarrow> seg m a c e = seg m a c d @ seg m a d e"
  unfolding seg_def by (metis concat_append le_Suc_ex map_append upt_add_eq_append)

lemma seg_move: "(\<And>i. i < n \<Longrightarrow> b i = a (k + i)) \<Longrightarrow> seg m b 0 n = seg m a k (k + n)"
proof -
  assume eq: "\<And>i. i < n \<Longrightarrow> b i = a (k + i)"
  have "map (\<lambda>i. line_bits m (a i)) [k ..< k + n] = map (\<lambda>i. line_bits m (b i)) [0 ..< n]"
    by (rule nth_equalityI) (simp_all add: eq)
  then show ?thesis by (simp add: seg_def)
qed

definition tx_ok :: "nat \<Rightarrow> wp_mtp1_link \<Rightarrow> bool" where
  "tx_ok mtu l \<longleftrightarrow> link_room l 0 \<and> (unat (card_index (tbs l)) = 0 \<or> int mtu \<le> tx_pending l)"

lemma tx_compact_line:
  assumes "link_room l 0"
  shows "let l' = tx_compact (int mtu) l
    in tbs_stream (hdlc_op_mode (cfg l)) (tbs l') = link_stream l \<and> tx_ok mtu l' \<and> cfg l' = cfg l \<and>
       tx_q (tbs l') = tx_q (tbs l) \<and> tx_r_q (tbs l') = tx_r_q (tbs l)"
proof (cases "tx_pending l < int mtu")
  case False
  with assms show ?thesis by (simp add: tx_compact_def tx_ok_def Let_def)
next
  case True
  let ?t = "tbs l" and ?m = "hdlc_op_mode (cfg l)"
  let ?c = "unat (card_index ?t)" and ?d = "unat (cur_index ?t)"
  have ok: "tbs_ok ?m ?t" and at: "tbs_at ?m ?t < width ?m * 10240"
    using assms by (simp_all add: tbs_room_def)
  have le: "?c \<le> ?d" and small: "?d < 10240"
    using ok by (simp_all add: tbs_ok_def word_le_nat_alt word_less_nat_alt TX_BUF_SIZE_def)
  have r: "tx_pending l = int (?d - ?c)" using tx_pending_eq [OF ok] le by simp
  have d1: "unat (word_of_nat (?d - ?c) :: u32) = ?d - ?c"
    using small by (simp add: unat_of_nat)
  let ?a = "tx_copy 0 ?c (?d - ?c + 1) (tbs_buf ?t)"
  let ?u = "?t\<lparr>tbs_buf := ?a, cur_index := word_of_nat (?d - ?c), card_index := 0\<rparr>"
  have l': "tx_compact (int mtu) l = l\<lparr>tbs := ?u\<rparr>"
  proof -
    have "nat (tx_pending l + 1) = ?d - ?c + 1" using r by arith
    moreover have "word_of_int (tx_pending l) = (word_of_nat (?d - ?c) :: u32)"
      by (simp only: r of_int_of_nat_eq)
    moreover have "\<not> int ?c + tx_pending l \<ge> uint TX_BUF_SIZE"
    proof -
      have "int ?c + tx_pending l < 10240" using r le small by linarith
      then show ?thesis by (simp add: TX_BUF_SIZE_def)
    qed
    moreover have "\<not> tbs_fault ?t" using ok by (simp add: tbs_ok_def)
    ultimately show ?thesis
      using True by (simp only: tx_compact_def Let_def if_True simp_thms) simp
  qed
  have a: "i \<le> ?d - ?c \<Longrightarrow> ?a i = tbs_buf ?t (?c + i)" for i
    by (subst tx_copy_eq) (auto simp: add.commute)
  have last: "?a (?d - ?c) = tbs_buf ?t ?d" using a [of "?d - ?c"] le by simp
  have "seg ?m ?a 0 (?d - ?c) = seg ?m (tbs_buf ?t) ?c ?d"
    using seg_move [of "?d - ?c" ?a "tbs_buf ?t" ?c] a le by simp
  then have "tbs_stream ?m ?u = link_stream l"
    using last d1 by (simp add: tbs_stream_def)
  moreover have "tbs_ok ?m ?u"
    using ok last d1 small by (simp add: tbs_ok_def word_less_nat_alt TX_BUF_SIZE_def word_le_nat_alt)
  moreover have "tbs_at ?m ?u \<le> tbs_at ?m ?t"
    using d1 by (simp add: tbs_at_def)
  ultimately show ?thesis
    using at by (simp add: l' tx_ok_def tbs_room_def Let_def)
qed

lemma tx_bh_line:
  assumes "tx_ok mtu l" "line_bound B l"
    and "width (hdlc_op_mode (cfg l)) * mtu + B < width (hdlc_op_mode (cfg l)) * 10240"
  shows "\<exists>n vs l'. wp_mtp1_tx_bh_handler (int mtu) l = Some (vs, l') \<and> length vs = mtu \<and>
    concat (map (line_bits (hdlc_op_mode (cfg l))) vs) @ link_stream l' =
      link_stream l @ concat (map (unit_line (cfg l)) (next_units n (tx_q (tbs l)) (tx_r_q (tbs l)))) \<and>
    tx_ok mtu l' \<and> line_bound B l' \<and> cfg l' = cfg l \<and>
    tx_q (tbs l') = drop n (tx_q (tbs l)) \<and> tx_r_q (tbs l') = r_left n (tx_q (tbs l)) (tx_r_q (tbs l))"
proof -
  let ?m = "hdlc_op_mode (cfg l)"
  obtain n l1 where fill: "tx_fill (int mtu) l = Some l1" "cfg l1 = cfg l" "int mtu \<le> tx_pending l1"
      "link_stream l1 = link_stream l @
         concat (map (unit_line (cfg l)) (next_units n (tx_q (tbs l)) (tx_r_q (tbs l))))"
      "link_room l1 0" "line_bound B l1"
      "tx_q (tbs l1) = drop n (tx_q (tbs l))" "tx_r_q (tbs l1) = r_left n (tx_q (tbs l)) (tx_r_q (tbs l))"
  proof (cases "unat (card_index (tbs l)) = 0")
    case True
    with tx_fill_line [of l B mtu] assms that show thesis by (auto simp: tx_ok_def simp del: r_left.simps)
  next
    case False
    with assms have "int mtu \<le> tx_pending l" by (simp add: tx_ok_def)
    then have "tx_fill (int mtu) l = Some l" by (simp add: tx_fill.simps)
    with False assms that [of l 0] show thesis by (simp add: tx_ok_def)
  qed
  let ?t = "tbs l1"
  let ?c = "unat (card_index ?t)" and ?d = "unat (cur_index ?t)"
  have ok: "tbs_ok ?m ?t" and at: "tbs_at ?m ?t < width ?m * 10240"
    using fill(2,5) by (simp_all add: tbs_room_def)
  have le: "?c \<le> ?d" and small: "?d < 10240"
    using ok by (simp_all add: tbs_ok_def word_le_nat_alt word_less_nat_alt TX_BUF_SIZE_def)
  have enough: "?c + mtu \<le> ?d" using fill(3) tx_pending_eq [OF ok] le by linarith
  let ?vs = "map (tbs_buf ?t) [?c ..< ?c + mtu]"
  let ?l2 = "l1\<lparr>tbs := ?t\<lparr>card_index := card_index ?t + of_nat mtu\<rparr>\<rparr>"
  have drain: "tx_drain mtu l1 = (?vs, ?l2)" using tx_drain_eq [OF ok enough] .
  have c2: "unat (card_index ?t + of_nat mtu) = ?c + mtu"
    using small enough by (simp add: unat_word_ariths unat_of_nat)
  have room2: "link_room ?l2 0"
    using ok at c2 enough fill(2) by (simp add: tbs_room_def tbs_ok_def tbs_at_def word_le_nat_alt)
  have drained: "concat (map (line_bits ?m) ?vs) @ link_stream ?l2 = link_stream l1"
    using seg_split [of ?c "?c + mtu" ?d ?m "tbs_buf ?t"] enough
    by (simp add: tbs_stream_def c2 fill(2) seg_def comp_def)
  define l3 where "l3 = tx_compact (int mtu) ?l2"
  have run: "wp_mtp1_tx_bh_handler (int mtu) l = Some (?vs, l3)"
    by (simp add: wp_mtp1_tx_bh_handler_def fill(1) drain l3_def)
  have l3: "tbs_stream ?m (tbs l3) = link_stream ?l2" "tx_ok mtu l3" "cfg l3 = cfg l"
    "tx_q (tbs l3) = drop n (tx_q (tbs l))" "tx_r_q (tbs l3) = r_left n (tx_q (tbs l)) (tx_r_q (tbs l))"
    using tx_compact_line [OF room2, of mtu] fill(2,7,8)
    by (simp_all add: Let_def l3_def del: r_left.simps)
  have bound: "line_bound B l3"
    using fill(2,6,7,8) l3 by (simp add: line_bound_def del: r_left.simps)
  have "concat (map (line_bits ?m) ?vs) @ link_stream l3 =
      link_stream l @ concat (map (unit_line (cfg l)) (next_units n (tx_q (tbs l)) (tx_r_q (tbs l))))"
    unfolding l3(3) l3(1) drained fill(4) by (rule refl)
  with run l3(2-5) bound show ?thesis
    by (intro exI [of _ n] exI [of _ ?vs] exI [of _ l3]) (simp del: r_left.simps)
qed

end
