(* ===== verification/Mtp1_Link.thy ===== *)
theory Mtp1_Link
  imports Mtp1_Rx_Line Mtp1_Tx_Line
begin

unbundle bit_operations_syntax

text \<open>
  The properties of wanpipe_mtp1.c: what a receiver gets from a transmitter over a line
  (\<open>mtp1_round_trip\<close>), what a damaged unit does, the bounds of the receive buffer, the
  queues and the buffers in them.
\<close>

section \<open>Several calls of the handler\<close>

fun tx_run :: "int \<Rightarrow> nat \<Rightarrow> wp_mtp1_link \<Rightarrow> (u8 list \<times> wp_mtp1_link) option" where
  "tx_run mtu 0 l = Some ([], l)"
| "tx_run mtu (Suc k) l =
     (case wp_mtp1_tx_bh_handler mtu l of
        None \<Rightarrow> None
      | Some (vs, l1) \<Rightarrow>
          (case tx_run mtu k l1 of None \<Rightarrow> None | Some (ws, l2) \<Rightarrow> Some (vs @ ws, l2)))"

lemma next_units_add:
  "next_units (n + j) q r = next_units n q r @ next_units j (drop n q) (r_left n q r)"
proof (induction n q r rule: next_units.induct)
  case (3 n r)
  then show ?case by (simp add: next_units_repeat)
qed (simp_all add: next_units_repeat)

lemma tx_run_line:
  assumes "tx_ok mtu l" "line_bound B l"
    and "width (hdlc_op_mode (cfg l)) * mtu + B < width (hdlc_op_mode (cfg l)) * 10240"
  shows "\<exists>n out l'. tx_run (int mtu) k l = Some (out, l') \<and> length out = k * mtu \<and>
    concat (map (line_bits (hdlc_op_mode (cfg l))) out) @ link_stream l' =
      link_stream l @ concat (map (unit_line (cfg l)) (next_units n (tx_q (tbs l)) (tx_r_q (tbs l)))) \<and>
    tx_ok mtu l' \<and> cfg l' = cfg l"
  using assms
proof (induction k arbitrary: l)
  case 0
  then show ?case by (intro exI [of _ 0] exI [of _ "[]"] exI [of _ l]) simp
next
  case (Suc k)
  obtain n vs l1 where 1: "wp_mtp1_tx_bh_handler (int mtu) l = Some (vs, l1)" "length vs = mtu"
    "concat (map (line_bits (hdlc_op_mode (cfg l))) vs) @ link_stream l1 =
      link_stream l @ concat (map (unit_line (cfg l)) (next_units n (tx_q (tbs l)) (tx_r_q (tbs l))))"
    "tx_ok mtu l1" "line_bound B l1" "cfg l1 = cfg l"
    "tx_q (tbs l1) = drop n (tx_q (tbs l))" "tx_r_q (tbs l1) = r_left n (tx_q (tbs l)) (tx_r_q (tbs l))"
    using tx_bh_line [OF Suc.prems] by blast
  obtain j ws l2 where 2: "tx_run (int mtu) k l1 = Some (ws, l2)" "length ws = k * mtu"
    "concat (map (line_bits (hdlc_op_mode (cfg l))) ws) @ link_stream l2 =
      link_stream l1 @ concat (map (unit_line (cfg l)) (next_units j (tx_q (tbs l1)) (tx_r_q (tbs l1))))"
    "tx_ok mtu l2" "cfg l2 = cfg l"
    using Suc.IH [OF 1(4,5)] Suc.prems(3) unfolding 1(6) by blast
  have "concat (map (line_bits (hdlc_op_mode (cfg l))) (vs @ ws)) @ link_stream l2 =
      link_stream l @ concat (map (unit_line (cfg l)) (next_units (n + j) (tx_q (tbs l)) (tx_r_q (tbs l))))"
    using 1(3) 2(3) unfolding next_units_add 1(7,8)
    by (metis (no_types, lifting) append.assoc concat_append map_append)
  then show ?case
    using 1(1,2) 2(1,2,4,5)
    by (intro exI [of _ "n + j"] exI [of _ "vs @ ws"] exI [of _ l2]) simp
qed

section \<open>How long a unit may be\<close>

text \<open>
  In bits: \<open>mtu\<close> octets, a flag, and the unit with its check sum and at most one
  inserted zero for five bits, fit into the buffer.
\<close>

definition su_fits :: "u8 \<Rightarrow> nat \<Rightarrow> nat \<Rightarrow> bool" where
  "su_fits m mtu n \<longleftrightarrow> 5 * (width m * mtu) + 48 * (n + 2) + 40 < 5 * (width m * 10240)"

lemma length_crc_octets: "length (crc_octets crc) \<le> 2"
  by (cases crc) (simp_all add: crc_octets_def)

lemma unit_line_fits:
  assumes "su_fits (hdlc_op_mode c) mtu (length (fst u))"
  shows "width (hdlc_op_mode c) * mtu + length (unit_line c u) < width (hdlc_op_mode c) * 10240"
proof -
  let ?os = "fst u @ crc_octets (snd u)"
  have "5 * length (stuff 0 (unit_bits (hdlc_bit_endian c) ?os)) \<le> 6 * (8 * length ?os)"
    using length_stuff_div [of 0 "unit_bits (hdlc_bit_endian c) ?os"] by simp
  moreover have "length ?os \<le> length (fst u) + 2"
    using length_crc_octets [of "snd u"] by simp
  ultimately have "5 * length (unit_line c u) \<le> 40 + 48 * (length (fst u) + 2)"
    by (simp add: unit_line_def su_line_def)
  with assms show ?thesis by (simp add: su_fits_def)
qed

lemma line_bound_fits:
  assumes "\<forall>s \<in> set (tx_q (tbs l)) \<union> set (tx_r_q (tbs l)).
      su_fits (hdlc_op_mode (cfg l)) mtu (length (skb_data s))"
    and "mtu \<le> 10000"
  obtains B where "line_bound B l"
    "width (hdlc_op_mode (cfg l)) * mtu + B < width (hdlc_op_mode (cfg l)) * 10240"
proof -
  let ?w = "width (hdlc_op_mode (cfg l))"
  let ?B = "?w * 10240 - ?w * mtu - 1"
  have w: "?w * mtu + 1680 \<le> ?w * 10240"
    using width_pos [of "hdlc_op_mode (cfg l)"] assms(2) by auto
  have "length (unit_line (cfg l) (skb_unit s)) \<le> ?B"
    if "s \<in> set (tx_q (tbs l)) \<union> set (tx_r_q (tbs l))" for s
    using unit_line_fits [of "cfg l" mtu "skb_unit s"] assms(1) that by (fastforce simp: skb_unit_def)
  then have "line_bound ?B l" using w by (auto simp: line_bound_def)
  moreover have "?w * mtu + ?B < ?w * 10240" using w by simp
  ultimately show thesis by (rule that)
qed

section \<open>A prefix of the line\<close>

lemma units_prefix:
  assumes "8 \<le> L" "L \<le> length (concat (map (\<lambda>s. flag_bits @ s) ss))"
  shows "\<exists>j n. j < length ss \<and> n < length (ss ! j) + 8 \<and>
    take L (concat (map (\<lambda>s. flag_bits @ s) ss)) =
      flag_bits @ concat (map (\<lambda>s. s @ flag_bits) (take j ss)) @ take n (ss ! j @ flag_bits)"
  using assms
proof (induction ss arbitrary: L)
  case (Cons s ss)
  let ?c = "concat (map (\<lambda>s. flag_bits @ s) ss)"
  show ?case
  proof (cases "L < 16 + length s")
    case True
    have "take (L - 8) (s @ ?c) = take (L - 8) (s @ flag_bits)"
    proof (cases ss)
      case Nil
      then have "L - 8 \<le> length s" using Cons.prems by simp
      then show ?thesis by simp
    next
      case (Cons t ts)
      then show ?thesis using True by (simp add: take_append)
    qed
    then have "take L (concat (map (\<lambda>s. flag_bits @ s) (s # ss))) = flag_bits @ take (L - 8) (s @ flag_bits)"
      using Cons.prems(1) by simp
    then show ?thesis
      using True Cons.prems(1) by (intro exI [of _ 0] exI [of _ "L - 8"]) simp
  next
    case False
    let ?L = "L - (8 + length s)"
    have "8 \<le> ?L" "?L \<le> length ?c" using False Cons.prems by simp_all
    from Cons.IH [OF this] obtain j n where j: "j < length ss" "n < length (ss ! j) + 8"
      and eq: "take ?L ?c = flag_bits @ concat (map (\<lambda>s. s @ flag_bits) (take j ss)) @ take n (ss ! j @ flag_bits)"
      by blast
    have "take L (concat (map (\<lambda>s. flag_bits @ s) (s # ss))) = flag_bits @ s @ take ?L ?c"
      using False by simp
    then show ?thesis
      using j unfolding eq by (intro exI [of _ "Suc j"] exI [of _ n]) simp
  qed
qed simp


section \<open>From the transmitter to the receiver\<close>

definition unit_octets :: "unit_src \<Rightarrow> u8 list" where
  "unit_octets u = fst u @ crc_octets (snd u)"

text \<open>What the client of the receiver gets for a unit: nothing for a flag in idle time.\<close>

definition delivered :: "wp_mtp1_reg \<Rightarrow> unit_src \<Rightarrow> mtp1_event list" where
  "delivered r u = (if snd u = None then [] else accept_ev r (unit_octets u) 0)"

text \<open>A queued buffer as \<open>wp_mtp1_tx_data\<close> queues it, of a length the receiver takes.\<close>

definition good_skb :: "u32 \<Rightarrow> skb \<Rightarrow> bool" where
  "good_skb mru s \<longleftrightarrow> with_csum s = s \<and> skb_data s \<noteq> [] \<and>
     length (skb_data s) + 2 \<le> Suc (unat mru) \<and> length (skb_data s) + 2 \<le> 8192"

lemma low_octets:
  fixes c :: u16
  shows "ucast (c AND 0xFF) = (ucast c :: u8)" "ucast (drop_bit 8 (c AND 0xFF00)) = (ucast (drop_bit 8 c) :: u8)"
proof -
  have lo: "c AND 0xFF = take_bit 8 c" by (simp add: take_bit_eq_mask mask_eq_exp_minus_1)
  show "ucast (c AND 0xFF) = (ucast c :: u8)"
    unfolding lo by (rule bit_word_eqI) (simp add: bit_simps)
  have hi: "bit (0xFF00 :: u16) n \<longleftrightarrow> 8 \<le> n \<and> n < 16" for n
  proof -
    have "(0xFF00 :: u16) = NOT (mask 8)" by (simp add: mask_eq_exp_minus_1)
    then show ?thesis by (simp only: bit_not_iff bit_mask_iff) auto
  qed
  show "ucast (drop_bit 8 (c AND 0xFF00)) = (ucast (drop_bit 8 c) :: u8)"
    by (intro bit_word_eqI)
      (simp only: bit_ucast_iff bit_drop_bit_eq bit_and_iff o_apply hi, auto)
qed

lemma with_csum_octets:
  assumes "with_csum s = s"
  shows "unit_octets (skb_unit s) = skb_data s @ fcs_octets (fcs_check crc_tss_rev_step (skb_data s))"
proof -
  have "skb_csum s = ucast (NOT (fcs_check crc_tss_rev_step (skb_data s)))"
    using arg_cong [OF assms, of skb_csum] by (simp add: with_csum_def crc_tss_rev_check)
  moreover have "ucast (ucast c :: u32) = c" for c :: u16
    by (rule bit_word_eqI) (simp add: bit_simps)
  ultimately show ?thesis
    by (simp add: unit_octets_def skb_unit_def crc_octets_def low_octets fcs_octets_def)
qed

lemma unit_ev_octets: "unit_ev r (stuff 0 (bits8s os)) = (if os = [] then [] else closing_ev r (os, []))"
proof -
  have "stuff 0 (bits8s os) = [] \<longleftrightarrow> os = []"
    using length_stuff_ge [of "bits8s os" 0] by (cases os) auto
  then show ?thesis by (simp add: unit_ev_def unstuff_stuff su_pushes_octets)
qed

lemma unit_ev_good:
  assumes "good_skb mru s"
  shows "unit_ev r (stuff 0 (bits8s (unit_octets (skb_unit s)))) = delivered r (skb_unit s)"
proof -
  have o8: "unit_octets (skb_unit s) = skb_data s @ fcs_octets (fcs_check crc_tss_rev_step (skb_data s))"
    using assms by (intro with_csum_octets) (simp add: good_skb_def)
  have "fcs_check crc_tss_rev_step (unit_octets (skb_unit s)) = 0xf0b8"
    unfolding o8 by (rule mtp1_fcs.check_good)
  moreover have "\<not> length (unit_octets (skb_unit s)) < 3"
    using assms unfolding o8 by (cases "skb_data s") (simp_all add: good_skb_def fcs_octets_def)
  moreover have "snd (skb_unit s) \<noteq> None" by (simp add: skb_unit_def)
  ultimately show ?thesis
    by (auto simp: unit_ev_octets delivered_def)
qed

lemma unit_ev_idle: "unit_ev r (stuff 0 (bits8s (unit_octets idle_unit))) = delivered r idle_unit"
  by (simp add: unit_ev_def delivered_def idle_unit_def unit_octets_def crc_octets_def)

lemma next_units_set: "set (next_units n q r) \<subseteq> insert idle_unit (skb_unit ` (set q \<union> set r))"
  by (induction n q r rule: next_units.induct) auto

lemma length_line_bits: "length (concat (map (line_bits m) vs)) = width m * length vs"
  by (induction vs) (simp_all add: line_bits_def width_def)

text \<open>A link just registered, with buffers queued.\<close>

definition fresh_tx :: "wp_mtp1_link \<Rightarrow> bool" where
  "fresh_tx l \<longleftrightarrow> known_mode (hdlc_op_mode (cfg l)) \<and>
     tbs l = zero_tbs\<lparr>tx_q := tx_q (tbs l), tx_r_q := tx_r_q (tbs l)\<rparr>"

lemma fresh_tx_ok:
  assumes "fresh_tx l"
  shows "tx_ok mtu l" "link_stream l = []"
proof -
  have t: "tbs l = zero_tbs\<lparr>tx_q := tx_q (tbs l), tx_r_q := tx_r_q (tbs l)\<rparr>" and
    m: "known_mode (hdlc_op_mode (cfg l))"
    using assms by (simp_all add: fresh_tx_def)
  have f: "cur_index (tbs l) = 0" "card_index (tbs l) = 0" "cur_bit_pos (tbs l) = 0"
    "tbs_buf (tbs l) = (\<lambda>_. 0)" "\<not> tbs_fault (tbs l)"
    by (subst t; simp add: zero_tbs_def)+
  show "link_stream l = []" by (simp add: tbs_stream_def f)
  show "tx_ok mtu l"
    using m width_pos [of "hdlc_op_mode (cfg l)"]
    by (auto simp: tx_ok_def tbs_room_def tbs_ok_def tbs_at_def f TX_BUF_SIZE_def)
qed


section \<open>Damage on the line\<close>


section \<open>The receive buffer\<close>

lemma rx_fault_states:
  "rx_fault (octet_count_inc l) = rx_fault l" "rx_fault (octet_count_start l) = rx_fault l"
  "rx_fault (count_if_mode l) = rx_fault l" "rx_fault (flag_shift bt l) = rx_fault l"
  "rx_fault (abort_frame l) = rx_fault l" "rx_fault (rx_check_flag bt l) = rx_fault l"
  "rx_fault (rx_init l) = rx_fault l"
  by (simp_all add: octet_count_inc_def octet_count_start_def count_if_mode_def flag_shift_def
      abort_frame_def rx_check_flag_def rx_init_def Let_def)





lemma tbs_states [simp]:
  "tbs (octet_count_inc l) = tbs l" "tbs (octet_count_start l) = tbs l"
  "tbs (count_if_mode l) = tbs l" "tbs (flag_shift bt l) = tbs l"
  "tbs (abort_frame l) = tbs l" "tbs (rx_check_flag bt l) = tbs l"
  "tbs (rx_init l) = tbs l" "tbs (rx_store v l) = tbs l"
  by (simp_all add: octet_count_inc_def octet_count_start_def count_if_mode_def flag_shift_def
      abort_frame_def rx_check_flag_def rx_init_def rx_store_def Let_def)

lemma tbs_bit [simp]: "tbs (rx_bit_to_su bt l) = tbs l"
  by (cases "state_daedr l")
    (simp_all add: rx_bit_to_su_def rx_daedrx_0_def rx_daedrx_1_def rx_daedrx_2_def rx_collect_def Let_def)


section \<open>The buffers handed to the link\<close>

definition bufs :: "wp_tbs \<Rightarrow> skb multiset" where
  "bufs t = mset (tx_q t) + mset (tx_r_q t) + mset (tx_q_dealloc t)"

lemma bufs_daed_tx: "bufs (tbs (daed_tx su crc l)) = bufs (tbs l)"
  by (simp add: bufs_def)

lemma bufs_round: "bufs (tbs (tx_round l)) = bufs (tbs l)"
proof (cases "tx_q (tbs l)")
  case (Cons s q)
  then show ?thesis by (simp add: tx_round_def bufs_def Let_def)
next
  case Nil
  have "mset (butlast r) + {#last r#} = mset r" if "r \<noteq> []" for r :: "skb list"
    using that by (metis append_butlast_last_id mset.simps mset_append union_commute add_mset_add_single empty_neutral(1))
  from this [of "tx_r_q (tbs l)"] Nil show ?thesis
    by (auto simp: tx_round_def bufs_def tx_r_pick Let_def add_mset_commute ac_simps)
qed

lemma bufs_fill:
  assumes "tx_fill mtu l = Some l'"
  shows "bufs (tbs l') = bufs (tbs l)"
  by (rule tx_fill.raw_induct [OF _ assms, of "\<lambda>_ l l'. bufs (tbs l') = bufs (tbs l)"])
    (auto simp: bufs_round split: if_splits)

lemma bufs_drain: "bufs (tbs (snd (tx_drain n l))) = bufs (tbs l)"
proof (induction n arbitrary: l)
  case (Suc n)
  have "bufs (tbs (snd (tx_take l))) = bufs (tbs l)"
    by (simp add: tx_take_def bufs_def Let_def)
  with Suc show ?case by (simp add: split_def Let_def)
qed simp

lemma bufs_handler:
  assumes "wp_mtp1_tx_bh_handler mtu l = Some (vs, l')"
  shows "bufs (tbs l') = bufs (tbs l)"
proof -
  obtain l1 l2 where "tx_fill mtu l = Some l1" "tx_drain (nat mtu) l1 = (vs, l2)" "l' = tx_compact mtu l2"
    using assms by (auto simp: wp_mtp1_tx_bh_handler_def split: option.splits prod.splits)
  moreover have "bufs (tbs (tx_compact mtu l2)) = bufs (tbs l2)"
    by (simp add: tx_compact_def bufs_def Let_def)
  ultimately show ?thesis using bufs_fill bufs_drain [of "nat mtu" l1] by simp
qed

lemma poll_loop_split: "poll_loop n q = (freed, rest) \<Longrightarrow> q = freed @ rest \<and> length freed \<le> 200 - n"
proof (induction n q arbitrary: freed rest rule: poll_loop.induct)
  case (2 n s q)
  then show ?case by (fastforce split: if_splits prod.splits)
qed simp

lemma poll_loop_more: "poll_loop n q = (freed, rest) \<Longrightarrow> n \<le> 200 \<Longrightarrow> rest \<noteq> [] \<Longrightarrow> length freed = 200 - n"
proof (induction n q arbitrary: freed rest rule: poll_loop.induct)
  case (2 n s q)
  then show ?case by (fastforce split: if_splits prod.splits)
qed simp


section \<open>The life of a link\<close>

text \<open>
  Everything a driver and a client do with a link, with a fixed \<open>mtu\<close>; a client may
  queue any buffer that fits, whatever its contents and check sum.
\<close>

inductive mtp1_step :: "nat \<Rightarrow> wp_mtp1_link \<Rightarrow> wp_mtp1_link \<Rightarrow> bool" for mtu where
  step_rx: "mtp1_step mtu l (wp_mtp1_rx_handler vs l)"
| step_tx: "\<forall>b \<in> insert s (set_option rs). su_fits (hdlc_op_mode (cfg l)) mtu (length (skb_data b)) \<Longrightarrow>
    wp_mtp1_tx_data s rs l = (full, l') \<Longrightarrow> mtp1_step mtu l l'"
| step_bh: "wp_mtp1_tx_bh_handler (int mtu) l = Some (vs, l') \<Longrightarrow> mtp1_step mtu l l'"
| step_poll: "wp_mtp1_poll l = (freed, l') \<Longrightarrow> mtp1_step mtu l l'"
| step_reset: "mtp1_step mtu l (wp_mtp1_reset l)"

inductive_cases mtp1_stepE: "mtp1_step mtu l l'"




lemma skb_data_csum [simp]: "skb_data (with_csum s) = skb_data s"
  by (simp add: with_csum_def)









section \<open>A unit one octet too long\<close>

lemma acc_zero: "acc_of (replicate n False) = 0"
  by (induction n) (simp_all add: acc_of_def)

lemma rx_zero_step:
  assumes "in_unit 0 u l" "r_flag_accum l = 0" "fits (length (fst (su_push False u))) l"
  shows "in_unit 0 (su_push False u) (rx_bit_to_su (bitw False) l) \<and>
    r_flag_accum (rx_bit_to_su (bitw False) l) = 0 \<and> same_env l (rx_bit_to_su (bitw False) l)"
proof -
  let ?w = "replicate 7 False"
  have acc: "r_flag_accum l = acc_of (False # ?w)"
    using assms(2) acc_zero [of 8] by (simp add: numeral_eq_Suc)
  obtain l1 where st: "rx_bit_to_su (bitw False) l = rx_check_flag (bitw False) l1"
    and u: "in_unit 0 (su_push False u) l1" and env: "same_env l l1" and a1: "r_flag_accum l1 = acc_of (False # ?w)"
    using rx_daedrx_2_step [OF assms(1) acc, of "bitw False"] assms(3) by (auto simp: kept_def)
  have "?w @ [False] \<notin> {flag_bits, [True, True, True, True, True, True, True, False],
       [False, True, True, True, True, True, True, True]}"
    by (simp add: flag_bits_def numeral_eq_Suc)
  from rx_check_flag_open [OF a1 _ this]
  have "rx_bit_to_su (bitw False) l = l1\<lparr>r_flag_accum := 0\<rparr>"
    using acc_zero [of 8] by (simp add: st numeral_eq_Suc)
  with u env show ?thesis by (simp add: in_unit_def su_holds_def rx_su_def same_env_def)
qed

lemma rx_zeros:
  assumes "in_unit 0 u l" "r_flag_accum l = 0" "fits (length (fst (su_pushes u (replicate n False)))) l"
  shows "let l' = rx_bits (replicate n False) l
    in in_unit 0 (su_pushes u (replicate n False)) l' \<and> same_env l l' \<and> r_flag_accum l' = 0"
  using assms
proof (induction n arbitrary: u l)
  case (Suc n)
  let ?l = "rx_bit_to_su (bitw False) l"
  have "fits (length (fst (su_push False u))) l"
    using Suc.prems(3) su_pushes_grows [of "su_push False u" "replicate n False"]
    by (auto intro: fits_mono)
  note 1 = rx_zero_step [OF Suc.prems(1,2) this]
  then have "fits (length (fst (su_pushes (su_push False u) (replicate n False)))) ?l"
    using Suc.prems(3) fits_env [of l ?l] by simp
  from Suc.IH [OF _ _ this] 1 show ?case
    by (auto simp: Let_def same_env_def)
qed simp

lemma rx_store_beyond:
  assumes u: "in_unit 0 (bs, p) l" and p: "length p = 7" and bs: "length bs = 8192"
    and acc: "r_flag_accum l = 0" and mru: "max_mru (cfg l) = RX_BUF_SIZE"
  shows "rx_fault (rx_bit_to_su bt l)"
proof -
  have len: "unat (rx_buf_len l) = 8192" and cnt: "unat (r_octet_bit_count l) = 7"
    and one: "r_1s_bit_count l = 0" and st: "state_daedr l = DAEDRX_2" and m: "r_octet_counting_mode l = 0"
    using u p bs length_rx_su [of l]
    by (auto simp: in_unit_def su_holds_def unat_eq_0)
  have "rx_buf_len l = 8192" "r_octet_bit_count l = 7"
    using len cnt by (simp_all add: word_unat_eq_iff)
  then show ?thesis
    by (simp add: rx_bit_to_su_def st rx_daedrx_2_def count_if_mode_def m acc one rx_collect_def mru
        RX_BUF_SIZE_def rx_store_def rx_fault_states Let_def)
qed

lemma rx_fault_stays: "rx_fault l \<Longrightarrow> rx_fault (rx_bit_to_su bt l)"
proof -
  assume f: "rx_fault l"
  have coll: "rx_fault (rx_collect c bt m)" if "rx_fault m" for c m
    using that by (auto simp: rx_collect_def rx_store_def Let_def rx_fault_states)
  from f show ?thesis
    by (cases "state_daedr l")
      (simp_all add: rx_bit_to_su_def rx_daedrx_0_def rx_daedrx_1_def rx_daedrx_2_def Let_def
        rx_fault_states coll)
qed

lemma concat_replicate_same: "concat (replicate k (replicate n x)) = replicate (k * n) x"
  by (induction k) (simp_all add: replicate_add)

section \<open>Two links for the examples\<close>

definition ex_reg :: "u32 \<Rightarrow> wp_mtp1_reg" where
  "ex_reg mru = \<lparr>has_rx_data = True, has_rx_suerm = True, has_trace = False,
     reg_cfg = \<lparr>hdlc_op_mode = WP_MTP1_HDLC_8BIT, hdlc_bit_endian = WP_MTP1_HDLC_BIT_0_FIRST,
       param_N = 256, max_mru = mru\<rparr>\<rparr>"

definition ex_link :: "u32 \<Rightarrow> skb list \<Rightarrow> wp_mtp1_link" where
  "ex_link mru q =
     \<lparr>link_init = False, link_no = 1, state_daedr = INIT,
      r_total_octet_count = 0, r_su_accepted = 0, r_su_rejected = 0,
      r_fisu_count = 0, r_lssu_1_count = 0, r_lssu_2_count = 0, r_msu_count = 0,
      r_flag_accum = 0, r_flag_count = 0, r_accum = 0, r_1s_bit_count = 0,
      r_octet_counting_mode = 0, r_octet_counting_count = 0,
      r_octet_bit_count = 0, r_bit_gate_count = 0,
      tbs = zero_tbs\<lparr>tx_q := q\<rparr>, reg = ex_reg mru, cfg = reg_cfg (ex_reg mru),
      rx_buf = (\<lambda>_. 0), rx_buf_len = 0, events = [], rx_fault = False\<rparr>"

lemma ex_link_registered:
  "mru \<noteq> 0 \<Longrightarrow> mru \<le> RX_BUF_SIZE \<Longrightarrow>
     wp_mtp1_register True 0 (ex_reg mru) = (1, ex_reg mru, Some (ex_link mru []))"
  by (simp add: wp_mtp1_register_def ex_reg_def ex_link_def zero_tbs_def Let_def leD)

definition ex_skb :: skb where
  "ex_skb = with_csum \<lparr>skb_data = [1, 2, 3], skb_csum = 0\<rparr>"

lemma ex_skb_good: "good_skb 300 ex_skb"
  by (simp add: good_skb_def ex_skb_def with_csum_def)

lemma ex_fresh: "fresh_tx (ex_link mru q)"
  by (simp add: fresh_tx_def ex_link_def ex_reg_def known_mode_def zero_tbs_def)

lemma ex_link_sel [simp]:
  "cfg (ex_link mru q) = reg_cfg (ex_reg mru)" "reg (ex_link mru q) = ex_reg mru"
  "state_daedr (ex_link mru q) = INIT" "tx_q (tbs (ex_link mru q)) = q"
  "tx_r_q (tbs (ex_link mru q)) = []" "events (ex_link mru q) = []"
  "hdlc_op_mode (reg_cfg (ex_reg mru)) = WP_MTP1_HDLC_8BIT"
  "hdlc_bit_endian (reg_cfg (ex_reg mru)) = WP_MTP1_HDLC_BIT_0_FIRST"
  "max_mru (reg_cfg (ex_reg mru)) = mru"
  by (simp_all add: ex_link_def ex_reg_def zero_tbs_def)

lemma ex_skb_data [simp]: "skb_data ex_skb = [1, 2, 3]"
  by (simp add: ex_skb_def)

section \<open>Properties\<close>

text \<open>
  C1. What a link sends is what the link at the other end delivers. A link with any
  buffers queued, polled \<open>k\<close> times for \<open>mtu\<close> octets, returns from every call; a
  receiver in \<open>INIT\<close>, whatever its accumulators hold, that gets these octets calls its
  client once for every unit whose closing flag is among them, in the order of the
  queue, with the data, its check sum and error code 0, and for nothing else: idle
  flags are silent and the unit still on the way makes no call.
\<close>

theorem mtp1_round_trip:
  assumes fresh: "fresh_tx l" and mtu: "mtu \<le> 10000" "2 \<le> k * mtu"
    and tx: "\<forall>s \<in> set (tx_q (tbs l)) \<union> set (tx_r_q (tbs l)).
      good_skb (max_mru (cfg m)) s \<and> su_fits (hdlc_op_mode (cfg l)) mtu (length (skb_data s))"
    and mode: "hdlc_op_mode (cfg m) = hdlc_op_mode (cfg l)"
    and endian: "hdlc_bit_endian (cfg l) = WP_MTP1_HDLC_BIT_0_FIRST"
      "hdlc_bit_endian (cfg m) = WP_MTP1_HDLC_BIT_0_FIRST"
    and init: "state_daedr m = INIT"
  shows "\<exists>out l' n j. let us = next_units n (tx_q (tbs l)) (tx_r_q (tbs l));
        sent = (\<lambda>i. length (concat (map (unit_line (cfg l)) (take i us))))
      in tx_run (int mtu) k l = Some (out, l') \<and> length out = k * mtu \<and> j < length us \<and>
         events (wp_mtp1_rx_handler out m) = events m @ concat (map (delivered (reg m)) (take j us)) \<and>
         sent j + 8 \<le> width (hdlc_op_mode (cfg l)) * length out \<and>
         width (hdlc_op_mode (cfg l)) * length out < sent (Suc j) + 8"
proof -
  let ?m = "hdlc_op_mode (cfg l)"
  let ?s = "\<lambda>u. stuff 0 (bits8s (unit_octets u))"
  obtain B where B: "line_bound B l" "width ?m * mtu + B < width ?m * 10240"
    using line_bound_fits [of l mtu] tx mtu(1) by blast
  obtain n out l' where run: "tx_run (int mtu) k l = Some (out, l')" "length out = k * mtu"
    and line: "concat (map (line_bits ?m) out) @ link_stream l' =
      concat (map (unit_line (cfg l)) (next_units n (tx_q (tbs l)) (tx_r_q (tbs l))))"
    using tx_run_line [OF fresh_tx_ok(1) [OF fresh] B, of k] fresh_tx_ok(2) [OF fresh] by auto
  define us where "us = next_units n (tx_q (tbs l)) (tx_r_q (tbs l))"
  define L where "L = width ?m * length out"
  have ul: "unit_line (cfg l) = (\<lambda>u. flag_bits @ ?s u)"
    by (simp add: unit_line_def su_line_def unit_octets_def endian unit_bits_0 fun_eq_iff)
  have whole: "concat (map (unit_line (cfg l)) us) = concat (map (\<lambda>s. flag_bits @ s) (map ?s us))"
    by (simp add: ul comp_def)
  have pre: "concat (map (line_bits ?m) out) = take L (concat (map (\<lambda>s. flag_bits @ s) (map ?s us)))"
    using arg_cong [OF line, of "take L"] by (simp add: L_def length_line_bits whole flip: us_def)
  have L8: "8 \<le> L" using mtu(2) width_pos [of ?m] unfolding L_def run(2) [symmetric] by auto
  have "L \<le> length (concat (map (\<lambda>s. flag_bits @ s) (map ?s us)))"
    using arg_cong [OF line, of length]
    by (simp add: L_def length_line_bits whole flip: us_def)
  from units_prefix [OF L8 this] obtain j i where j: "j < length us" and i: "i < length (?s (us ! j)) + 8"
    and eq: "concat (map (line_bits ?m) out) = flag_bits @
      concat (map (\<lambda>s. s @ flag_bits) (map ?s (take j us))) @ take i (?s (us ! j) @ flag_bits)"
    unfolding pre by (auto simp: take_map)
  have units: "\<forall>s \<in> insert (?s (us ! j)) (set (map ?s (take j us))).
      calm 0 s \<and> length (unstuff 0 s) div 8 \<le> Suc (unat (max_mru (cfg m))) \<and> length (unstuff 0 s) div 8 \<le> 8192"
  proof -
    have "length (unit_octets u) \<le> Suc (unat (max_mru (cfg m))) \<and> length (unit_octets u) \<le> 8192"
      if "u \<in> set us" for u
    proof -
      have "u = idle_unit \<or> (\<exists>s. u = skb_unit s \<and> good_skb (max_mru (cfg m)) s)"
        using next_units_set [of n "tx_q (tbs l)" "tx_r_q (tbs l)"] that tx by (auto simp: us_def)
      then show ?thesis
        by (auto simp: good_skb_def unit_octets_def skb_unit_def idle_unit_def crc_octets_def)
    qed
    then have "calm 0 (?s u) \<and> length (unstuff 0 (?s u)) div 8 \<le> Suc (unat (max_mru (cfg m))) \<and>
        length (unstuff 0 (?s u)) div 8 \<le> 8192" if "u \<in> set us" for u
      using that by (simp add: calm_stuff unstuff_stuff)
    then show ?thesis using j by (auto dest: in_set_takeD)
  qed
  have ev: "unit_ev (reg m) (?s u) = delivered (reg m) u" if "u \<in> set us" for u
    using next_units_set [of n "tx_q (tbs l)" "tx_r_q (tbs l)"] that tx unit_ev_good unit_ev_idle
    by (fastforce simp: us_def)
  have "events (wp_mtp1_rx_handler out m) =
      events m @ concat (map (unit_ev (reg m)) (map ?s (take j us)))"
    using rx_line [OF endian(2) init _ i units] eq mode by (simp add: Let_def)
  also have "map (unit_ev (reg m)) (map ?s (take j us)) = map (delivered (reg m)) (take j us)"
    using ev by (auto dest: in_set_takeD)
  finally have events: "events (wp_mtp1_rx_handler out m) =
      events m @ concat (map (delivered (reg m)) (take j us))" .
  have len: "L = 8 + length (concat (map (\<lambda>s. s @ flag_bits) (map ?s (take j us)))) + i"
    using arg_cong [OF eq, of length] i by (simp add: L_def length_line_bits)
  have swap: "length (concat (map (\<lambda>s. s @ flag_bits) (map ?s vs))) = length (concat (map (unit_line (cfg l)) vs))" for vs
    by (induction vs) (simp_all add: ul)
  have "length (concat (map (unit_line (cfg l)) (take (Suc j) us))) =
      length (concat (map (unit_line (cfg l)) (take j us))) + 8 + length (?s (us ! j))"
    using j by (simp add: take_Suc_conv_app_nth ul)
  with len i swap have "length (concat (map (unit_line (cfg l)) (take j us))) + 8 \<le> L"
      "L < length (concat (map (unit_line (cfg l)) (take (Suc j) us))) + 8"
    by simp_all
  with run j events show ?thesis
    by (intro exI [of _ out] exI [of _ l'] exI [of _ n] exI [of _ j])
      (simp add: Let_def L_def flip: us_def)
qed


theorem mtp1_round_trip_witness:
  "\<exists>out l' n j. let us = next_units n [ex_skb] [];
        sent = (\<lambda>i. length (concat (map (unit_line (cfg (ex_link 300 [ex_skb]))) (take i us))))
      in tx_run (int 16) 2 (ex_link 300 [ex_skb]) = Some (out, l') \<and> length out = 2 * 16 \<and> j < length us \<and>
         events (wp_mtp1_rx_handler out (ex_link 300 [])) =
           concat (map (delivered (ex_reg 300)) (take j us)) \<and>
         sent j + 8 \<le> 8 * length out \<and> 8 * length out < sent (Suc j) + 8"
  using mtp1_round_trip [of "ex_link 300 [ex_skb]" 16 2 "ex_link 300 []"] ex_fresh ex_skb_good
  by (simp add: su_fits_def width_def)




text \<open>
  C30. Damage is not delivered as data: a unit that passes the check sum, with one octet
  changed on the way, is handed over with the CRC error bit, after a SUERM error.
\<close>

theorem mtp1_damaged_octet:
  assumes "hdlc_bit_endian (cfg l) = WP_MTP1_HDLC_BIT_0_FIRST" "state_daedr l = INIT"
    and "fcs_check crc_tss_rev_step (p @ a # q) = 0xf0b8" "a \<noteq> b"
    and "2 \<le> length p + length q" "length p + length q \<le> unat (max_mru (cfg l))"
      "length p + length q < 8192"
    and "concat (map (line_bits (hdlc_op_mode (cfg l))) vs) =
      flag_bits @ stuff 0 (bits8s (p @ b # q)) @ flag_bits"
  shows "events (wp_mtp1_rx_handler vs l) = events l @
    (if has_rx_suerm (reg l) then [Rx_Suerm] else []) @
    (if has_rx_data (reg l) then [Rx_Data (p @ b # q) (push_bit WP_MTP1_CRC_ERROR_BIT 1)] else [])"
proof -
  let ?s = "stuff 0 (bits8s (p @ b # q))"
  have bad: "fcs_check crc_tss_rev_step (p @ b # q) \<noteq> 0xf0b8"
    using mtp1_fcs.damaged_octet_caught [OF assms(3)] assms(4) by simp
  have line: "concat (map (line_bits (hdlc_op_mode (cfg l))) vs) =
      flag_bits @ concat (map (\<lambda>s. s @ flag_bits) [?s]) @ take 0 ([] @ flag_bits)"
    using assms(8) by simp
  have "events (wp_mtp1_rx_handler vs l) = events l @ concat (map (unit_ev (reg l)) [?s])"
    using rx_line [OF assms(1,2) line] assms(6,7) calm_stuff [of 0 "bits8s (p @ b # q)"]
      unstuff_stuff [of 0 "bits8s (p @ b # q)"] by (simp add: Let_def)
  then show ?thesis
    using bad assms(5)
    by (simp add: unit_ev_octets suerm_ev_def accept_ev_def WP_MTP1_CRC_ERROR_BIT_def del: bits8s_simps)
qed

theorem mtp1_damaged_octet_witness:
  "events (wp_mtp1_rx_handler [0x7e, 1, 2, 7, 0x3b, 0x9d, 0x7e] (ex_link 300 [])) =
     [Rx_Suerm, Rx_Data [1, 2, 7, 0x3b, 0x9d] 2]"
proof -
  have "fcs_check crc_tss_rev_step ([1, 2] @ 3 # [0x3b, 0x9d]) = 0xf0b8"
    by code_simp
  moreover have "concat (map (line_bits WP_MTP1_HDLC_8BIT) [0x7e, 1, 2, 7, 0x3b, 0x9d, 0x7e]) =
      flag_bits @ stuff 0 (bits8s ([1, 2] @ 7 # [0x3b, 0x9d])) @ flag_bits"
    by code_simp
  ultimately show ?thesis
    using mtp1_damaged_octet [of "ex_link 300 []" "[1, 2]" 3 "[0x3b, 0x9d]" 7
        "[0x7e, 1, 2, 7, 0x3b, 0x9d, 0x7e]"]
    by (simp add: ex_reg_def WP_MTP1_CRC_ERROR_BIT_def)
qed

text \<open>
  C18. The handler puts the queue on the line: every call returns, and the octets of
  \<open>k\<close> calls, followed by what is still in the buffer, are the units of the queue in
  order, each after a flag, then the last buffer of the repeat queue again and again or
  flags. No bit is lost or doubled where the buffer is moved to its start, on 64 and on
  56 kb/s links.
\<close>

theorem mtp1_tx_line:
  assumes "fresh_tx l" "mtu \<le> 10000"
    and "\<forall>s \<in> set (tx_q (tbs l)) \<union> set (tx_r_q (tbs l)).
      su_fits (hdlc_op_mode (cfg l)) mtu (length (skb_data s))"
  shows "\<exists>n out l'. tx_run (int mtu) k l = Some (out, l') \<and> length out = k * mtu \<and>
    concat (map (line_bits (hdlc_op_mode (cfg l))) out) @ tbs_stream (hdlc_op_mode (cfg l)) (tbs l') =
      concat (map (unit_line (cfg l)) (next_units n (tx_q (tbs l)) (tx_r_q (tbs l))))"
proof -
  obtain B where B: "line_bound B l"
    "width (hdlc_op_mode (cfg l)) * mtu + B < width (hdlc_op_mode (cfg l)) * 10240"
    using line_bound_fits [of l mtu] assms(2,3) by blast
  from tx_run_line [OF fresh_tx_ok(1) [OF assms(1)] B, of k] show ?thesis
    unfolding fresh_tx_ok(2) [OF assms(1)] append_Nil by metis
qed

theorem mtp1_tx_line_witness:
  "\<exists>n out l'. tx_run (int 16) 3 (ex_link 300 [ex_skb]) = Some (out, l') \<and> length out = 3 * 16 \<and>
    concat (map (line_bits WP_MTP1_HDLC_8BIT) out) @ tbs_stream WP_MTP1_HDLC_8BIT (tbs l') =
      concat (map (unit_line (reg_cfg (ex_reg 300))) (next_units n [ex_skb] []))"
  using mtp1_tx_line [of "ex_link 300 [ex_skb]" 16 3] ex_fresh
  by (simp add: su_fits_def width_def)

text \<open>
  C37. No buffer is lost and none is released twice: the handler keeps the buffers of the
  three queues as a multiset, a full queue takes nothing, \<open>wp_mtp1_poll\<close> frees at most
  200 of them and \<open>wp_mtp1_free\<close> all.
\<close>

theorem mtp1_buffers_kept:
  "(case wp_mtp1_tx_bh_handler mtu l of None \<Rightarrow> True | Some (vs, l1) \<Rightarrow> bufs (tbs l1) = bufs (tbs l)) \<and>
   (case wp_mtp1_tx_data s rs l of (full, l2) \<Rightarrow>
      if full then l2 = l
      else bufs (tbs l2) = bufs (tbs l) + {#with_csum s#} +
        (case rs of None \<Rightarrow> {#} | Some r \<Rightarrow> {#with_csum r#})) \<and>
   (case wp_mtp1_poll l of (freed, l3) \<Rightarrow>
      bufs (tbs l) = mset freed + bufs (tbs l3) \<and> length freed \<le> 200) \<and>
   (case wp_mtp1_free l of (l4, freed) \<Rightarrow> mset freed = bufs (tbs l) \<and> bufs (tbs l4) = {#})"
  using bufs_handler [of mtu l] poll_loop_split [of 0 "tx_q_dealloc (tbs l)"]
  by (auto simp: wp_mtp1_tx_data_def wp_mtp1_poll_def wp_mtp1_free_def bufs_def Let_def emit_def
      split: if_splits option.splits prod.splits)

text \<open>
  The receive buffer is one octet too short: with the largest \<open>max_mru\<close> that
  registration admits, a unit of 8193 octets makes the receiver store at index 8192 of
  \<open>rx_buf\<close>, whose last index is 8191. The test before the store,
  \<open>rx_buf_len > max_mru\<close>, comes one octet late.
\<close>

theorem mtp1_overlong_unit:
  assumes reg: "wp_mtp1_register True g r = (g', r', Some l)"
    and mru: "RX_BUF_SIZE \<le> max_mru (reg_cfg r)"
    and cfg: "hdlc_op_mode (reg_cfg r) = WP_MTP1_HDLC_8BIT"
      "hdlc_bit_endian (reg_cfg r) = WP_MTP1_HDLC_BIT_0_FIRST"
  shows "rx_fault (wp_mtp1_rx_handler (0x7e # replicate 8194 0) l)"
proof -
  have l: "state_daedr l = INIT" "max_mru (cfg l) = RX_BUF_SIZE"
    "hdlc_op_mode (cfg l) = WP_MTP1_HDLC_8BIT" "hdlc_bit_endian (cfg l) = WP_MTP1_HDLC_BIT_0_FIRST"
    using reg mru cfg by (auto simp: wp_mtp1_register_def Let_def not_less split: if_splits)
  define N :: nat where "N = 8 * 8193 - 1"
  have b0: "bits8 0 = replicate 8 False" by (simp add: bits8_eq numeral_eq_Suc)
  have "concat (map (line_bits (hdlc_op_mode (cfg l))) (0x7e # replicate 8194 0)) =
      flag_bits @ replicate (8194 * 8) False"
    by (simp add: l line_bits_def flag_bits_octet b0 concat_replicate_same map_replicate)
  also have "replicate (8194 * 8) False = replicate 8 False @ replicate N False @ [False]"
    by (simp add: N_def replicate_add [symmetric] replicate_append_same flip: replicate_Suc)
  finally have line: "concat (map (line_bits (hdlc_op_mode (cfg l))) (0x7e # replicate 8194 0)) =
      flag_bits @ replicate 8 False @ replicate N False @ [False]" .
  let ?l1 = "rx_bits flag_bits l" let ?l2 = "rx_bits (replicate 8 False) ?l1"
  let ?l3 = "rx_bits (replicate N False) ?l2"
  have 1: "after_flag ?l1" "same_env l ?l1"
    using rx_bits_init [OF l(1)] by (simp_all add: Let_def)
  have 2: "in_unit 0 ([], []) ?l2" "r_flag_accum ?l2 = 0" "same_env ?l1 ?l2"
    using rx_after_flag [OF 1(1), of "replicate 8 False"] acc_zero [of 8]
    by (simp_all add: Let_def numeral_eq_Suc)
  let ?u = "su_pushes ([], []) (replicate N False)"
  have u: "length (fst ?u) = 8192" "length (snd ?u) = 7"
    using su_pushes_count [of "([], [])" "replicate N False"] by (simp_all add: N_def, arith+)
  have "fits (length (fst ?u)) ?l2"
    using l(2) 1(2) 2(3) by (simp add: u fits_def same_env_def RX_BUF_SIZE_def)
  from rx_zeros [OF 2(1,2) this] have 3: "in_unit 0 ?u ?l3" "same_env ?l2 ?l3"
    "r_flag_accum ?l3 = 0" by (simp_all add: Let_def)
  have "rx_fault (rx_bits [False] ?l3)"
    using rx_store_beyond [of "fst ?u" "snd ?u" ?l3] 3 u l(2) 1(2) 2(3) by (simp add: same_env_def)
  then show ?thesis
    unfolding rx_handler_bits [OF l(4)] line by simp
qed

theorem mtp1_overlong_unit_witness:
  "rx_fault (wp_mtp1_rx_handler (0x7e # replicate 8194 0) (ex_link RX_BUF_SIZE []))"
  by (rule mtp1_overlong_unit [OF ex_link_registered]) (simp_all add: RX_BUF_SIZE_def)

text \<open>
  After an abort on the line the receiver spoils good units: \<open>r_octet_bit_count\<close> is
  the bit counter of the octet being assembled and of octet counting mode, which an
  abort starts and nothing but \<open>INIT\<close> ends. The same good unit is delivered before
  an abort and garbled after it, with six octets instead of three.
\<close>

theorem mtp1_abort_garbles:
  "events (wp_mtp1_rx_handler [0x7e, 9, 0xb9, 0x6d, 0x7e] (ex_link 300 [])) =
     [Rx_Data [9, 0xb9, 0x6d] 0] \<and>
   events (wp_mtp1_rx_handler [0x7e, 0xfe, 0x7e, 9, 0xb9, 0x6d, 0x7e] (ex_link 300 [])) =
     [Rx_Suerm, Rx_Suerm, Rx_Suerm, Rx_Data [144, 0, 144, 176, 208, 96] 2]"
proof
  show "events (wp_mtp1_rx_handler [0x7e, 9, 0xb9, 0x6d, 0x7e] (ex_link 300 [])) =
     [Rx_Data [9, 0xb9, 0x6d] 0]" by code_simp
  show "events (wp_mtp1_rx_handler [0x7e, 0xfe, 0x7e, 9, 0xb9, 0x6d, 0x7e] (ex_link 300 [])) =
     [Rx_Suerm, Rx_Suerm, Rx_Suerm, Rx_Data [144, 0, 144, 176, 208, 96] 2]" by code_simp
qed

end
