(* ===== verification/Hdlc_Engine.thy ===== *)
theory Hdlc_Engine
  imports Crc Bitstream
begin

unbundle bit_operations_syntax

text \<open>
  The HDLC engine of the LIP layer, lip_hdlc/wanpipe_hdlc_eng.c and the types, macros
  and initialisers of lip_hdlc/wanpipe_lip_hdlc.h. The decoder finds flags in a bit
  stream, removes inserted zeros, assembles octets and keeps the last three values of
  the check sum; the encoder does the reverse and remembers by how many bits the last
  flag was shifted. Calls of \<open>hdlc_data\<close> are recorded in \<open>packets_up\<close>; the
  fields \<open>dec_fault\<close> and \<open>enc_fault\<close> record accesses outside an array.
\<close>

section \<open>Types and macros\<close>

definition MAX_SOCK_CRC_QUEUE :: int where "MAX_SOCK_CRC_QUEUE = 3"
definition MAX_SOCK_HDLC_BUF :: u32 where "MAX_SOCK_HDLC_BUF = 10000"
definition HDLC_ENG_BUF_LEN :: u32 where "HDLC_ENG_BUF_LEN = 10000"
definition BITSINBYTE :: u8 where "BITSINBYTE = 8"
definition NO_FLAG :: nat where "NO_FLAG = 0"
definition OPEN_FLAG :: nat where "OPEN_FLAG = 1"
definition CLOSING_FLAG :: nat where "CLOSING_FLAG = 2"

definition INC_CRC_CNT :: "int \<Rightarrow> int" where
  "INC_CRC_CNT a = (if a + 1 \<ge> MAX_SOCK_CRC_QUEUE then 0 else a + 1)"

definition GET_FIN_CRC_CNT :: "int \<Rightarrow> int" where
  "GET_FIN_CRC_CNT a =
     (let a1 = (if a - 1 < 0 then MAX_SOCK_CRC_QUEUE - 1 else a - 1)
      in if a1 - 1 < 0 then MAX_SOCK_CRC_QUEUE - 1 else a1 - 1)"

definition FLIP_CRC :: "u16 \<Rightarrow> u16" where
  "FLIP_CRC a = push_bit 12 (a AND 0x000F) OR push_bit 4 (a AND 0x00F0) OR
     drop_bit 4 (a AND 0x0F00) OR drop_bit 12 (a AND 0xF000)"

definition DECODE_CRC :: "u16 \<Rightarrow> u16" where
  "DECODE_CRC a = push_bit 4 (NOT a AND 0x000F) OR drop_bit 4 (NOT a AND 0x00F0) OR
     push_bit 4 (NOT a AND 0x0F00) OR drop_bit 4 (NOT a AND 0xF000)"

definition set_flag :: "nat \<Rightarrow> u64 \<Rightarrow> u64" where
  "set_flag n w = w OR push_bit n 1"

record hdlc_stats =
  st_packets :: int
  st_errors :: int
  st_crc :: int
  st_abort :: int
  st_frame_overflow :: int

record hdlc_decoder =
  rx_decode_buf :: "u8 arr"
  rx_decode_len :: u32
  rx_decode_bit_cnt :: u8
  rx_decode_onecnt :: u8
  hdlc_flag :: u64
  rx_orig_crc :: u16
  rx_crc :: "u16 arr"
  crc_fin :: u16
  rx_crc_tmp :: u16
  crc_cur :: int
  crc_prv :: int
  dec_stats :: hdlc_stats
  packets_up :: "u8 list list"
  dec_fault :: bool

record hdlc_bkp =
  bk_flag_idle :: u8
  bk_flag_offset :: u8
  bk_decode_bit_cnt :: u8
  bk_flag_offset_data :: u8

record hdlc_encoder =
  tx_decode_buf :: "u8 arr"
  tx_decode_len :: u32
  tx_decode_bit_cnt :: u8
  tx_decode_onecnt :: u8
  tx_crc :: u16
  tx_flag :: u8
  tx_flag_offset :: u8
  tx_flag_offset_data :: u8
  tx_flag_idle :: u8
  tx_crc_fin :: u16
  tx_crc_tmp :: u16
  enc_bits_in_byte :: u8
  backup :: hdlc_bkp
  enc_stats :: hdlc_stats
  enc_fault :: bool

record hdlc_engine =
  decoder :: hdlc_decoder
  encoder :: hdlc_encoder
  seven_bit_hdlc :: bool
  eng_bits_in_byte :: u8
  has_hdlc_data :: bool

definition CRC_TABLE :: "u16 list" where "CRC_TABLE = init_crc"

definition FLAGS :: "u8 list" where
  "FLAGS = [0x7E, 0xFC, 0xF9, 0xF3, 0xE7, 0xCF, 0x9F, 0x3F]"

section \<open>Initialisation\<close>

definition init_hdlc_decoder :: "hdlc_decoder \<Rightarrow> hdlc_decoder" where
  "init_hdlc_decoder d =
     d\<lparr>hdlc_flag := set_flag NO_FLAG 0, rx_decode_len := 0,
       rx_decode_buf := (rx_decode_buf d)(0 := 0), rx_decode_bit_cnt := 0, rx_decode_onecnt := 0,
       rx_crc := ((rx_crc d)(0 := -1))(1 := -1, 2 := -1), crc_cur := 0, crc_prv := 0\<rparr>"

definition init_hdlc_encoder :: "hdlc_encoder \<Rightarrow> hdlc_encoder" where
  "init_hdlc_encoder c =
     c\<lparr>tx_crc := -1, enc_bits_in_byte := 8, tx_flag := 0x7E, tx_flag_idle := 0x7E\<rparr>"

definition zero_stats :: hdlc_stats where
  "zero_stats = \<lparr>st_packets = 0, st_errors = 0, st_crc = 0, st_abort = 0, st_frame_overflow = 0\<rparr>"

definition zero_decoder :: hdlc_decoder where
  "zero_decoder = \<lparr>rx_decode_buf = (\<lambda>_. 0), rx_decode_len = 0, rx_decode_bit_cnt = 0,
     rx_decode_onecnt = 0, hdlc_flag = 0, rx_orig_crc = 0, rx_crc = (\<lambda>_. 0), crc_fin = 0,
     rx_crc_tmp = 0, crc_cur = 0, crc_prv = 0, dec_stats = zero_stats, packets_up = [],
     dec_fault = False\<rparr>"

definition zero_encoder :: hdlc_encoder where
  "zero_encoder = \<lparr>tx_decode_buf = (\<lambda>_. 0), tx_decode_len = 0, tx_decode_bit_cnt = 0,
     tx_decode_onecnt = 0, tx_crc = 0, tx_flag = 0, tx_flag_offset = 0, tx_flag_offset_data = 0,
     tx_flag_idle = 0, tx_crc_fin = 0, tx_crc_tmp = 0, enc_bits_in_byte = 0,
     backup = \<lparr>bk_flag_idle = 0, bk_flag_offset = 0, bk_decode_bit_cnt = 0, bk_flag_offset_data = 0\<rparr>,
     enc_stats = zero_stats, enc_fault = False\<rparr>"

definition wanpipe_reg_hdlc_engine :: "bool \<Rightarrow> bool \<Rightarrow> hdlc_engine option" where
  "wanpipe_reg_hdlc_engine mem seven =
     (if \<not> mem then None
      else
        let bits = (if seven then 7 else 8);
            enc = (init_hdlc_encoder zero_encoder)\<lparr>enc_bits_in_byte := bits\<rparr>
        in Some \<lparr>decoder = init_hdlc_decoder zero_decoder, encoder = enc,
                 seven_bit_hdlc = seven, eng_bits_in_byte = bits, has_hdlc_data = False\<rparr>)"

section \<open>Check sums\<close>

definition crc_update :: "u16 \<Rightarrow> u8 \<Rightarrow> u16" where
  "crc_update crc v =
     ((drop_bit 8 crc AND 0x00FF) XOR (CRC_TABLE ! unat ((ucast v XOR crc) AND 0xFF))) AND 0xFFFF"

definition calc_rx_crc :: "hdlc_decoder \<Rightarrow> hdlc_decoder" where
  "calc_rx_crc d =
     (let v = rx_decode_buf d (unat (rx_decode_len d));
          cur = INC_CRC_CNT (crc_cur d);
          prv = rx_crc d (nat (crc_prv d))
      in d\<lparr>crc_cur := cur,
           rx_orig_crc := (push_bit 8 (rx_orig_crc d) AND 0xFF00) OR ucast v,
           rx_crc_tmp := (ucast v XOR prv) AND 0xFF,
           rx_crc := (rx_crc d)(nat cur := crc_update prv v),
           crc_prv := INC_CRC_CNT (crc_prv d),
           dec_fault := (dec_fault d \<or> rx_decode_len d \<ge> MAX_SOCK_HDLC_BUF)\<rparr>)"

definition calc_tx_crc :: "u8 \<Rightarrow> hdlc_encoder \<Rightarrow> hdlc_encoder" where
  "calc_tx_crc v c =
     c\<lparr>tx_crc_tmp := (ucast v XOR tx_crc c) AND 0xFF, tx_crc := crc_update (tx_crc c) v\<rparr>"

section \<open>The decoder\<close>

definition dec_store :: "u8 \<Rightarrow> hdlc_decoder \<Rightarrow> hdlc_decoder" where
  "dec_store v d =
     (if rx_decode_len d < MAX_SOCK_HDLC_BUF
      then d\<lparr>rx_decode_buf := (rx_decode_buf d)(unat (rx_decode_len d) := v)\<rparr>
      else d\<lparr>dec_fault := True\<rparr>)"

abbreviation dec_stat :: "(hdlc_stats \<Rightarrow> hdlc_stats) \<Rightarrow> hdlc_decoder \<Rightarrow> hdlc_decoder" where
  "dec_stat f d \<equiv> d\<lparr>dec_stats := f (dec_stats d)\<rparr>"

definition count_overflow :: "hdlc_stats \<Rightarrow> hdlc_stats" where
  "count_overflow s = s\<lparr>st_errors := st_errors s + 1, st_frame_overflow := st_frame_overflow s + 1\<rparr>"

text \<open>The end of a bit that was kept, common to both kinds of bits.\<close>

definition dec_next_bit :: "hdlc_decoder \<Rightarrow> hdlc_decoder" where
  "dec_next_bit d =
     (let d1 = d\<lparr>rx_decode_bit_cnt := rx_decode_bit_cnt d + 1\<rparr>
      in if rx_decode_bit_cnt d1 \<ge> BITSINBYTE then
           let d2 = calc_rx_crc d1;
               d3 = d2\<lparr>rx_decode_len := rx_decode_len d2 + 1\<rparr>
           in if rx_decode_len d3 > MAX_SOCK_HDLC_BUF
              then init_hdlc_decoder (dec_stat count_overflow d3)
              else (dec_store 0 d3)
                     \<lparr>rx_decode_bit_cnt := 0, hdlc_flag := set_flag CLOSING_FLAG 0\<rparr>
         else d1)"

definition dec_one :: "hdlc_decoder \<Rightarrow> hdlc_decoder" where
  "dec_one d =
     (let d1 = d\<lparr>rx_decode_onecnt := rx_decode_onecnt d + 1\<rparr>
      in if \<not> bit (hdlc_flag d1) NO_FLAG then
           dec_next_bit
             (dec_store (rx_decode_buf d1 (unat (rx_decode_len d1)) OR
                           push_bit (unat (rx_decode_bit_cnt d1)) 1) d1)
         else d1)"

text \<open>The closing flag of a packet; the result says whether a packet went up.\<close>

definition dec_close :: "bool \<Rightarrow> hdlc_decoder \<Rightarrow> bool \<times> hdlc_decoder" where
  "dec_close up d =
     (let d1 = d\<lparr>hdlc_flag := set_flag OPEN_FLAG 0\<rparr>
      in if rx_decode_len d1 \<ge> 3 then
           let cur = GET_FIN_CRC_CNT (crc_cur d1);
               fin = DECODE_CRC (FLIP_CRC (rx_crc d1 (nat cur)));
               d2 = d1\<lparr>crc_cur := cur, crc_fin := fin\<rparr>
           in if crc_fin d2 = rx_orig_crc d2 then
                let d3 = dec_stat (\<lambda>s. s\<lparr>st_packets := st_packets s + 1\<rparr>) d2
                in (True,
                    if up then d3\<lparr>packets_up := packets_up d3 @
                                 [arr_take (unat (rx_decode_len d3)) (rx_decode_buf d3)]\<rparr>
                    else d3)
              else (False, init_hdlc_decoder
                      (dec_stat (\<lambda>s. s\<lparr>st_errors := st_errors s + 1, st_crc := st_crc s + 1\<rparr>) d2))
         else (False,
               dec_stat (\<lambda>s. s\<lparr>st_errors := st_errors s + 1, st_abort := st_abort s + 1\<rparr>) d1))"

definition dec_after_flag :: "hdlc_decoder \<Rightarrow> hdlc_decoder" where
  "dec_after_flag d =
     d\<lparr>rx_decode_len := 0, rx_decode_buf := (rx_decode_buf d)(0 := 0), rx_decode_bit_cnt := 0,
       rx_crc := ((rx_crc d)(0 := -1))(1 := -1, 2 := -1), crc_cur := 0, crc_prv := 0\<rparr>"

definition dec_zero :: "bool \<Rightarrow> hdlc_decoder \<Rightarrow> bool \<times> hdlc_decoder" where
  "dec_zero up d =
     (let (got, d1) =
        (if rx_decode_onecnt d = 5 then (False, d)
         else if rx_decode_onecnt d = 6 then
           let (got, d1) =
             (if bit (hdlc_flag d) CLOSING_FLAG then dec_close up d
              else if bit (hdlc_flag d) NO_FLAG then (False, d\<lparr>hdlc_flag := set_flag OPEN_FLAG 0\<rparr>)
              else (False, d))
           in (got, dec_after_flag d1)
         else if \<not> bit (hdlc_flag d) NO_FLAG then (False, dec_next_bit d)
         else (False, d))
      in (got, d1\<lparr>rx_decode_onecnt := 0\<rparr>))"

definition dec_bit :: "bool \<Rightarrow> bool \<Rightarrow> bool \<times> hdlc_decoder \<Rightarrow> bool \<times> hdlc_decoder" where
  "dec_bit up b s =
     (if b then (fst s, dec_one (snd s))
      else (let (got, d) = dec_zero up (snd s) in (fst s \<or> got, d)))"

definition decode_byte :: "bool \<Rightarrow> bool \<Rightarrow> u8 \<Rightarrow> hdlc_decoder \<Rightarrow> bool \<times> hdlc_decoder" where
  "decode_byte seven up v d =
     fold (\<lambda>i s. if seven \<and> i = 7 then s else dec_bit up (v AND push_bit i 1 \<noteq> 0) s)
       [0, 1, 2, 3, 4, 5, 6, 7] (False, d)"

text \<open>The result is \<open>gotdata\<close>.\<close>

definition wanpipe_hdlc_decode :: "u8 list \<Rightarrow> hdlc_engine \<Rightarrow> bool \<times> hdlc_engine" where
  "wanpipe_hdlc_decode buf e =
     (let (got, d) = fold (\<lambda>v (got, d).
            let (g, d1) = decode_byte (seven_bit_hdlc e) (has_hdlc_data e) v d in (got \<or> g, d1))
            buf (False, decoder e)
      in (got, e\<lparr>decoder :=
           (if rx_decode_len d \<ge> HDLC_ENG_BUF_LEN - 1
            then init_hdlc_decoder (dec_stat count_overflow d) else d)\<rparr>))"

section \<open>The encoder\<close>

definition enc_next_bit :: "hdlc_encoder \<Rightarrow> hdlc_encoder" where
  "enc_next_bit c =
     (let c1 = c\<lparr>tx_decode_bit_cnt := tx_decode_bit_cnt c + 1\<rparr>
      in if tx_decode_bit_cnt c1 \<ge> enc_bits_in_byte c1 then
           let c2 = c1\<lparr>tx_decode_len := tx_decode_len c1 + 1\<rparr>
           in (if tx_decode_len c2 < HDLC_ENG_BUF_LEN
               then c2\<lparr>tx_decode_buf := (tx_decode_buf c2)(unat (tx_decode_len c2) := 0)\<rparr>
               else c2\<lparr>enc_fault := True\<rparr>)\<lparr>tx_decode_bit_cnt := 0\<rparr>
         else c1)"

definition enc_one :: "bool \<Rightarrow> hdlc_encoder \<Rightarrow> hdlc_encoder" where
  "enc_one stuffing c =
     (let n = unat (tx_decode_len c);
          c1 = (if tx_decode_len c < HDLC_ENG_BUF_LEN
                then c\<lparr>tx_decode_buf := (tx_decode_buf c)
                         (n := tx_decode_buf c n OR push_bit (unat (tx_decode_bit_cnt c)) 1)\<rparr>
                else c\<lparr>enc_fault := True\<rparr>);
          c2 = enc_next_bit c1;
          c3 = c2\<lparr>tx_decode_onecnt := tx_decode_onecnt c2 + 1\<rparr>
      in if tx_decode_onecnt c3 = 5
         then (if stuffing then enc_next_bit c3 else c3)\<lparr>tx_decode_onecnt := 0\<rparr>
         else c3)"

definition enc_zero :: "hdlc_encoder \<Rightarrow> hdlc_encoder" where
  "enc_zero c = enc_next_bit (c\<lparr>tx_decode_onecnt := 0\<rparr>)"

definition encode_byte :: "u8 \<Rightarrow> nat \<Rightarrow> hdlc_encoder \<Rightarrow> hdlc_encoder" where
  "encode_byte v flag c =
     (let c1 = fold (\<lambda>j. if v AND push_bit j 1 \<noteq> 0 then enc_one (flag = 0) else enc_zero)
                 [0, 1, 2, 3, 4, 5, 6, 7] c
      in if flag = 1 then
           c1\<lparr>tx_flag_idle := FLAGS ! unat (tx_decode_bit_cnt c1),
              tx_flag_offset := tx_decode_bit_cnt c1,
              tx_flag_offset_data := tx_decode_buf c1 (unat (tx_decode_len c1)),
              enc_fault := (enc_fault c1 \<or> tx_decode_len c1 \<ge> HDLC_ENG_BUF_LEN)\<rparr>
         else c1)"

definition wanpipe_hdlc_bkp :: "hdlc_engine \<Rightarrow> hdlc_engine" where
  "wanpipe_hdlc_bkp e =
     (let c = encoder e
      in e\<lparr>encoder := c\<lparr>backup :=
           \<lparr>bk_flag_idle = tx_flag_idle c, bk_flag_offset = tx_flag_offset c,
            bk_decode_bit_cnt = tx_decode_bit_cnt c, bk_flag_offset_data = tx_flag_offset_data c\<rparr>\<rparr>\<rparr>)"

definition wanpipe_hdlc_restore :: "hdlc_engine \<Rightarrow> hdlc_engine" where
  "wanpipe_hdlc_restore e =
     (let c = encoder e; b = backup c
      in e\<lparr>encoder := c\<lparr>tx_flag_idle := bk_flag_idle b, tx_flag_offset := bk_flag_offset b,
           tx_decode_bit_cnt := bk_decode_bit_cnt b,
           tx_flag_offset_data := bk_flag_offset_data b\<rparr>\<rparr>)"

definition enc_start :: "hdlc_encoder \<Rightarrow> hdlc_encoder" where
  "enc_start c =
     c\<lparr>tx_decode_len := 0, tx_crc := -1, tx_crc_fin := 0, tx_decode_onecnt := 0,
       tx_decode_buf := (\<lambda>i. if i < 3 then 0 else tx_decode_buf c i), tx_decode_bit_cnt := 0\<rparr>"

definition wanpipe_hdlc_encode_idle :: "nat \<Rightarrow> hdlc_engine \<Rightarrow> u8 list \<times> hdlc_engine" where
  "wanpipe_hdlc_encode_idle usr_len e =
     (let c = fold (\<lambda>_ c. encode_byte (tx_flag_idle c) 2 c) [0..<usr_len] (enc_start (encoder e))
      in (arr_take usr_len (tx_decode_buf c), e\<lparr>encoder := c\<rparr>))"

text \<open>The padding loop: \<open>n\<close> is \<open>maxpad\<close>.\<close>

function enc_pad :: "nat \<Rightarrow> hdlc_encoder \<Rightarrow> hdlc_encoder" where
  "enc_pad n c =
     (if tx_decode_len c mod 4 \<noteq> 0 \<and> \<not> Suc n > 7
      then enc_pad (Suc n) (encode_byte (tx_flag_idle c) 2 c) else c)"
  by auto
termination by (relation "measure (\<lambda>(n, c). 7 - n)") auto

declare enc_pad.simps [simp del]

definition enc_lead :: "hdlc_engine \<Rightarrow> hdlc_encoder" where
  "enc_lead e =
     (let c1 = enc_start (encoder e);
          c2 = encode_byte (tx_flag_idle c1) 2 c1;
          c3 = encode_byte (tx_flag_idle c2) 2 c2;
          c4 = encode_byte (tx_flag_offset_data c3) 2 c3;
          c5 = (if \<not> seven_bit_hdlc e \<or> tx_flag_offset c4 < 5
                then c4\<lparr>tx_decode_len := tx_decode_len c4 - 1\<rparr> else c4)
      in c5\<lparr>tx_decode_bit_cnt :=
              (if seven_bit_hdlc e then (tx_flag_offset c5 + 2) mod eng_bits_in_byte e
               else tx_flag_offset c5),
            tx_decode_onecnt := 0\<rparr>)"

text \<open>
  The result: the octets of \<open>hdlc_data\<close>, \<open>next_idle\<close> and the engine. The size of the
  caller's buffer, \<open>*hdlc_len\<close> on entry, is read and not used.
\<close>

definition wanpipe_hdlc_encode :: "u8 list \<Rightarrow> hdlc_engine \<Rightarrow> u8 list \<times> u8 \<times> hdlc_engine" where
  "wanpipe_hdlc_encode usr_data e =
     (let c1 = fold (\<lambda>v c. encode_byte v 0 (calc_tx_crc v c)) usr_data (enc_lead e);
          c2 = c1\<lparr>tx_crc_fin := DECODE_CRC (FLIP_CRC (tx_crc c1))\<rparr>;
          c3 = encode_byte (ucast (drop_bit 8 (tx_crc_fin c2) AND 0xFF)) 0 c2;
          c4 = encode_byte (ucast (tx_crc_fin c3 AND 0xFF)) 0 c3;
          c5 = encode_byte (tx_flag c4) 1 c4;
          c6 = enc_pad 0 c5
      in (arr_take (unat (tx_decode_len c6)) (tx_decode_buf c6), tx_flag_idle c6,
          e\<lparr>encoder := c6\<lparr>tx_decode_len := 0\<rparr>\<rparr>))"

section \<open>Counters\<close>

definition wanpipe_get_rx_hdlc_packets :: "hdlc_engine \<Rightarrow> int" where
  "wanpipe_get_rx_hdlc_packets e = st_packets (dec_stats (decoder e))"

definition wanpipe_get_rx_hdlc_errors :: "hdlc_engine \<Rightarrow> int" where
  "wanpipe_get_rx_hdlc_errors e = st_errors (dec_stats (decoder e))"

definition wanpipe_get_tx_hdlc_packets :: "hdlc_engine \<Rightarrow> int" where
  "wanpipe_get_tx_hdlc_packets e = st_packets (enc_stats (encoder e))"

definition wanpipe_get_tx_hdlc_errors :: "hdlc_engine \<Rightarrow> int" where
  "wanpipe_get_tx_hdlc_errors e = st_errors (enc_stats (encoder e))"

end
