(* ===== verification/Hdlc_Decode.thy ===== *)
theory Hdlc_Decode
  imports Hdlc_Engine
begin

unbundle bit_operations_syntax

text \<open>
  The HDLC decoder against a machine on bits: \<open>hstep\<close> keeps whether a flag was seen,
  the octets and bits of the current packet and the number of ones in a row, and
  nothing else. \<open>views\<close> says which machine state a decoder is in, and \<open>decode_views\<close>
  is the refinement: one call of \<open>wanpipe_hdlc_decode\<close> delivers what the machine
  delivers for the same bits.
\<close>

section \<open>The check sum\<close>

lemma crc_update_step: "crc_update = crc_tss_rev_step"
proof (intro ext)
  fix c :: u16 and v
  have ff: "0xFF = (mask 8 :: u16)" "0xFFFF = (mask 16 :: u16)"
    by (simp_all add: mask_eq_decr_exp)
  have "drop_bit 8 c AND 0x00FF = drop_bit 8 c"
    unfolding ff by (rule bit_word_eqI) (auto simp: bit_simps dest: bit_imp_le_length)
  moreover have "w AND 0xFFFF = w" for w :: u16
    unfolding ff by (rule bit_word_eqI) (auto simp: bit_simps)
  ultimately show "crc_update c v = crc_tss_rev_step c v"
    by (simp add: crc_update_def crc_tss_rev_step_def CRC_TABLE_def init_crc_table xor.commute)
qed

interpretation hdlc_fcs: fcs16 crc_update
  unfolding crc_update_step by (rule mtp1_fcs.fcs16_axioms)

text \<open>The two macros together swap the octets of the complement.\<close>

lemma flip_decode: "DECODE_CRC (FLIP_CRC c) = push_bit 8 (NOT c) OR drop_bit 8 (NOT c)"
proof (rule bit_word_eqI)
  fix n assume "n < LENGTH(16)"
  then have "n \<in> {0, 1, 2, 3, 4, 5, 6, 7, 8, 9, 10, 11, 12, 13, 14, 15}" by (simp, arith)
  then show "bit (DECODE_CRC (FLIP_CRC c)) n = bit (push_bit 8 (NOT c) OR drop_bit 8 (NOT c)) n"
    by (elim insertE) (simp_all add: DECODE_CRC_def FLIP_CRC_def bit_simps)
qed

lemma swapped_octets:
  "push_bit 8 (NOT c) OR drop_bit 8 (NOT c) = push_bit 8 (ucast a) OR ucast b \<longleftrightarrow> [a, b] = fcs_octets c"
  for a b :: u8 and c :: u16
proof
  assume eq: "push_bit 8 (NOT c) OR drop_bit 8 (NOT c) = push_bit 8 (ucast a) OR ucast b"
  have "a = ucast (NOT c)"
  proof (rule bit_word_eqI)
    fix n assume "n < LENGTH(8)"
    with arg_cong [OF eq, of "\<lambda>w. bit w (n + 8)"] show "bit a n = bit (ucast (NOT c) :: u8) n"
      by (auto simp: bit_simps dest: bit_imp_le_length)
  qed
  moreover have "b = ucast (drop_bit 8 (NOT c))"
  proof (rule bit_word_eqI)
    fix n assume "n < LENGTH(8)"
    with arg_cong [OF eq, of "\<lambda>w. bit w n"] show "bit b n = bit (ucast (drop_bit 8 (NOT c)) :: u8) n"
      by (auto simp: bit_simps dest: bit_imp_le_length)
  qed
  ultimately show "[a, b] = fcs_octets c" by (simp add: fcs_octets_def)
next
  assume "[a, b] = fcs_octets c"
  then show "push_bit 8 (NOT c) OR drop_bit 8 (NOT c) = push_bit 8 (ucast a) OR ucast b"
    by (intro bit_word_eqI) (auto simp: fcs_octets_def bit_simps dest: bit_imp_le_length)
qed

section \<open>The decoder as a machine on bits\<close>

text \<open>
  \<open>crc_ok os\<close>: the last two octets are the frame check sequence of the others.
\<close>

definition crc_of :: "u8 list \<Rightarrow> u16" where
  "crc_of os = fcs_check crc_update os"

definition crc_ok :: "u8 list \<Rightarrow> bool" where
  "crc_ok os \<longleftrightarrow> drop (length os - 2) os = fcs_octets (crc_of (take (length os - 2) os))"

record hview =
  v_open :: bool
  v_unit :: "u8 list \<times> bool list"
  v_ones :: u8

text \<open>What one bit does to the view, and the packet that goes up, if any.\<close>

definition hstep :: "bool \<Rightarrow> hview \<Rightarrow> hview \<times> u8 list list" where
  "hstep b v =
     (let keep = v\<lparr>v_unit := (if v_open v then su_push b (v_unit v) else v_unit v)\<rparr>
      in if b then (keep\<lparr>v_ones := v_ones v + 1\<rparr>, [])
         else if v_ones v = 5 then (v\<lparr>v_ones := 0\<rparr>, [])
         else if v_ones v = 6 then
           (let os = fst (v_unit v);
                fail = v_open v \<and> 3 \<le> length os \<and> \<not> crc_ok os
            in (\<lparr>v_open = \<not> fail, v_unit = ([], []), v_ones = 0\<rparr>,
                if v_open v \<and> 3 \<le> length os \<and> crc_ok os then [os] else []))
         else (keep\<lparr>v_ones := 0\<rparr>, []))"

fun hrun :: "bool list \<Rightarrow> hview \<Rightarrow> hview \<times> u8 list list" where
  "hrun [] v = (v, [])"
| "hrun (b # bs) v =
     (let (v1, ps) = hstep b v; (v2, qs) = hrun bs v1 in (v2, ps @ qs))"

lemma hrun_append:
  "hrun (xs @ ys) v = (fst (hrun ys (fst (hrun xs v))), snd (hrun xs v) @ snd (hrun ys (fst (hrun xs v))))"
  by (induction xs arbitrary: v) (simp_all add: split_def Let_def)

definition hsize :: "hview \<Rightarrow> nat" where
  "hsize v = 8 * length (fst (v_unit v)) + length (snd (v_unit v))"

definition hwf :: "hview \<Rightarrow> bool" where
  "hwf v \<longleftrightarrow> length (snd (v_unit v)) < 8 \<and> (\<not> v_open v \<longrightarrow> v_unit v = ([], []))"

lemma hsize_step: "hsize (fst (hstep b v)) \<le> Suc (hsize v)"
  by (cases "v_unit v") (auto simp: hsize_def hstep_def Let_def)

lemma hwf_step: "hwf v \<Longrightarrow> hwf (fst (hstep b v))"
  by (cases "v_unit v") (auto simp: hwf_def hstep_def Let_def)

text \<open>
  \<open>hfits bs v\<close>: on the way through \<open>bs\<close> the current packet stays below 9998 octets,
  the part of the decode buffer in which no store is out of range.
\<close>

fun hfits :: "bool list \<Rightarrow> hview \<Rightarrow> bool" where
  "hfits [] v \<longleftrightarrow> hsize v < 79984"
| "hfits (b # bs) v \<longleftrightarrow> hsize v < 79984 \<and> hfits bs (fst (hstep b v))"

lemma hfits_start: "hfits bs v \<Longrightarrow> hsize v < 79984"
  by (cases bs) simp_all

lemma hfits_append: "hfits (xs @ ys) v \<longleftrightarrow> hfits xs v \<and> hfits ys (fst (hrun xs v))"
  by (induction xs arbitrary: v) (auto simp: split_def Let_def dest: hfits_start)

lemma hfits_length: "hsize v + length bs < 79984 \<Longrightarrow> hfits bs v"
proof (induction bs arbitrary: v)
  case (Cons b bs)
  then show ?case using hsize_step [of b v] by simp
qed simp

text \<open>The decoder state that a view describes.\<close>

definition crc_slots :: "u8 list \<Rightarrow> hdlc_decoder \<Rightarrow> bool" where
  "crc_slots os d \<longleftrightarrow>
     crc_cur d = int (length os mod 3) \<and> crc_prv d = int (length os mod 3) \<and>
     rx_crc d (length os mod 3) = crc_of os \<and>
     rx_crc d ((length os + 2) mod 3) = crc_of (take (length os - 1) os) \<and>
     rx_crc d ((length os + 1) mod 3) = crc_of (take (length os - 2) os) \<and>
     (os \<noteq> [] \<longrightarrow> rx_orig_crc d AND 0xFF = ucast (last os)) \<and>
     (2 \<le> length os \<longrightarrow> rx_orig_crc d = push_bit 8 (ucast (os ! (length os - 2))) OR ucast (last os))"

definition views :: "hview \<Rightarrow> hdlc_decoder \<Rightarrow> bool" where
  "views v d \<longleftrightarrow> hwf v \<and> \<not> dec_fault d \<and> rx_decode_onecnt d = v_ones v \<and>
     bit (hdlc_flag d) NO_FLAG = (\<not> v_open v) \<and>
     bit (hdlc_flag d) CLOSING_FLAG = (fst (v_unit v) \<noteq> []) \<and>
     unat (rx_decode_len d) = length (fst (v_unit v)) \<and>
     (v_open v \<longrightarrow>
        arr_take (length (fst (v_unit v))) (rx_decode_buf d) = fst (v_unit v) \<and>
        rx_decode_buf d (length (fst (v_unit v))) = octet_of (snd (v_unit v)) \<and>
        unat (rx_decode_bit_cnt d) = length (snd (v_unit v)) \<and>
        crc_slots (fst (v_unit v)) d)"

lemma crc_of_Nil [simp]: "crc_of [] = -1"
  by (simp add: crc_of_def fcs_check_def)

lemma crc_of_foldl: "crc_of os = foldl crc_update (-1) os"
proof -
  have "(0xffff :: u16) = -1" by simp
  then show ?thesis by (simp only: crc_of_def fcs_check_def)
qed

lemma crc_of_snoc: "crc_of (os @ [b]) = crc_update (crc_of os) b"
  by (simp add: crc_of_def fcs_check_def)

lemma octet_of_Nil [simp]: "octet_of [] = 0"
  by (simp add: octet_of_def)

lemma octet_of_snoc:
  assumes "length p < 8"
  shows "octet_of (p @ [b]) = octet_of p OR (if b then push_bit (length p) 1 else 0)"
proof (rule bit_word_eqI)
  fix n assume "n < LENGTH(8)"
  then show "bit (octet_of (p @ [b])) n = bit (octet_of p OR (if b then push_bit (length p) 1 else 0)) n"
    using assms by (auto simp: bit_octet_of bit_or_iff bit_exp_iff nth_append less_Suc_eq)
qed

lemma crc_slots_next:
  assumes "crc_slots os d" and v: "rx_decode_buf d (unat (rx_decode_len d)) = o8"
  shows "crc_slots (os @ [o8]) (calc_rx_crc d)"
proof -
  let ?n = "length os"
  have three: "?n mod 3 = 0 \<or> ?n mod 3 = 1 \<or> ?n mod 3 = 2" by arith
  have cnt: "INC_CRC_CNT (int (?n mod 3)) = int (Suc ?n mod 3)"
    using three by (auto simp: INC_CRC_CNT_def MAX_SOCK_CRC_QUEUE_def mod_Suc)
  have slots: "(length (os @ [o8]) + 2) mod 3 = ?n mod 3" "(length (os @ [o8]) + 1) mod 3 = (?n + 2) mod 3"
    by (simp only: length_append list.size, presburger)+
  have other: "?n mod 3 \<noteq> Suc ?n mod 3" "(?n + 2) mod 3 \<noteq> Suc ?n mod 3"
    by presburger+
  have orig: "((push_bit 8 w AND 0xFF00) OR ucast o8) AND 0xFF = ucast o8"
    "(push_bit 8 w AND 0xFF00) OR ucast o8 = push_bit 8 (w AND 0xFF) OR ucast o8" for w :: u16
  proof -
    have ff: "0xFF = (mask 8 :: u16)" "0xFF00 = (NOT (mask 8) :: u16)" by (simp_all add: mask_eq_decr_exp)
    show "((push_bit 8 w AND 0xFF00) OR ucast o8) AND 0xFF = ucast o8"
      "(push_bit 8 w AND 0xFF00) OR ucast o8 = push_bit 8 (w AND 0xFF) OR ucast o8"
      unfolding ff by (rule bit_word_eqI; auto simp: bit_simps dest: bit_imp_le_length)+
  qed
  have c: "crc_cur d = int (?n mod 3)" "crc_prv d = int (?n mod 3)" "rx_crc d (?n mod 3) = crc_of os"
      "rx_crc d ((?n + 2) mod 3) = crc_of (take (?n - 1) os)"
      "os \<noteq> [] \<Longrightarrow> rx_orig_crc d AND 0xFF = ucast (last os)"
    using assms(1) by (simp_all add: crc_slots_def)
  let ?d = "calc_rx_crc d"
  have f: "crc_cur ?d = int (Suc ?n mod 3)" "crc_prv ?d = int (Suc ?n mod 3)"
    "rx_crc ?d = (rx_crc d)(Suc ?n mod 3 := crc_update (crc_of os) o8)"
    "rx_orig_crc ?d = (push_bit 8 (rx_orig_crc d) AND 0xFF00) OR ucast o8"
    using cnt c v by (simp_all only: calc_rx_crc_def Let_def) simp_all
  have last: "(os @ [o8]) ! (length (os @ [o8]) - 2) = last os" if "2 \<le> length (os @ [o8])"
    using that by (cases os rule: rev_cases) (auto simp: nth_append)
  show ?thesis
    unfolding crc_slots_def f
  proof (intro conjI impI)
    show "int (Suc ?n mod 3) = int (length (os @ [o8]) mod 3)"
      "int (Suc ?n mod 3) = int (length (os @ [o8]) mod 3)" by simp_all
    show "((rx_crc d)(Suc ?n mod 3 := crc_update (crc_of os) o8)) (length (os @ [o8]) mod 3) =
        crc_of (os @ [o8])" by (simp add: crc_of_snoc)
    show "((push_bit 8 (rx_orig_crc d) AND 0xFF00) OR ucast o8) AND 0xFF = ucast (last (os @ [o8]))"
      unfolding orig(1) by simp
    show "((rx_crc d)(Suc ?n mod 3 := crc_update (crc_of os) o8)) ((length (os @ [o8]) + 2) mod 3) =
        crc_of (take (length (os @ [o8]) - 1) (os @ [o8]))"
      unfolding slots fun_upd_other [OF other(1)] c(3) by simp
    show "((rx_crc d)(Suc ?n mod 3 := crc_update (crc_of os) o8)) ((length (os @ [o8]) + 1) mod 3) =
        crc_of (take (length (os @ [o8]) - 2) (os @ [o8]))"
      unfolding slots fun_upd_other [OF other(2)] c(4) by simp
    assume two: "2 \<le> length (os @ [o8])"
    then have "os \<noteq> []" by auto
    then show "(push_bit 8 (rx_orig_crc d) AND 0xFF00) OR ucast o8 =
        push_bit 8 (ucast ((os @ [o8]) ! (length (os @ [o8]) - 2))) OR ucast (last (os @ [o8]))"
      unfolding orig(2) last [OF two] by (simp add: c(5))
  qed
qed

lemma views_keep:
  assumes d: "rx_decode_len d < 10000" "unat (rx_decode_len d) = length os" "Suc (length os) < 10000"
    and u: "arr_take (length os) (rx_decode_buf d) = os" "rx_decode_buf d (length os) = octet_of (p @ [b])"
      "unat (rx_decode_bit_cnt d) = length p" "length p < 8" "\<not> dec_fault d"
    and c: "crc_slots os d" "bit (hdlc_flag d) CLOSING_FLAG = (os \<noteq> [])" "\<not> bit (hdlc_flag d) NO_FLAG"
  shows "views \<lparr>v_open = True, v_unit = su_push b (os, p), v_ones = rx_decode_onecnt d\<rparr> (dec_next_bit d) \<and>
    packets_up (dec_next_bit d) = packets_up d"
proof -
  have cnt: "unat (rx_decode_bit_cnt d + 1) = Suc (length p)"
    using u(3,4) by (simp add: unat_inc8)
  let ?d1 = "d\<lparr>rx_decode_bit_cnt := rx_decode_bit_cnt d + 1\<rparr>"
  show ?thesis
  proof (cases "length p = 7")
    case False
    then have next1: "dec_next_bit d = ?d1"
      using cnt u(4) by (simp add: dec_next_bit_def BITSINBYTE_def word_le_nat_alt)
    have "crc_slots os ?d1" using c(1) by (simp add: crc_slots_def)
    then show ?thesis
      using False d u c cnt by (auto simp: next1 views_def hwf_def)
  next
    case True
    let ?o = "octet_of (p @ [b])"
    have v: "rx_decode_buf ?d1 (unat (rx_decode_len ?d1)) = ?o" using d(2) u(2) by simp
    have slots: "crc_slots (os @ [?o]) (calc_rx_crc ?d1)"
      by (rule crc_slots_next [OF _ v]) (use c(1) in \<open>simp add: crc_slots_def\<close>)
    have len: "unat (rx_decode_len d + 1) = Suc (length os)" using d by (simp add: unat_inc32)
    have small: "\<not> rx_decode_len d + 1 > MAX_SOCK_HDLC_BUF" "rx_decode_len d + 1 < MAX_SOCK_HDLC_BUF"
      "rx_decode_len d < MAX_SOCK_HDLC_BUF"
      using len d by (simp_all add: word_less_nat_alt MAX_SOCK_HDLC_BUF_def)
    let ?d2 = "(calc_rx_crc ?d1)\<lparr>rx_decode_len := rx_decode_len d + 1,
        rx_decode_buf := (rx_decode_buf d)(Suc (length os) := 0), rx_decode_bit_cnt := 0,
        hdlc_flag := set_flag CLOSING_FLAG 0\<rparr>"
    have next1: "dec_next_bit d = ?d2"
      using cnt True small len
      by (simp add: dec_next_bit_def Let_def BITSINBYTE_def word_le_nat_alt dec_store_def calc_rx_crc_def)
    have take: "arr_take (Suc (length os)) ((rx_decode_buf d)(Suc (length os) := 0)) = os @ [?o]"
      using u(1,2) by (simp add: arr_take_Suc)
    have "crc_slots (os @ [?o]) ?d2" using slots by (simp add: crc_slots_def)
    moreover have "bit (set_flag CLOSING_FLAG 0) CLOSING_FLAG" "\<not> bit (set_flag CLOSING_FLAG 0) NO_FLAG"
      by (simp_all add: set_flag_def CLOSING_FLAG_def NO_FLAG_def bit_push_bit_iff bit_1_iff)
    ultimately show ?thesis
      using True len take small u(5)
      by (simp add: next1 views_def hwf_def calc_rx_crc_def Let_def not_le)
  qed
qed

lemma flag_bits_of_word:
  "bit (set_flag i 0) j \<longleftrightarrow> i = j \<and> j < 64"
  by (auto simp: set_flag_def bit_exp_iff)

lemma after_flag_views:
  assumes "\<not> dec_fault d" "bit (hdlc_flag d) NO_FLAG = (\<not> opn)" "\<not> bit (hdlc_flag d) CLOSING_FLAG"
  shows "views \<lparr>v_open = opn, v_unit = ([], []), v_ones = 0\<rparr> ((dec_after_flag d)\<lparr>rx_decode_onecnt := 0\<rparr>)"
    and "packets_up ((dec_after_flag d)\<lparr>rx_decode_onecnt := 0\<rparr>) = packets_up d"
  using assms by (auto simp: views_def hwf_def dec_after_flag_def crc_slots_def)

lemma views_one:
  assumes v: "views v d" and small: "length (fst (v_unit v)) + 1 < 10000"
  shows "views (fst (hstep True v)) (dec_one d) \<and> packets_up (dec_one d) = packets_up d"
proof -
  obtain os p where u: "v_unit v = (os, p)" by (cases "v_unit v")
  let ?d1 = "d\<lparr>rx_decode_onecnt := rx_decode_onecnt d + 1\<rparr>"
  show ?thesis
  proof (cases "v_open v")
    case False
    then show ?thesis
      using v by (simp add: views_def dec_one_def hstep_def Let_def hwf_def)
  next
    case True
    have p: "length p < 8" and len: "unat (rx_decode_len d) = length os"
      and cur: "rx_decode_buf d (length os) = octet_of p" and cnt: "unat (rx_decode_bit_cnt d) = length p"
      and ones: "rx_decode_onecnt d = v_ones v"
      using v True by (auto simp: views_def hwf_def u)
    have lt: "rx_decode_len d < MAX_SOCK_HDLC_BUF"
      using len small by (simp add: u word_less_nat_alt MAX_SOCK_HDLC_BUF_def)
    let ?d2 = "?d1\<lparr>rx_decode_buf := (rx_decode_buf d)(length os := octet_of (p @ [True]))\<rparr>"
    have store: "dec_one d = dec_next_bit ?d2"
      using v True lt by (simp add: dec_one_def dec_store_def views_def u len cur cnt octet_of_snoc [OF p])
    have slots: "crc_slots os ?d2"
      using v True by (simp add: views_def u crc_slots_def)
    have "views \<lparr>v_open = True, v_unit = su_push True (os, p), v_ones = rx_decode_onecnt ?d2\<rparr> (dec_next_bit ?d2) \<and>
        packets_up (dec_next_bit ?d2) = packets_up ?d2"
      by (rule views_keep)
        (use v True small lt slots p in \<open>simp_all add: views_def u MAX_SOCK_HDLC_BUF_def\<close>)
    moreover have "fst (hstep True v) =
        \<lparr>v_open = True, v_unit = su_push True (os, p), v_ones = rx_decode_onecnt ?d2\<rparr>"
      using True ones by (simp add: hstep_def Let_def u)
    ultimately show ?thesis by (simp add: store)
  qed
qed

text \<open>The comparison of the stored check sum with the last two octets.\<close>

lemma closing_crc:
  assumes c: "crc_slots os d" and len: "3 \<le> length os"
  shows "DECODE_CRC (FLIP_CRC (rx_crc d (nat (GET_FIN_CRC_CNT (crc_cur d))))) = rx_orig_crc d \<longleftrightarrow> crc_ok os"
proof -
  let ?n = "length os"
  have three: "?n mod 3 = 0 \<or> ?n mod 3 = 1 \<or> ?n mod 3 = 2" by arith
  have fin: "nat (GET_FIN_CRC_CNT (int (?n mod 3))) = (?n + 1) mod 3"
    using three by (auto simp: GET_FIN_CRC_CNT_def MAX_SOCK_CRC_QUEUE_def mod_Suc)
  have val: "rx_crc d ((?n + 1) mod 3) = crc_of (take (?n - 2) os)"
    and orig: "rx_orig_crc d = push_bit 8 (ucast (os ! (?n - 2))) OR ucast (last os)"
    and cur: "crc_cur d = int (?n mod 3)"
    using c len by (simp_all add: crc_slots_def)
  have "drop (?n - 2) os = [os ! (?n - 2), last os]"
  proof -
    have "drop (?n - 2) os = os ! (?n - 2) # drop (Suc (?n - 2)) os"
      using len by (intro Cons_nth_drop_Suc [symmetric]) simp
    moreover have "drop (Suc (?n - 2)) os = [last os]"
      using len by (cases os rule: rev_cases) (auto simp: Suc_diff_le)
    ultimately show ?thesis by simp
  qed
  then show ?thesis
    unfolding cur fin val orig flip_decode swapped_octets crc_ok_def by (simp add: eq_commute)
qed

lemma views_zero:
  assumes v: "views v d" and small: "length (fst (v_unit v)) + 1 < 10000"
  shows "let (got, d') = dec_zero up d; (v', ps) = hstep False v
    in views v' d' \<and> got = (ps \<noteq> []) \<and> packets_up d' = packets_up d @ (if up then ps else [])"
proof -
  obtain os p where u: "v_unit v = (os, p)" by (cases "v_unit v")
  have ones: "rx_decode_onecnt d = v_ones v" and fl: "bit (hdlc_flag d) NO_FLAG = (\<not> v_open v)"
    and nf: "\<not> dec_fault d"
    using v by (simp_all add: views_def)
  consider (five) "v_ones v = 5" | (six) "v_ones v = 6" | (data) "v_ones v \<noteq> 5" "v_ones v \<noteq> 6" by blast
  then show ?thesis
  proof cases
    case five
    then show ?thesis
      using v by (auto simp: dec_zero_def hstep_def ones views_def hwf_def crc_slots_def)
  next
    case six
    have cl: "bit (hdlc_flag d) CLOSING_FLAG = (os \<noteq> [])"
      using v by (simp add: views_def u)
    have open1: "bit (set_flag OPEN_FLAG 0 :: u64) n = (n = 1)" "bit (set_flag NO_FLAG 0 :: u64) n = (n = 0)" for n
      by (auto simp: flag_bits_of_word OPEN_FLAG_def NO_FLAG_def)
    show ?thesis
    proof (cases "os = []")
      case True
      let ?d = "if v_open v then d else d\<lparr>hdlc_flag := set_flag OPEN_FLAG 0\<rparr>"
      have z: "dec_zero up d = (False, (dec_after_flag ?d)\<lparr>rx_decode_onecnt := 0\<rparr>)"
        using six ones cl fl True by (simp add: dec_zero_def)
      have "\<not> dec_fault ?d" "bit (hdlc_flag ?d) NO_FLAG = (\<not> True)" "\<not> bit (hdlc_flag ?d) CLOSING_FLAG"
        using nf fl cl True by (simp_all add: open1 NO_FLAG_def CLOSING_FLAG_def)
      from after_flag_views [OF this] show ?thesis
        using six by (simp add: z hstep_def u True Let_def)
    next
      case False
      then have op: "v_open v" using v by (auto simp: views_def hwf_def u)
      let ?d1 = "d\<lparr>hdlc_flag := set_flag OPEN_FLAG 0\<rparr>"
      obtain got d2 where close1: "dec_close up d = (got, d2)" by fastforce
      have z: "dec_zero up d = (got, (dec_after_flag d2)\<lparr>rx_decode_onecnt := 0\<rparr>)"
        using six ones cl False by (simp add: dec_zero_def close1)
      have len: "unat (rx_decode_len d) = length os" and buf: "arr_take (length os) (rx_decode_buf d) = os"
        and slots: "crc_slots os d"
        using v op by (simp_all add: views_def u)
      have l3: "rx_decode_len d \<ge> 3 \<longleftrightarrow> 3 \<le> length os" by (simp add: word_le_nat_alt len)
      let ?fail = "3 \<le> length os \<and> \<not> crc_ok os"
      have "\<not> dec_fault d2 \<and> bit (hdlc_flag d2) NO_FLAG = (\<not> (\<not> ?fail)) \<and> \<not> bit (hdlc_flag d2) CLOSING_FLAG \<and>
          got = (3 \<le> length os \<and> crc_ok os) \<and>
          packets_up d2 = packets_up d @ (if up \<and> 3 \<le> length os \<and> crc_ok os then [os] else [])"
        using close1 nf closing_crc [OF slots]
        by (auto simp: dec_close_def Let_def l3 flag_bits_of_word OPEN_FLAG_def NO_FLAG_def CLOSING_FLAG_def init_hdlc_decoder_def
            len buf split: if_splits)
      with after_flag_views [of d2 "\<not> ?fail"] show ?thesis
        using six op by (simp add: z hstep_def u Let_def)
    qed
  next
    case data
    show ?thesis
    proof (cases "v_open v")
      case False
      then show ?thesis
        using v data by (auto simp: dec_zero_def hstep_def ones views_def hwf_def Let_def)
    next
      case True
      have p: "length p < 8" using v by (simp add: views_def hwf_def u)
      have "views \<lparr>v_open = True, v_unit = su_push False (os, p), v_ones = rx_decode_onecnt d\<rparr> (dec_next_bit d) \<and>
          packets_up (dec_next_bit d) = packets_up d"
        by (rule views_keep)
          (use v True small p in \<open>auto simp: views_def u octet_of_snoc word_less_nat_alt\<close>)
      then show ?thesis
        using True data fl ones
        by (auto simp: dec_zero_def hstep_def Let_def u views_def hwf_def crc_slots_def)
    qed
  qed
qed

lemma dec_bit_views:
  assumes v: "views v d" and small: "hsize v < 79984"
  shows "let (got, d') = dec_bit up b (g, d); (v', ps) = hstep b v
    in views v' d' \<and> got = (g \<or> ps \<noteq> []) \<and> packets_up d' = packets_up d @ (if up then ps else [])"
proof -
  have s: "length (fst (v_unit v)) + 1 < 10000" using small by (simp add: hsize_def)
  show ?thesis
  proof (cases b)
    case True
    have "snd (hstep True v) = []" by (simp add: hstep_def Let_def)
    with True views_one [OF v s] show ?thesis
      by (simp add: dec_bit_def split_def Let_def)
  next
    case False
    with views_zero [OF v s, of up] show ?thesis
      by (auto simp: dec_bit_def Let_def split: prod.splits)
  qed
qed

lemma dec_bits_views:
  assumes "views v d" "hfits bs v"
  shows "let (got, d') = fold (dec_bit up) bs (g, d); (v', ps) = hrun bs v
    in views v' d' \<and> hsize v' < 79984 \<and> got = (g \<or> ps \<noteq> []) \<and>
       packets_up d' = packets_up d @ (if up then ps else [])"
  using assms
proof (induction bs arbitrary: v d g)
  case (Cons b bs)
  obtain g1 d1 where 1: "dec_bit up b (g, d) = (g1, d1)" by fastforce
  obtain v1 ps where 2: "hstep b v = (v1, ps)" by fastforce
  have "hsize v < 79984" "hfits bs v1" using Cons.prems(2) by (simp_all add: 2)
  from dec_bit_views [OF Cons.prems(1) this(1), of up b g]
  have v1: "views v1 d1" "g1 = (g \<or> ps \<noteq> [])" "packets_up d1 = packets_up d @ (if up then ps else [])"
    by (simp_all add: 1 2 Let_def)
  from Cons.IH [OF v1(1) \<open>hfits bs v1\<close>, of g1] v1 show ?case
    by (auto simp: 1 2 Let_def split: prod.splits)
qed (simp add: Let_def)

definition eng_bits :: "bool \<Rightarrow> u8 \<Rightarrow> bool list" where
  "eng_bits seven v = (if seven then take 7 (bits8 v) else bits8 v)"

lemma bit_test: "((v :: u8) AND push_bit i 1 \<noteq> 0) = bit v i"
  by (simp add: and_exp_eq_0_iff_not_bit)

lemma decode_byte_bits: "decode_byte seven up v d = fold (dec_bit up) (eng_bits seven v) (False, d)"
  unfolding decode_byte_def bit_test
  by (cases seven) (simp_all add: eng_bits_def bits8_eq)

lemma dec_bit_got: "fst (dec_bit up b (g, d)) = (g \<or> fst (dec_bit up b (False, d))) \<and>
    snd (dec_bit up b (g, d)) = snd (dec_bit up b (False, d))"
  by (auto simp: dec_bit_def split: prod.splits)

lemma dec_bits_got: "fst (fold (dec_bit up) bs (g, d)) = (g \<or> fst (fold (dec_bit up) bs (False, d))) \<and>
    snd (fold (dec_bit up) bs (g, d)) = snd (fold (dec_bit up) bs (False, d))"
proof (induction bs arbitrary: g d)
  case (Cons b bs)
  obtain g1 d1 where 1: "dec_bit up b (False, d) = (g1, d1)" by fastforce
  then have "dec_bit up b (g, d) = (g \<or> g1, d1)"
    using dec_bit_got [of up b g d] by (simp add: prod_eq_iff)
  then show ?case
    using 1 Cons.IH [of "g \<or> g1" d1] Cons.IH [of g1 d1] by simp
qed simp

lemma decode_buf_bits:
  "fold (\<lambda>v (got, d). let (g, d1) = decode_byte seven up v d in (got \<or> g, d1)) vs (g0, d) =
     fold (dec_bit up) (concat (map (eng_bits seven) vs)) (g0, d)"
proof (induction vs arbitrary: g0 d)
  case (Cons v vs)
  have "(let (g, d1) = decode_byte seven up v d in (g0 \<or> g, d1)) = fold (dec_bit up) (eng_bits seven v) (g0, d)"
    using dec_bits_got [of up "eng_bits seven v" g0 d]
    by (simp add: decode_byte_bits split_def Let_def prod_eq_iff)
  with Cons show ?case by (cases "fold (dec_bit up) (eng_bits seven v) (g0, d)") simp
qed simp

text \<open>The decoder refines the machine on bits, one buffer at a time.\<close>

lemma decode_views:
  assumes v: "views v (decoder e)" and small: "hfits (concat (map (eng_bits (seven_bit_hdlc e)) buf)) v"
  shows "let (got, e') = wanpipe_hdlc_decode buf e;
        (v', ps) = hrun (concat (map (eng_bits (seven_bit_hdlc e)) buf)) v
    in views v' (decoder e') \<and> got = (ps \<noteq> []) \<and>
       packets_up (decoder e') = packets_up (decoder e) @ (if has_hdlc_data e then ps else []) \<and>
       e' = e\<lparr>decoder := decoder e'\<rparr>"
proof -
  let ?bs = "concat (map (eng_bits (seven_bit_hdlc e)) buf)"
  obtain got d where d: "fold (dec_bit (has_hdlc_data e)) ?bs (False, decoder e) = (got, d)" by fastforce
  obtain v' ps where r: "hrun ?bs v = (v', ps)" by fastforce
  from dec_bits_views [OF v small, of "has_hdlc_data e" False]
  have 1: "views v' d" "hsize v' < 79984" "got = (ps \<noteq> [])"
    "packets_up d = packets_up (decoder e) @ (if has_hdlc_data e then ps else [])"
    by (simp_all add: d r Let_def)
  have "unat (rx_decode_len d) = length (fst (v_unit v'))" using 1(1) by (simp add: views_def)
  then have "unat (rx_decode_len d) < 9999" using 1(2) by (simp add: hsize_def)
  then have "\<not> rx_decode_len d \<ge> HDLC_ENG_BUF_LEN - 1"
    by (simp add: word_le_nat_alt HDLC_ENG_BUF_LEN_def)
  then have "wanpipe_hdlc_decode buf e = (got, e\<lparr>decoder := d\<rparr>)"
    unfolding wanpipe_hdlc_decode_def decode_buf_bits d by simp
  then show ?thesis
    using 1 r by simp
qed

lemma views_fresh:
  "views \<lparr>v_open = False, v_unit = ([], []), v_ones = 0\<rparr> (init_hdlc_decoder zero_decoder)"
  by (simp add: views_def hwf_def init_hdlc_decoder_def flag_bits_of_word NO_FLAG_def CLOSING_FLAG_def zero_decoder_def)

end
