(* ===== verification/Hdlc_Encode.thy ===== *)
theory Hdlc_Encode
  imports Hdlc_Decode
begin

unbundle bit_operations_syntax

text \<open>
  The HDLC encoder: its buffer read as a list of bits is a \<open>stuffing_sink\<close>, an encoded
  packet is two idle octets, the rest of the last flag, the stuffed octets with their
  check sum, a flag, and padding to a multiple of four octets
  (\<open>wanpipe_hdlc_encode_line\<close>, eight bit engines).
\<close>

section \<open>The encode buffer as a list of bits\<close>

definition wid :: "hdlc_encoder \<Rightarrow> nat" where
  "wid c = unat (enc_bits_in_byte c)"

definition enc_ok :: "hdlc_encoder \<Rightarrow> bool" where
  "enc_ok c \<longleftrightarrow> (wid c = 7 \<or> wid c = 8) \<and> unat (tx_decode_bit_cnt c) < wid c \<and>
     unat (tx_decode_len c) < 10000 \<and> \<not> enc_fault c \<and>
     (\<forall>n < 8. bit (tx_decode_buf c (unat (tx_decode_len c))) n \<longrightarrow> n < unat (tx_decode_bit_cnt c))"

definition enc_seg :: "nat \<Rightarrow> u8 arr \<Rightarrow> nat \<Rightarrow> bool list" where
  "enc_seg w a n = concat (map (\<lambda>i. take w (bits8 (a i))) [0 ..< n])"

definition enc_stream :: "hdlc_encoder \<Rightarrow> bool list" where
  "enc_stream c = enc_seg (wid c) (tx_decode_buf c) (unat (tx_decode_len c)) @
     take (unat (tx_decode_bit_cnt c)) (bits8 (tx_decode_buf c (unat (tx_decode_len c))))"

definition enc_room :: "hdlc_encoder \<Rightarrow> nat \<Rightarrow> bool" where
  "enc_room c n \<longleftrightarrow> enc_ok c \<and>
     wid c * unat (tx_decode_len c) + unat (tx_decode_bit_cnt c) + n < wid c * 10000"

lemma enc_seg_beyond [simp]: "n \<le> i \<Longrightarrow> enc_seg w (a(i := x)) n = enc_seg w a n"
  unfolding enc_seg_def by (rule arg_cong [where f = concat]) simp

lemma enc_seg_Suc: "enc_seg w a (Suc n) = enc_seg w a n @ take w (bits8 (a n))"
  by (simp add: enc_seg_def)

text \<open>A bit that has been written at the current position is taken into the stream.\<close>

lemma enc_next:
  assumes w: "wid c = 7 \<or> wid c = 8" and cnt: "unat (tx_decode_bit_cnt c) < wid c"
    and room: "wid c * unat (tx_decode_len c) + unat (tx_decode_bit_cnt c) + Suc n < wid c * 10000"
    and nf: "\<not> enc_fault c"
    and high: "\<forall>n < 8. bit (tx_decode_buf c (unat (tx_decode_len c))) n \<longrightarrow> n \<le> unat (tx_decode_bit_cnt c)"
  shows "enc_room (enc_next_bit c) n \<and>
    enc_stream (enc_next_bit c) = enc_stream c @ [bit (tx_decode_buf c (unat (tx_decode_len c))) (unat (tx_decode_bit_cnt c))]"
proof -
  let ?p = "unat (tx_decode_bit_cnt c)" and ?l = "unat (tx_decode_len c)"
  let ?v = "tx_decode_buf c ?l"
  have p8: "?p < 8" using w cnt by auto
  have p1: "unat (tx_decode_bit_cnt c + 1) = Suc ?p" using p8 by (simp add: unat_inc8)
  have snoc: "take (Suc ?p) (bits8 ?v) = take ?p (bits8 ?v) @ [bit ?v ?p]"
    using p8 by (simp add: take_Suc_conv_app_nth)
  have full: "tx_decode_bit_cnt c + 1 \<ge> enc_bits_in_byte c \<longleftrightarrow> Suc ?p = wid c"
    using p1 cnt by (auto simp: wid_def word_le_nat_alt)
  have l: "?l < 10000" using room w by auto
  show ?thesis
  proof (cases "Suc ?p = wid c")
    case False
    let ?c = "c\<lparr>tx_decode_bit_cnt := tx_decode_bit_cnt c + 1\<rparr>"
    have next1: "enc_next_bit c = ?c" using False full by (simp add: enc_next_bit_def)
    have "enc_stream ?c = enc_stream c @ [bit ?v ?p]"
      using p1 snoc by (simp add: enc_stream_def wid_def)
    moreover have "enc_room ?c n"
      using False p1 cnt w l nf room high by (auto simp: enc_room_def enc_ok_def wid_def less_Suc_eq_le)
    ultimately show ?thesis by (simp add: next1)
  next
    case True
    have l1: "Suc ?l < 10000" using True room w by auto
    have len: "unat (tx_decode_len c + 1) = Suc ?l" using l by (simp add: unat_inc32)
    let ?c = "c\<lparr>tx_decode_bit_cnt := 0, tx_decode_len := tx_decode_len c + 1,
        tx_decode_buf := (tx_decode_buf c)(Suc ?l := 0)\<rparr>"
    have next1: "enc_next_bit c = ?c"
      using True full len l1 by (simp add: enc_next_bit_def Let_def HDLC_ENG_BUF_LEN_def word_less_nat_alt)
    have "enc_stream ?c = enc_stream c @ [bit ?v ?p]"
      using len snoc True by (simp add: enc_stream_def wid_def enc_seg_Suc)
    moreover have "enc_room ?c n"
      using True w l1 len nf room by (auto simp: enc_room_def enc_ok_def wid_def)
    ultimately show ?thesis by (simp add: next1)
  qed
qed

lemma enc_next_frame [simp]:
  "tx_decode_onecnt (enc_next_bit c) = tx_decode_onecnt c" "wid (enc_next_bit c) = wid c"
  "tx_crc (enc_next_bit c) = tx_crc c" "tx_flag (enc_next_bit c) = tx_flag c"
  "tx_flag_idle (enc_next_bit c) = tx_flag_idle c" "tx_flag_offset (enc_next_bit c) = tx_flag_offset c"
  "tx_flag_offset_data (enc_next_bit c) = tx_flag_offset_data c"
  "enc_bits_in_byte (enc_next_bit c) = enc_bits_in_byte c"
  "tx_crc_fin (enc_next_bit c) = tx_crc_fin c"
  by (simp_all add: enc_next_bit_def Let_def wid_def)

lemma onecnt_free [simp]:
  "enc_stream (c\<lparr>tx_decode_onecnt := n\<rparr>) = enc_stream c" "enc_room (c\<lparr>tx_decode_onecnt := n\<rparr>) = enc_room c"
  by (simp_all add: enc_stream_def enc_room_def enc_ok_def wid_def fun_eq_iff)

lemma enc_put_zero:
  assumes "enc_room c (Suc n)"
  shows "enc_room (enc_next_bit c) n" "enc_stream (enc_next_bit c) = enc_stream c @ [False]"
proof -
  have ok: "enc_ok c" and r: "wid c * unat (tx_decode_len c) + unat (tx_decode_bit_cnt c) + Suc n < wid c * 10000"
    using assms by (simp_all add: enc_room_def)
  have high: "\<forall>n < 8. bit (tx_decode_buf c (unat (tx_decode_len c))) n \<longrightarrow> n < unat (tx_decode_bit_cnt c)"
    using ok by (simp add: enc_ok_def)
  have "unat (tx_decode_bit_cnt c) < 8" using ok by (auto simp: enc_ok_def)
  with high have "\<not> bit (tx_decode_buf c (unat (tx_decode_len c))) (unat (tx_decode_bit_cnt c))"
    by blast
  with enc_next [of c n] ok r high show "enc_room (enc_next_bit c) n" "enc_stream (enc_next_bit c) = enc_stream c @ [False]"
    by (simp_all add: enc_ok_def order_less_imp_le)
qed

lemma enc_put_one:
  assumes "enc_room c (Suc n)"
  defines "k \<equiv> unat (tx_decode_len c)"
  defines "c1 \<equiv> c\<lparr>tx_decode_buf := (tx_decode_buf c)(k := tx_decode_buf c k OR push_bit (unat (tx_decode_bit_cnt c)) 1)\<rparr>"
  shows "enc_room (enc_next_bit c1) n" "enc_stream (enc_next_bit c1) = enc_stream c @ [True]"
proof -
  let ?p = "unat (tx_decode_bit_cnt c)"
  let ?v = "tx_decode_buf c k OR push_bit ?p 1"
  have ok: "enc_ok c" and r: "wid c * k + ?p + Suc n < wid c * 10000"
    using assms(1) by (simp_all add: enc_room_def k_def)
  have p8: "?p < 8" using ok by (auto simp: enc_ok_def)
  have bits: "bit ?v n \<longleftrightarrow> bit (tx_decode_buf c k) n \<or> n = ?p" if "n < 8" for n
    using that p8 by (auto simp: bit_or_iff bit_exp_iff)
  have same: "take ?p (bits8 ?v) = take ?p (bits8 (tx_decode_buf c k))"
    by (rule nth_equalityI) (use bits p8 in auto)
  have st: "enc_stream c1 = enc_stream c"
    using same by (simp add: enc_stream_def c1_def wid_def flip: k_def)
  have high: "\<forall>n < 8. bit ?v n \<longrightarrow> n \<le> ?p"
    using bits ok by (auto simp: enc_ok_def k_def order_less_imp_le)
  have "bit ?v ?p" using bits [OF p8] by simp
  with enc_next [of c1 n] ok r high show "enc_room (enc_next_bit c1) n" "enc_stream (enc_next_bit c1) = enc_stream c @ [True]"
    by (simp_all add: enc_ok_def st [symmetric]) (simp_all add: c1_def wid_def flip: k_def)
qed

section \<open>The encoder is a stuffing sink\<close>

definition enc_put :: "bool \<Rightarrow> hdlc_encoder \<Rightarrow> hdlc_encoder" where
  "enc_put b = (if b then enc_one False else enc_zero)"

definition enc_sput :: "bool \<Rightarrow> hdlc_encoder \<Rightarrow> hdlc_encoder" where
  "enc_sput b = (if b then enc_one True else enc_zero)"

lemma enc_one_eq:
  assumes "enc_room c n"
  defines "c1 \<equiv> c\<lparr>tx_decode_buf := (tx_decode_buf c)(unat (tx_decode_len c) :=
      tx_decode_buf c (unat (tx_decode_len c)) OR push_bit (unat (tx_decode_bit_cnt c)) 1)\<rparr>"
  shows "enc_one s c =
    (if tx_decode_onecnt c = 4
     then (if s then enc_next_bit ((enc_next_bit c1)\<lparr>tx_decode_onecnt := 5\<rparr>)
           else (enc_next_bit c1))\<lparr>tx_decode_onecnt := 0\<rparr>
     else (enc_next_bit c1)\<lparr>tx_decode_onecnt := tx_decode_onecnt c + 1\<rparr>)"
proof -
  have lt: "tx_decode_len c < HDLC_ENG_BUF_LEN"
    using assms(1) by (simp add: enc_room_def enc_ok_def word_less_nat_alt HDLC_ENG_BUF_LEN_def)
  have o1: "tx_decode_onecnt c1 = tx_decode_onecnt c" by (simp add: c1_def)
  show ?thesis
    unfolding enc_one_def Let_def using lt o1 by (simp add: c1_def)
qed

lemma fifth_one8: "unat (c :: u8) = 4 \<longleftrightarrow> c = 4"
  by (simp add: word_unat_eq_iff)

lemma enc_one_two:
  assumes r: "enc_room c (Suc (Suc n))" and four: "tx_decode_onecnt c = 4"
  shows "enc_room (enc_one True c) n" "enc_stream (enc_one True c) = enc_stream c @ [True, False]"
proof -
  let ?c1 = "c\<lparr>tx_decode_buf := (tx_decode_buf c)(unat (tx_decode_len c) :=
      tx_decode_buf c (unat (tx_decode_len c)) OR push_bit (unat (tx_decode_bit_cnt c)) 1)\<rparr>"
  let ?c2 = "(enc_next_bit ?c1)\<lparr>tx_decode_onecnt := 5\<rparr>"
  have r2: "enc_room ?c2 (Suc n)" and s2: "enc_stream ?c2 = enc_stream c @ [True]"
    using enc_put_one [OF r] by simp_all
  show "enc_room (enc_one True c) n" "enc_stream (enc_one True c) = enc_stream c @ [True, False]"
    using enc_put_zero [OF r2] s2 four by (simp_all add: enc_one_eq [OF r])
qed

lemma enc_one_one:
  assumes r: "enc_room c (Suc n)" and "tx_decode_onecnt c \<noteq> 4 \<or> \<not> s"
  shows "enc_room (enc_one s c) n" "enc_stream (enc_one s c) = enc_stream c @ [True]"
  using enc_put_one [OF r] assms(2) by (auto simp: enc_one_eq [OF r])

lemma enc_zero_one:
  assumes r: "enc_room c (Suc n)"
  shows "enc_room (enc_zero c) n" "enc_stream (enc_zero c) = enc_stream c @ [False]"
  using enc_put_zero [of "c\<lparr>tx_decode_onecnt := 0\<rparr>" n] r by (simp_all add: enc_zero_def)

interpretation enc_sink: stuffing_sink enc_put enc_stream enc_room enc_sput
  "\<lambda>c. unat (tx_decode_onecnt c)"
proof
  fix c :: hdlc_encoder and b :: bool and n :: nat
  let ?k = "unat (tx_decode_onecnt c)"
  show "enc_room c (Suc n) \<Longrightarrow> enc_stream (enc_put b c) = enc_stream c @ [b]"
    and "enc_room c (Suc n) \<Longrightarrow> enc_room (enc_put b c) n"
    by (cases b; simp add: enc_put_def enc_one_one enc_zero_one)+
  show "enc_room c n \<Longrightarrow> m \<le> n \<Longrightarrow> enc_room c m" for m
    by (simp add: enc_room_def)
  show "?k < 5 \<Longrightarrow> unat (tx_decode_onecnt (enc_sput b c)) = snd (stuff1 ?k b)"
    by (cases b) (auto simp: enc_sput_def enc_zero_def enc_one_def Let_def fifth_one8 unat_inc8)
  show "enc_room c (length (fst (stuff1 ?k b))) \<Longrightarrow> ?k < 5 \<Longrightarrow>
      enc_stream (enc_sput b c) = enc_stream c @ fst (stuff1 ?k b)"
    by (cases b) (auto simp: enc_sput_def fifth_one8 enc_one_one enc_one_two enc_zero_one split: if_splits)
  show "enc_room c (length (fst (stuff1 ?k b)) + n) \<Longrightarrow> ?k < 5 \<Longrightarrow> enc_room (enc_sput b c) n"
    by (cases b) (auto simp: enc_sput_def fifth_one8 enc_one_one enc_one_two enc_zero_one split: if_splits)
qed

section \<open>Octets into the buffer\<close>

definition enc_same :: "hdlc_encoder \<Rightarrow> hdlc_encoder \<Rightarrow> bool" where
  "enc_same c c' \<longleftrightarrow> tx_crc c' = tx_crc c \<and> tx_flag c' = tx_flag c \<and> tx_flag_idle c' = tx_flag_idle c \<and>
     tx_flag_offset c' = tx_flag_offset c \<and> tx_flag_offset_data c' = tx_flag_offset_data c \<and>
     enc_bits_in_byte c' = enc_bits_in_byte c \<and> tx_crc_fin c' = tx_crc_fin c"

lemma enc_same_refl [simp]: "enc_same c c" by (simp add: enc_same_def)

lemma enc_same_trans: "enc_same a b \<Longrightarrow> enc_same b c \<Longrightarrow> enc_same a c"
  by (simp add: enc_same_def)

lemma enc_same_bit: "enc_same c (enc_one s c)" "enc_same c (enc_zero c)"
  by (simp_all add: enc_same_def enc_one_def enc_zero_def Let_def)

lemma enc_same_puts: "enc_same c (fold enc_put bs c)" "enc_same c (fold enc_sput bs c)"
proof -
  show "enc_same c (fold enc_put bs c)"
    by (induction bs arbitrary: c) (auto simp: enc_put_def intro: enc_same_trans enc_same_bit)
  show "enc_same c (fold enc_sput bs c)"
    by (induction bs arbitrary: c) (auto simp: enc_sput_def intro: enc_same_trans enc_same_bit)
qed

lemma bit_test8: "((v :: u8) AND push_bit i 1 \<noteq> 0) = bit v i"
  by (simp add: and_exp_eq_0_iff_not_bit)

lemma encode_bits:
  "fold (\<lambda>j. if bit v j then f else g) [0, 1, 2, 3, 4, 5, 6, 7] c = fold (\<lambda>b. if b then f else g) (bits8 v) c"
proof -
  have "bits8 v = map (bit v) [0, 1, 2, 3, 4, 5, 6, 7]" by (simp add: bits8_eq)
  then show ?thesis by (simp only: fold_map comp_def)
qed

lemma encode_byte_0: "encode_byte v 0 c = fold enc_sput (bits8 v) c"
  unfolding encode_byte_def bit_test8 encode_bits by (simp add: enc_sput_def [abs_def] cong: if_cong)

lemma encode_byte_2: "encode_byte v 2 c = fold enc_put (bits8 v) c"
  unfolding encode_byte_def bit_test8 encode_bits by (simp add: enc_put_def [abs_def] cong: if_cong)

lemma encode_byte_1: "encode_byte v 1 c = (let c1 = fold enc_put (bits8 v) c in
    c1\<lparr>tx_flag_idle := FLAGS ! unat (tx_decode_bit_cnt c1),
       tx_flag_offset := tx_decode_bit_cnt c1,
       tx_flag_offset_data := tx_decode_buf c1 (unat (tx_decode_len c1)),
       enc_fault := (enc_fault c1 \<or> tx_decode_len c1 \<ge> HDLC_ENG_BUF_LEN)\<rparr>)"
  unfolding encode_byte_def bit_test8 encode_bits by (simp add: enc_put_def [abs_def] cong: if_cong)

lemma encode_byte_2_line:
  assumes "enc_room c (8 + n)"
  shows "enc_stream (encode_byte v 2 c) = enc_stream c @ bits8 v" "enc_room (encode_byte v 2 c) n"
    "enc_same c (encode_byte v 2 c)"
  using enc_sink.stream_puts [of c "bits8 v"] enc_sink.room_puts [of c "bits8 v" n] assms
    enc_sink.room_mono [OF assms, of 8] enc_same_puts(1) [of c "bits8 v"]
  by (simp_all add: encode_byte_2)

lemma length_enc_stream:
  assumes "enc_ok c" "wid c = 8"
  shows "length (enc_stream c) = 8 * unat (tx_decode_len c) + unat (tx_decode_bit_cnt c)"
    "unat (tx_decode_bit_cnt c) < 8"
proof -
  have "length (enc_seg 8 a n) = 8 * n" for a n by (induction n) (simp_all add: enc_seg_def)
  then show "length (enc_stream c) = 8 * unat (tx_decode_len c) + unat (tx_decode_bit_cnt c)"
    "unat (tx_decode_bit_cnt c) < 8"
    using assms by (simp_all add: enc_stream_def enc_ok_def)
qed

lemma enc_len_cnt:
  assumes "enc_ok c" "wid c = 8"
  shows "unat (tx_decode_len c) = length (enc_stream c) div 8"
    "unat (tx_decode_bit_cnt c) = length (enc_stream c) mod 8"
  using length_enc_stream [OF assms] by (simp_all add: div_mult_self4)

lemma enc_seg_octets: "enc_seg 8 a n = bits8s (arr_take n a)"
  by (induction n) (simp_all add: enc_seg_def arr_take_Suc)

lemma enc_octets:
  assumes "enc_ok c" "wid c = 8"
  shows "bits8s (arr_take (unat (tx_decode_len c)) (tx_decode_buf c)) =
    take (8 * unat (tx_decode_len c)) (enc_stream c)"
  using assms(2) by (simp add: enc_stream_def enc_seg_octets)

text \<open>The octet being built holds the last bits of the stream.\<close>

lemma enc_partial:
  assumes ok: "enc_ok c" and w: "wid c = 8"
  shows "tx_decode_buf c (unat (tx_decode_len c)) =
    octet_of (drop (8 * unat (tx_decode_len c)) (enc_stream c))"
proof -
  let ?v = "tx_decode_buf c (unat (tx_decode_len c))" and ?p = "unat (tx_decode_bit_cnt c)"
  have d: "drop (8 * unat (tx_decode_len c)) (enc_stream c) = take ?p (bits8 ?v)"
    by (simp add: enc_stream_def w enc_seg_octets)
  show ?thesis
    unfolding d
    by (rule bit_word_eqI) (use ok in \<open>auto simp: bit_octet_of enc_ok_def\<close>)
qed

section \<open>Idle between packets\<close>

text \<open>
  \<open>enc_idle k c\<close>: the last flag ended \<open>k\<close> bits into an octet, and \<open>c\<close> remembers
  the flag so rotated and these \<open>k\<close> bits.
\<close>

definition enc_idle :: "nat \<Rightarrow> hdlc_encoder \<Rightarrow> bool" where
  "enc_idle k c \<longleftrightarrow> k < 8 \<and> enc_bits_in_byte c = 8 \<and> tx_flag c = 0x7E \<and> tx_flag_idle c = FLAGS ! k \<and>
     unat (tx_flag_offset c) = k \<and> tx_flag_offset_data c = octet_of (drop (8 - k) flag_bits) \<and>
     \<not> enc_fault c"

definition lead_bits :: "nat \<Rightarrow> bool list" where
  "lead_bits k = bits8 (FLAGS ! k) @ bits8 (FLAGS ! k) @ drop (8 - k) flag_bits"

lemma enc_idle_init: "enc_idle 0 (init_hdlc_encoder zero_encoder)"
  by (simp add: enc_idle_def init_hdlc_encoder_def zero_encoder_def FLAGS_def octet_of_def)

lemma enc_start_ok:
  assumes "enc_bits_in_byte c = 8" "\<not> enc_fault c"
  shows "enc_room (enc_start c) 79999" "enc_stream (enc_start c) = []" "wid (enc_start c) = 8"
    "tx_crc (enc_start c) = -1"
  using assms by (simp_all add: enc_room_def enc_ok_def enc_start_def wid_def enc_stream_def enc_seg_def)

lemma enc_start_same: "tx_flag (enc_start c) = tx_flag c" "tx_flag_idle (enc_start c) = tx_flag_idle c"
  "tx_flag_offset (enc_start c) = tx_flag_offset c" "tx_flag_offset_data (enc_start c) = tx_flag_offset_data c"
  "enc_bits_in_byte (enc_start c) = enc_bits_in_byte c"
  by (simp_all add: enc_start_def)

lemma enc_lead_line:
  assumes idle: "enc_idle k (encoder e)" and eight: "\<not> seven_bit_hdlc e"
  shows "let c = enc_lead e in enc_stream c = lead_bits k \<and> enc_room c 79970 \<and> wid c = 8 \<and>
    tx_decode_onecnt c = 0 \<and> tx_crc c = -1 \<and> tx_flag c = 0x7E"
proof -
  define c1 where "c1 = enc_start (encoder e)"
  define c2 where "c2 = encode_byte (tx_flag_idle c1) 2 c1"
  define c3 where "c3 = encode_byte (tx_flag_idle c2) 2 c2"
  define c4 where "c4 = encode_byte (tx_flag_offset_data c3) 2 c3"
  have i: "k < 8" "tx_flag_idle (encoder e) = FLAGS ! k" "unat (tx_flag_offset (encoder e)) = k"
    "tx_flag_offset_data (encoder e) = octet_of (drop (8 - k) flag_bits)" "tx_flag (encoder e) = 0x7E"
    using idle by (simp_all add: enc_idle_def)
  have st: "enc_room c1 (8 + (8 + (8 + 79975)))" "enc_stream c1 = []" "wid c1 = 8" "tx_crc c1 = -1"
    using enc_start_ok [of "encoder e"] idle by (simp_all add: enc_idle_def c1_def)
  note l2 = encode_byte_2_line [OF st(1), of "tx_flag_idle c1", folded c2_def]
  note l3 = encode_byte_2_line [OF l2(2), of "tx_flag_idle c2", folded c3_def]
  note l4 = encode_byte_2_line [OF l3(2), of "tx_flag_offset_data c3", folded c4_def]
  have same: "enc_same c1 c4"
    using l2(3) l3(3) l4(3) enc_same_trans by blast
  have w4: "wid c4 = 8" using same st(3) by (simp add: enc_same_def wid_def)
  have ok4: "enc_ok c4" using l4(2) by (simp add: enc_room_def)
  let ?t = "drop (8 - k) flag_bits"
  have f: "tx_flag_idle c1 = FLAGS ! k" "tx_flag_idle c2 = FLAGS ! k" "tx_flag_offset_data c3 = octet_of ?t"
    "tx_flag_offset c4 = tx_flag_offset (encoder e)" "tx_flag c4 = 0x7E" "tx_crc c4 = -1"
    using i l2(3) l3(3) same st(4) by (simp_all add: enc_same_def c1_def enc_start_same)
  have s4: "enc_stream c4 = bits8 (FLAGS ! k) @ bits8 (FLAGS ! k) @ bits8 (octet_of ?t)"
    using l2(1) l3(1) l4(1) st(2) by (simp add: f(1,2,3))
  then have len4: "unat (tx_decode_len c4) = 3" "unat (tx_decode_bit_cnt c4) = 0"
    using enc_len_cnt [OF ok4 w4] by simp_all
  have "bits8s (arr_take 3 (tx_decode_buf c4)) = bits8 (FLAGS ! k) @ bits8 (FLAGS ! k) @ bits8 (octet_of ?t)"
    using enc_octets [OF ok4 w4] s4 len4(1) by simp
  then have buf: "tx_decode_buf c4 0 = FLAGS ! k" "tx_decode_buf c4 1 = FLAGS ! k"
    "tx_decode_buf c4 2 = octet_of ?t"
    by (simp_all add: arr_take_def numeral_eq_Suc)
  let ?c5 = "c4\<lparr>tx_decode_len := tx_decode_len c4 - 1, tx_decode_bit_cnt := tx_flag_offset c4,
      tx_decode_onecnt := 0\<rparr>"
  have lead: "enc_lead e = ?c5"
    using eight by (simp add: enc_lead_def Let_def c1_def c2_def c3_def c4_def)
  have len5: "unat (tx_decode_len c4 - 1) = 2"
    using len4(1) by (subst unat_minus_one) auto
  have "take k (bits8 (octet_of ?t)) = ?t"
    by (rule nth_equalityI) (use i(1) in \<open>auto simp: bit_octet_of\<close>)
  then have "enc_stream ?c5 = lead_bits k"
    using len5 w4 buf i(3) f(4)
    by (simp add: enc_stream_def lead_bits_def wid_def enc_seg_def numeral_2_eq_2)
  moreover have "enc_room ?c5 79970"
    using ok4 w4 len5 i(1,3) f(4) buf(3)
    by (auto simp: enc_room_def enc_ok_def wid_def bit_octet_of)
  ultimately show ?thesis
    using w4 f(5,6) by (simp add: lead Let_def wid_def)
qed

section \<open>One packet\<close>

lemma crc_free [simp]:
  "enc_stream (calc_tx_crc v c) = enc_stream c" "enc_room (calc_tx_crc v c) = enc_room c"
  "tx_decode_onecnt (calc_tx_crc v c) = tx_decode_onecnt c" "wid (calc_tx_crc v c) = wid c"
  "tx_flag (calc_tx_crc v c) = tx_flag c" "tx_crc (calc_tx_crc v c) = crc_update (tx_crc c) v"
  by (simp_all add: calc_tx_crc_def enc_stream_def enc_room_def enc_ok_def wid_def fun_eq_iff)

lemma enc_same_wid: "enc_same c c' \<Longrightarrow> wid c' = wid c"
  by (simp add: enc_same_def wid_def)

lemma encode_byte_0_line:
  assumes "enc_room c (length (stuff (unat (tx_decode_onecnt c)) (bits8 v)) + n)"
    "unat (tx_decode_onecnt c) < 5"
  shows "enc_stream (encode_byte v 0 c) = enc_stream c @ stuff (unat (tx_decode_onecnt c)) (bits8 v)"
    "enc_room (encode_byte v 0 c) n" "enc_same c (encode_byte v 0 c)"
    "unat (tx_decode_onecnt (encode_byte v 0 c)) = ones_after (unat (tx_decode_onecnt c)) (bits8 v)"
  using enc_sink.stream_sputs [of c "bits8 v"] enc_sink.room_sputs [of c "bits8 v" n] assms
    enc_sink.room_mono [OF assms(1), of "length (stuff (unat (tx_decode_onecnt c)) (bits8 v))"]
    enc_same_puts(2) [of c "bits8 v"] enc_sink.ones_sputs [of c "bits8 v"]
  by (simp_all add: encode_byte_0)

text \<open>A run of octets with zero insertion; \<open>f\<close> may update the running check sum.\<close>

lemma encode_data_line:
  assumes "enc_room c (length (stuff (unat (tx_decode_onecnt c)) (bits8s vs)) + n)"
    "unat (tx_decode_onecnt c) < 5"
  defines "c' \<equiv> fold (\<lambda>v c. encode_byte v 0 (calc_tx_crc v c)) vs c"
  shows "enc_stream c' = enc_stream c @ stuff (unat (tx_decode_onecnt c)) (bits8s vs) \<and> enc_room c' n \<and>
    unat (tx_decode_onecnt c') = ones_after (unat (tx_decode_onecnt c)) (bits8s vs) \<and>
    wid c' = wid c \<and> tx_flag c' = tx_flag c \<and> tx_crc c' = foldl crc_update (tx_crc c) vs"
  using assms(1,2) unfolding c'_def
proof (induction vs arbitrary: c)
  case (Cons v vs)
  let ?k = "unat (tx_decode_onecnt c)"
  let ?c1 = "encode_byte v 0 (calc_tx_crc v c)"
  have "enc_room (calc_tx_crc v c) (length (stuff (unat (tx_decode_onecnt (calc_tx_crc v c))) (bits8 v)) +
      (length (stuff (ones_after ?k (bits8 v)) (bits8s vs)) + n))"
    using Cons.prems(1) by (simp add: stuff_append add.assoc)
  note 1 = encode_byte_0_line [OF this]
  have k: "ones_after ?k (bits8 v) < 5" using Cons.prems(2) by (rule ones_after_less)
  have c1: "enc_stream ?c1 = enc_stream c @ stuff ?k (bits8 v)"
    "enc_room ?c1 (length (stuff (unat (tx_decode_onecnt ?c1)) (bits8s vs)) + n)"
    "unat (tx_decode_onecnt ?c1) = ones_after ?k (bits8 v)"
    "wid ?c1 = wid c" "tx_flag ?c1 = tx_flag c" "tx_crc ?c1 = crc_update (tx_crc c) v"
    using 1 Cons.prems(2) enc_same_wid [OF 1(3)] by (simp_all add: enc_same_def)
  have "unat (tx_decode_onecnt ?c1) < 5" using c1(3) k by simp
  from Cons.IH [OF c1(2) this] show ?case
    unfolding fold_simps c1(1,3,4,5,6)
    by (simp add: stuff_append ones_after_append)
qed simp

lemma fin_octets:
  fixes c :: u16
  defines "f \<equiv> DECODE_CRC (FLIP_CRC c)"
  shows "[ucast (drop_bit 8 f AND 0xFF) :: u8, ucast (f AND 0xFF)] = fcs_octets c"
proof -
  have ff: "0xFF = (mask 8 :: u16)" by (simp add: mask_eq_decr_exp)
  have f: "f = push_bit 8 (NOT c) OR drop_bit 8 (NOT c)"
    by (simp add: f_def flip_decode)
  have "ucast (drop_bit 8 f AND 0xFF) = (ucast (NOT c) :: u8)"
    unfolding f ff by (rule bit_word_eqI) (auto simp: bit_simps)
  moreover have "ucast (f AND 0xFF) = (ucast (drop_bit 8 (NOT c)) :: u8)"
    unfolding f ff by (rule bit_word_eqI) (auto simp: bit_simps)
  ultimately show ?thesis by (simp add: fcs_octets_def)
qed

lemma encode_flag_line:
  assumes r: "enc_room c (8 + n)" and w: "wid c = 8"
  defines "c' \<equiv> encode_byte 0x7E 1 c"
  shows "enc_stream c' = enc_stream c @ flag_bits" "enc_room c' n" "wid c' = 8" "tx_flag c' = tx_flag c"
    "enc_bits_in_byte c' = enc_bits_in_byte c"
    "tx_flag c = 0x7E \<Longrightarrow> enc_idle (length (enc_stream c') mod 8) c'"
proof -
  define d where "d = fold enc_put flag_bits c"
  have len: "length flag_bits = 8" by simp
  have d: "enc_stream d = enc_stream c @ flag_bits" "enc_room d n" "enc_same c d"
    using enc_sink.stream_puts [of c flag_bits] enc_sink.room_puts [of c flag_bits n] r
      enc_sink.room_mono [OF r, of 8] enc_same_puts(1) [of c flag_bits]
    by (simp_all add: d_def)
  have ok: "enc_ok d" and wd: "wid d = 8" using d(2,3) w by (simp_all add: enc_room_def enc_same_wid)
  have lt: "\<not> tx_decode_len d \<ge> HDLC_ENG_BUF_LEN" "\<not> enc_fault d"
    using ok by (simp_all add: enc_ok_def word_le_nat_alt HDLC_ENG_BUF_LEN_def)
  have c': "c' = d\<lparr>tx_flag_idle := FLAGS ! unat (tx_decode_bit_cnt d), tx_flag_offset := tx_decode_bit_cnt d,
      tx_flag_offset_data := tx_decode_buf d (unat (tx_decode_len d))\<rparr>"
    unfolding c'_def encode_byte_1 flag_bits_octet Let_def d_def [symmetric] using lt by simp
  show st: "enc_stream c' = enc_stream c @ flag_bits" and "enc_room c' n" and "wid c' = 8"
      "tx_flag c' = tx_flag c" "enc_bits_in_byte c' = enc_bits_in_byte c"
    using d wd by (simp_all add: c' enc_stream_def enc_room_def enc_ok_def wid_def enc_same_def)
  define r where "r = length (enc_stream c') mod 8"
  have cnt: "unat (tx_decode_bit_cnt d) = r" and dl: "unat (tx_decode_len d) = length (enc_stream c') div 8"
    using enc_len_cnt [OF ok wd] d(1) st by (simp_all add: r_def)
  have "drop (8 * unat (tx_decode_len d)) (enc_stream d) = drop (8 - r) flag_bits"
  proof -
    have "8 * unat (tx_decode_len d) = length (enc_stream c) + (8 - r)"
      using mult_div_mod_eq [of 8 "length (enc_stream c')"] dl st len unfolding r_def by simp
    then show ?thesis by (simp add: d(1))
  qed
  with enc_partial [OF ok wd] have data: "tx_decode_buf d (unat (tx_decode_len d)) = octet_of (drop (8 - r) flag_bits)"
    by simp
  have bits: "enc_bits_in_byte d = 8" using wd by (simp add: wid_def word_unat_eq_iff)
  have "r < 8" by (simp add: r_def)
  then have "enc_idle r c'" if "tx_flag c = 0x7E"
    unfolding enc_idle_def using that d(3) cnt data lt bits by (simp add: c' enc_same_def)
  then show "tx_flag c = 0x7E \<Longrightarrow> enc_idle (length (enc_stream c') mod 8) c'"
    by (simp only: r_def)
qed

lemma enc_pad_line:
  assumes "enc_room c (8 * j)" "wid c = 8" "enc_idle k c" "n + j \<le> 7" "j \<le> 3"
    and "(length (enc_stream c) div 8 + j) mod 4 = 0"
  defines "c' \<equiv> enc_pad n c"
  shows "enc_stream c' = enc_stream c @ concat (replicate j (bits8 (FLAGS ! k))) \<and>
    enc_room c' 0 \<and> wid c' = 8 \<and> enc_idle k c'"
  using assms(1-6) unfolding c'_def
proof (induction j arbitrary: n c)
  case 0
  have "unat (tx_decode_len c) mod 4 = 0"
    using enc_len_cnt(1) [of c] 0 by (simp add: enc_room_def)
  then have "tx_decode_len c mod 4 = 0" by (simp add: word_unat_eq_iff unat_mod)
  then have "enc_pad n c = c" by (simp add: enc_pad.simps)
  then show ?case using 0 by simp
next
  case (Suc j)
  let ?c = "encode_byte (tx_flag_idle c) 2 c"
  have idle: "tx_flag_idle c = FLAGS ! k" using Suc.prems(3) by (simp add: enc_idle_def)
  have "unat (tx_decode_len c) mod 4 \<noteq> 0"
    using enc_len_cnt(1) [of c] Suc.prems by (simp add: enc_room_def) presburger
  then have "tx_decode_len c mod 4 \<noteq> 0" by (auto simp: word_unat_eq_iff unat_mod)
  then have step: "enc_pad n c = enc_pad (Suc n) ?c"
    using Suc.prems(4) by (simp add: enc_pad.simps [of n c])
  have "enc_room c (8 + 8 * j)" using Suc.prems(1) by simp
  note 1 = encode_byte_2_line [OF this, of "tx_flag_idle c"]
  have "enc_idle k ?c"
    using Suc.prems(3) 1(2,3) by (simp add: enc_idle_def enc_same_def enc_room_def enc_ok_def)
  moreover have "wid ?c = 8" using Suc.prems(2) 1(3) by (simp add: enc_same_wid)
  moreover have "(length (enc_stream ?c) div 8 + j) mod 4 = 0"
    unfolding 1(1) using Suc.prems(6) by (simp add: div_add_self2)
  ultimately have "enc_stream (enc_pad (Suc n) ?c) = enc_stream ?c @ concat (replicate j (bits8 (FLAGS ! k))) \<and>
      enc_room (enc_pad (Suc n) ?c) 0 \<and> wid (enc_pad (Suc n) ?c) = 8 \<and> enc_idle k (enc_pad (Suc n) ?c)"
    using Suc.IH [of ?c "Suc n"] 1(2) Suc.prems(4,5) by simp
  then show ?case unfolding step 1(1) by (simp add: idle)
qed

lemma pad_four: "(3 * n) mod 4 \<le> (3 :: nat)" "(n + (3 * n) mod 4) mod 4 = (0 :: nat)"
proof -
  have "(n + 3 * n mod 4) mod 4 = (n + 3 * n) mod 4" by (rule mod_add_right_eq)
  then show "(n + (3 * n) mod 4) mod 4 = 0" by simp
  show "(3 * n) mod 4 \<le> 3" using mod_less_divisor [of 4 "3 * n"] by simp
qed

lemma wanpipe_hdlc_encode_line:
  assumes idle: "enc_idle k (encoder e)" and eight: "\<not> seven_bit_hdlc e" and len: "length data \<le> 8000"
  defines "body \<equiv> stuff 0 (bits8s (data @ fcs_octets (crc_of data)))"
  shows "\<exists>k' p out nxt e'. wanpipe_hdlc_encode data e = (out, nxt, e') \<and> p \<le> 3 \<and>
    k' = length (lead_bits k @ body) mod 8 \<and>
    length (lead_bits k @ body @ flag_bits) + 8 * p = 8 * length out + k' \<and> length out mod 4 = 0 \<and>
    bits8s out = take (8 * length out)
      (lead_bits k @ body @ flag_bits @ concat (replicate p (bits8 (FLAGS ! k')))) \<and>
    enc_idle k' (encoder e') \<and> nxt = FLAGS ! k' \<and> e' = e\<lparr>encoder := encoder e'\<rparr>"
proof -
  define c0 where "c0 = enc_lead e"
  have c0: "enc_stream c0 = lead_bits k" "enc_room c0 79970" "wid c0 = 8" "tx_decode_onecnt c0 = 0"
    "tx_crc c0 = -1" "tx_flag c0 = 0x7E"
    using enc_lead_line [OF idle eight] by (simp_all add: Let_def c0_def)
  define c1 where "c1 = fold (\<lambda>v c. encode_byte v 0 (calc_tx_crc v c)) data c0"
  let ?fcs = "fcs_octets (crc_of data)"
  let ?s1 = "stuff 0 (bits8s data)"
  let ?s2 = "stuff (ones_after 0 (bits8s data)) (bits8s ?fcs)"
  have body: "body = ?s1 @ ?s2" by (simp add: body_def stuff_append)
  have "5 * length body \<le> 6 * (8 * (length data + 2))"
    using length_stuff_div [of 0 "bits8s (data @ ?fcs)"] by (simp add: body_def fcs_octets_def)
  then have "length body + 40 \<le> 79970" using len by simp
  then have r0: "enc_room c0 (length ?s1 + (length ?s2 + 40))"
    by (intro enc_sink.room_mono [OF c0(2)]) (simp add: body)
  have c1: "enc_stream c1 = lead_bits k @ ?s1" "enc_room c1 (length ?s2 + 40)"
    "unat (tx_decode_onecnt c1) = ones_after 0 (bits8s data)" "wid c1 = 8" "tx_flag c1 = 0x7E" "tx_crc c1 = crc_of data"
    using encode_data_line [of c0 data "length ?s2 + 40"] r0 c0
    by (simp_all add: c1_def crc_of_foldl)
  define c2 where "c2 = c1\<lparr>tx_crc_fin := DECODE_CRC (FLIP_CRC (tx_crc c1))\<rparr>"
  have free: "enc_stream c2 = enc_stream c1" "enc_room c2 = enc_room c1" "wid c2 = wid c1"
    "tx_decode_onecnt c2 = tx_decode_onecnt c1" "tx_flag c2 = tx_flag c1"
    by (simp_all add: c2_def enc_stream_def enc_room_def enc_ok_def wid_def fun_eq_iff)
  obtain a b where ab: "?fcs = [a, b]" by (simp add: fcs_octets_def)
  define c3 where "c3 = encode_byte a 0 c2"
  define c4 where "c4 = encode_byte b 0 c3"
  have two: "fold (\<lambda>v. encode_byte v 0) [a, b] c2 = c4" by (simp add: c3_def c4_def)
  have r2: "enc_room c2 (length (stuff (unat (tx_decode_onecnt c2)) (bits8 a)) +
      (length (stuff (ones_after (ones_after 0 (bits8s data)) (bits8 a)) (bits8 b)) + 40))"
    using c1 by (simp add: free ab stuff_append add.assoc)
  have k5: "unat (tx_decode_onecnt c2) < 5" using c1(3) by (simp add: free ones_after_less)
  note l3 = encode_byte_0_line [OF r2 k5, folded c3_def]
  have "enc_room c3 (length (stuff (unat (tx_decode_onecnt c3)) (bits8 b)) + 40)" "unat (tx_decode_onecnt c3) < 5"
    using l3(2,4) c1(3) k5 by (simp_all add: free ones_after_less)
  note l4 = encode_byte_0_line [OF this, folded c4_def]
  have c4: "enc_stream c4 = lead_bits k @ body" "enc_room c4 (8 + 32)" "wid c4 = 8" "tx_flag c4 = 0x7E"
    using l3 l4 c1 enc_same_wid [OF l3(3)] enc_same_wid [OF l4(3)]
    by (simp_all add: free body ab stuff_append enc_same_def)
  define c5 where "c5 = encode_byte 0x7E 1 c4"
  note l5 = encode_flag_line [OF c4(2,3), folded c5_def]
  define k' where "k' = length (lead_bits k @ body) mod 8"
  have st5: "enc_stream c5 = lead_bits k @ body @ flag_bits" using l5(1) c4(1) by simp
  have k': "length (enc_stream c5) mod 8 = k'"
    unfolding st5 k'_def by (simp flip: add.assoc)
  have idle5: "enc_idle k' c5" using l5(6) c4(4) by (simp only: k')
  define p where "p = (3 * (length (enc_stream c5) div 8)) mod 4"
  have p: "p \<le> 3" "(length (enc_stream c5) div 8 + p) mod 4 = 0"
    unfolding p_def by (rule pad_four)+
  define c6 where "c6 = enc_pad 0 c5"
  have "enc_room c5 (8 * p)" using p(1) by (intro enc_sink.room_mono [OF l5(2)]) simp
  from enc_pad_line [OF this l5(3) idle5 _ p(1,2), of 0] p(1)
  have c6: "enc_stream c6 = lead_bits k @ body @ flag_bits @ concat (replicate p (bits8 (FLAGS ! k')))"
    "enc_room c6 0" "wid c6 = 8" "enc_idle k' c6"
    by (simp_all add: c6_def st5)
  define out where "out = arr_take (unat (tx_decode_len c6)) (tx_decode_buf c6)"
  have ok6: "enc_ok c6" using c6(2) by (simp add: enc_room_def)
  have lout: "length out = length (enc_stream c6) div 8"
    using enc_len_cnt(1) [OF ok6 c6(3)] by (simp add: out_def)
  have len6: "length (enc_stream c6) = length (enc_stream c5) + 8 * p"
    by (simp add: c6(1) st5 length_concat sum_list_replicate)
  have "length (enc_stream c6) mod 8 = k'" using len6 k' by simp
  then have total: "length (enc_stream c6) = 8 * length out + k'"
    using lout by (metis mult_div_mod_eq)
  have four: "length out mod 4 = 0" using lout len6 p(2) by (simp add: add.commute)
  have bits: "bits8s out = take (8 * length out) (enc_stream c6)"
    using enc_octets [OF ok6 c6(3)] by (simp add: out_def)
  have run: "wanpipe_hdlc_encode data e = (out, tx_flag_idle c6, e\<lparr>encoder := c6\<lparr>tx_decode_len := 0\<rparr>\<rparr>)"
  proof -
    have fin: "encode_byte (ucast (drop_bit 8 (tx_crc_fin c2) AND 0xFF)) 0 c2 = c3"
      "encode_byte (ucast (tx_crc_fin c3 AND 0xFF)) 0 c3 = c4"
    proof -
      have "tx_crc_fin c2 = DECODE_CRC (FLIP_CRC (crc_of data))" by (simp add: c2_def c1(6))
      moreover have "tx_crc_fin c3 = tx_crc_fin c2" using l3(3) by (simp add: enc_same_def)
      ultimately have "ucast (drop_bit 8 (tx_crc_fin c2) AND 0xFF) = a" "ucast (tx_crc_fin c3 AND 0xFF) = b"
        using fin_octets [of "crc_of data"] ab by simp_all
      then show "encode_byte (ucast (drop_bit 8 (tx_crc_fin c2) AND 0xFF)) 0 c2 = c3"
        "encode_byte (ucast (tx_crc_fin c3 AND 0xFF)) 0 c3 = c4"
        by (simp_all add: c3_def c4_def)
    qed
    have "tx_flag c4 = 0x7E" by (rule c4(4))
    then show ?thesis
      unfolding wanpipe_hdlc_encode_def Let_def c0_def [symmetric] c1_def [symmetric] c2_def [symmetric]
        fin c4(4) c5_def [symmetric] c6_def [symmetric] out_def
      by simp
  qed
  have "enc_idle k' (c6\<lparr>tx_decode_len := 0\<rparr>)" "tx_flag_idle c6 = FLAGS ! k'"
    using c6(4) by (simp_all add: enc_idle_def)
  moreover have "length (lead_bits k @ body @ flag_bits) + 8 * p = 8 * length out + k'"
    using total len6 unfolding st5 by simp
  moreover have "bits8s out = take (8 * length out)
      (lead_bits k @ body @ flag_bits @ concat (replicate p (bits8 (FLAGS ! k'))))"
    using bits unfolding c6(1) .
  moreover have "wanpipe_hdlc_encode data e = (out, FLAGS ! k', e\<lparr>encoder := c6\<lparr>tx_decode_len := 0\<rparr>\<rparr>)"
    using run calculation(2) by simp
  ultimately show ?thesis
    using p(1) four k'_def
    by (intro exI [of _ k'] exI [of _ p] exI [of _ out] exI [of _ "FLAGS ! k'"]
        exI [of _ "e\<lparr>encoder := c6\<lparr>tx_decode_len := 0\<rparr>\<rparr>"] conjI) simp_all
qed

end
