(* ===== verification/Hdlc_Link.thy ===== *)
theory Hdlc_Link
  imports Hdlc_Encode
begin

unbundle bit_operations_syntax

text \<open>
  The properties of lip_hdlc/wanpipe_hdlc_eng.c: packets from an encoder to a decoder
  (\<open>hdlc_round_trip\<close>), the refinement of the decoder, the octets of a packet, damaged
  packets, backup and restore, and the end of the decode buffer.
\<close>

section \<open>The machine on stuffed bits and flags\<close>

abbreviation fresh :: hview where
  "fresh \<equiv> \<lparr>v_open = True, v_unit = ([], []), v_ones = 0\<rparr>"

abbreviation unopened :: hview where
  "unopened \<equiv> \<lparr>v_open = False, v_unit = ([], []), v_ones = 0\<rparr>"

lemma hrun_stuff:
  assumes "k < 5" "unat (v_ones v) = k"
  shows "\<exists>n. hrun (stuff k bs) v =
      (\<lparr>v_open = v_open v, v_unit = (if v_open v then su_pushes (v_unit v) bs else v_unit v), v_ones = n\<rparr>, []) \<and>
    unat n < 5"
  using assms
proof (induction bs arbitrary: k v)
  case Nil
  then show ?case by (cases v) auto
next
  case (Cons b bs)
  obtain x u n where v: "v = \<lparr>v_open = x, v_unit = u, v_ones = n\<rparr>" by (cases v)
  let ?w = "\<lambda>m. \<lparr>v_open = x, v_unit = (if x then su_push b u else u), v_ones = m\<rparr>"
  have n: "unat n = k" "n \<noteq> 5" "n \<noteq> 6" using Cons.prems by (auto simp: v)
  show ?case
  proof (cases b)
    case False
    then have "hstep False v = (?w 0, [])" using n by (simp add: hstep_def v Let_def)
    then show ?thesis
      using Cons.IH [of 0 "?w 0"] False by (cases x) (simp_all add: v Let_def del: su_push.simps)
  next
    case True
    have one: "hstep True v = (?w (n + 1), [])" using True by (simp add: hstep_def v Let_def)
    have n1: "unat (n + 1) = Suc k" using n Cons.prems(1) by (simp add: unat_inc8)
    show ?thesis
    proof (cases "Suc k = 5")
      case False
      then show ?thesis
        using Cons.IH [of "Suc k" "?w (n + 1)"] n1 True one Cons.prems(1)
        by (cases x) (simp_all add: v Let_def del: su_push.simps)
    next
      case five: True
      then have "n + 1 = 5" using n1 by (simp add: word_unat_eq_iff)
      then have two: "hstep False (?w (n + 1)) = (?w 0, [])" by (simp add: hstep_def)
      show ?thesis
        using Cons.IH [of 0 "?w 0"] five True one two
        by (cases x) (simp_all add: v Let_def del: su_push.simps)
    qed
  qed
qed

text \<open>A flag in a packet of whole octets, and a flag before any.\<close>

lemma hrun_flag_open:
  assumes "unat n < 5"
  shows "hrun flag_bits \<lparr>v_open = True, v_unit = (os, []), v_ones = n\<rparr> =
    (if length os < 3 then (fresh, []) else if crc_ok os then (fresh, [os]) else (unopened, []))"
proof -
  have n: "n \<noteq> 5" "n \<noteq> 6" using assms by auto
  then show ?thesis by (simp add: flag_bits_def hstep_def Let_def)
qed

lemma hrun_flag_unopened:
  assumes "unat n < 5"
  shows "hrun flag_bits \<lparr>v_open = False, v_unit = ([], []), v_ones = n\<rparr> = (fresh, [])"
proof -
  have n: "n \<noteq> 5" "n \<noteq> 6" using assms by auto
  then show ?thesis by (simp add: flag_bits_def hstep_def Let_def)
qed

lemma crc_ok_packet: "crc_ok (data @ fcs_octets (crc_of data))"
  by (simp add: crc_ok_def fcs_octets_def)

definition up_packet :: "u8 list \<Rightarrow> u8 list list" where
  "up_packet data = (if data = [] then [] else [data @ fcs_octets (crc_of data)])"

lemma hrun_flag:
  assumes "unat n < 5"
  shows "hrun flag_bits \<lparr>v_open = True, v_unit = (data @ fcs_octets (crc_of data), []), v_ones = n\<rparr> =
    (fresh, up_packet data)"
proof -
  have "length (data @ fcs_octets (crc_of data)) < 3 \<longleftrightarrow> data = []"
    by (cases data) (auto simp: fcs_octets_def)
  then show ?thesis
    using hrun_flag_open [OF assms] crc_ok_packet [of data] by (simp add: up_packet_def)
qed

section \<open>Between packets\<close>

text \<open>
  What the encoder leaves after the octets of a packet: the flag and \<open>p\<close> octets of
  padding, less the \<open>k\<close> bits that the next call sends first.
\<close>

definition tail_bits :: "nat \<Rightarrow> nat \<Rightarrow> bool list" where
  "tail_bits p k = take (8 + 8 * p - k) (flag_bits @ concat (replicate p (bits8 (FLAGS ! k))))"

text \<open>
  For the few bits between packets the counts are enough: \<open>m\<close> bits of a packet and
  \<open>c\<close> ones in a row. The run is \<open>None\<close> where a packet could end.
\<close>

fun jrun :: "bool list \<Rightarrow> nat \<Rightarrow> nat \<Rightarrow> (nat \<times> nat) option" where
  "jrun [] m c = Some (m, c)"
| "jrun (b # bs) m c =
     (if b then if c < 200 then jrun bs (m + 1) (c + 1) else None
      else if c = 5 then jrun bs m 0
      else if c = 6 then if m < 24 then jrun bs 0 0 else None
      else jrun bs (m + 1) 0)"

definition hcounts :: "nat \<Rightarrow> nat \<Rightarrow> hview \<Rightarrow> bool" where
  "hcounts m c u \<longleftrightarrow> v_open u \<and> length (snd (v_unit u)) < 8 \<and> hsize u = m \<and> unat (v_ones u) = c"

lemma hcounts_fresh: "hcounts 0 0 u \<longleftrightarrow> u = fresh"
  by (cases u) (auto simp: hcounts_def hsize_def unat_eq_0)

lemma hcounts_unit:
  "hcounts m c \<lparr>v_open = True, v_unit = w, v_ones = n\<rparr> \<Longrightarrow> unat n' = c' \<Longrightarrow>
    hcounts (m + 1) c' \<lparr>v_open = True, v_unit = su_push b w, v_ones = n'\<rparr>"
  by (cases w) (auto simp: hcounts_def hsize_def)

lemma hrun_counts:
  "jrun bs m c = Some (m', c') \<Longrightarrow> hcounts m c u \<Longrightarrow>
    hrun bs u = (fst (hrun bs u), []) \<and> hcounts m' c' (fst (hrun bs u))"
proof (induction bs m c arbitrary: u rule: jrun.induct)
  case (2 b bs m c)
  obtain w n where u: "u = \<lparr>v_open = True, v_unit = w, v_ones = n\<rparr>"
    using "2.prems"(2) by (cases u) (auto simp: hcounts_def)
  have n: "unat n = c" "n = 5 \<longleftrightarrow> c = 5" "n = 6 \<longleftrightarrow> c = 6"
    using "2.prems"(2) by (auto simp: u hcounts_def word_unat_eq_iff)
  note push = hcounts_unit [OF "2.prems"(2) [unfolded u]]
  consider (one) "b" "c < 200" | (drop) "\<not> b" "c = 5" | (flag) "\<not> b" "c = 6" "m < 24"
    | (zero) "\<not> b" "c \<noteq> 5" "c \<noteq> 6"
    using "2.prems"(1) by (auto split: if_splits)
  then show ?case
  proof cases
    case one
    have "unat (n + 1) = c + 1" using n one by (simp add: unat_inc8)
    then show ?thesis
      using "2.IH"(1) [OF one _ push] one "2.prems"(1)
      by (simp add: u hstep_def Let_def split_def del: su_push.simps)
  next
    case drop
    have "hcounts m 0 (u\<lparr>v_ones := 0\<rparr>)"
      using "2.prems"(2) by (simp add: hcounts_def hsize_def)
    then show ?thesis
      using "2.IH"(2) drop "2.prems"(1) n by (simp add: u hstep_def Let_def split_def)
  next
    case flag
    then have "\<not> 3 \<le> length (fst w)"
      using "2.prems"(2) by (auto simp: u hcounts_def hsize_def)
    then show ?thesis
      using "2.IH"(3) flag "2.prems"(1) n by (simp add: u hstep_def Let_def split_def hcounts_fresh)
  next
    case zero
    then show ?thesis
      using "2.IH"(4) [OF zero _ push [of 0 0]] "2.prems"(1) n
      by (simp add: u hstep_def Let_def split_def del: su_push.simps)
  qed
qed simp

text \<open>\<open>settles k u\<close>: idle octets and the start of a packet leave nothing behind.\<close>

definition settles_at :: "nat \<Rightarrow> nat \<Rightarrow> nat \<Rightarrow> bool" where
  "settles_at k m c \<longleftrightarrow> m \<le> 40 \<and> jrun (lead_bits k) m c = Some (0, 0) \<and>
     (case jrun (bits8 (FLAGS ! k)) m c of None \<Rightarrow> False
      | Some (m', c') \<Rightarrow> m' \<le> 40 \<and> jrun (lead_bits k) m' c' = Some (0, 0) \<and>
          jrun (bits8 (FLAGS ! k)) m' c' = Some (m', c'))"

definition tail_good :: "nat \<Rightarrow> nat \<Rightarrow> bool" where
  "tail_good p k \<longleftrightarrow>
     length (tail_bits p k) \<le> 32 \<and>
     take 8 (tail_bits p k @ bits8 (FLAGS ! k)) = flag_bits \<and>
     take 8 (tail_bits p k @ lead_bits k) = flag_bits \<and>
     jrun (drop 8 (tail_bits p k @ lead_bits k)) 0 0 = Some (0, 0) \<and>
     (case jrun (drop 8 (tail_bits p k @ bits8 (FLAGS ! k))) 0 0 of None \<Rightarrow> False
      | Some (m, c) \<Rightarrow> settles_at k m c)"

lemma tails_good: "list_all (\<lambda>p. list_all (tail_good p) [0, 1, 2, 3, 4, 5, 6, 7]) [0, 1, 2, 3]"
  by code_simp

lemma tail_goodI: "p \<le> 3 \<Longrightarrow> k < 8 \<Longrightarrow> tail_good p k"
proof -
  assume "p \<le> 3" "k < 8"
  then have "p \<in> set [0, 1, 2, 3]" "k \<in> set [0, 1, 2, 3, 4, 5, 6, 7]" by auto
  then show "tail_good p k" using tails_good unfolding list_all_iff by blast
qed

definition settles :: "nat \<Rightarrow> hview \<Rightarrow> bool" where
  "settles k u \<longleftrightarrow> (\<exists>m c. hcounts m c u \<and> settles_at k m c)"

lemma settlesD:
  assumes "settles k u"
  shows "hrun (lead_bits k) u = (fresh, [])" "hsize u \<le> 40" "snd (hrun (bits8 (FLAGS ! k)) u) = []"
    "settles k (fst (hrun (bits8 (FLAGS ! k)) u))"
proof -
  obtain m c m' c' where s: "hcounts m c u" "m \<le> 40" "jrun (lead_bits k) m c = Some (0, 0)"
    "jrun (bits8 (FLAGS ! k)) m c = Some (m', c')" "settles_at k m' c'"
    using assms by (auto simp: settles_def settles_at_def split: option.splits)
  show "hrun (lead_bits k) u = (fresh, [])" using hrun_counts [OF s(3,1)] by (metis hcounts_fresh)
  show "hsize u \<le> 40" using s(1,2) by (simp add: hcounts_def)
  show "snd (hrun (bits8 (FLAGS ! k)) u) = []" "settles k (fst (hrun (bits8 (FLAGS ! k)) u))"
    using hrun_counts [OF s(4,1)] s(5) by (metis snd_conv, auto simp: settles_def)
qed

lemma tail_goodD:
  assumes "tail_good p k"
  shows "length (tail_bits p k) \<le> 32" "take 8 (tail_bits p k @ bits8 (FLAGS ! k)) = flag_bits"
    "take 8 (tail_bits p k @ lead_bits k) = flag_bits"
    "hrun (drop 8 (tail_bits p k @ lead_bits k)) fresh = (fresh, [])"
    "snd (hrun (drop 8 (tail_bits p k @ bits8 (FLAGS ! k))) fresh) = []"
    "settles k (fst (hrun (drop 8 (tail_bits p k @ bits8 (FLAGS ! k))) fresh))"
proof -
  show "length (tail_bits p k) \<le> 32" "take 8 (tail_bits p k @ bits8 (FLAGS ! k)) = flag_bits"
    "take 8 (tail_bits p k @ lead_bits k) = flag_bits" using assms by (simp_all add: tail_good_def)
  have 0: "hcounts 0 0 fresh" by (simp only: hcounts_fresh)
  have "jrun (drop 8 (tail_bits p k @ lead_bits k)) 0 0 = Some (0, 0)"
    using assms by (simp add: tail_good_def)
  from hrun_counts [OF this 0] show "hrun (drop 8 (tail_bits p k @ lead_bits k)) fresh = (fresh, [])"
    by (metis hcounts_fresh)
  obtain m c where "jrun (drop 8 (tail_bits p k @ bits8 (FLAGS ! k))) 0 0 = Some (m, c)" and s: "settles_at k m c"
    using assms by (auto simp: tail_good_def split: option.splits)
  from hrun_counts [OF this(1) 0] s
  show "snd (hrun (drop 8 (tail_bits p k @ bits8 (FLAGS ! k))) fresh) = []"
    "settles k (fst (hrun (drop 8 (tail_bits p k @ bits8 (FLAGS ! k))) fresh))"
    by (metis snd_conv, auto simp: settles_def)
qed

definition between :: "nat \<Rightarrow> u8 list list \<Rightarrow> hview \<Rightarrow> bool" where
  "between k ps v \<longleftrightarrow> k < 8 \<and> hrun (lead_bits k) v = (fresh, ps) \<and> hfits (lead_bits k) v \<and>
     snd (hrun (bits8 (FLAGS ! k)) v) = ps \<and> hfits (bits8 (FLAGS ! k)) v \<and>
     settles k (fst (hrun (bits8 (FLAGS ! k)) v))"

lemma length_lead_bits: "k < 8 \<Longrightarrow> length (lead_bits k) \<le> 23"
  by (simp add: lead_bits_def)

lemma settles_between: "k < 8 \<Longrightarrow> settles k u \<Longrightarrow> between k [] u"
  using length_lead_bits [of k] settlesD [of k u] by (simp add: between_def hfits_length)

lemma unopened_between: "between 0 [] unopened"
proof -
  have "hrun (lead_bits 0) unopened = (fresh, [])" "hrun (bits8 (FLAGS ! 0)) unopened = (fresh, [])"
    "settles_at 0 0 0" by code_simp+
  moreover have "hcounts 0 0 fresh" by (simp only: hcounts_fresh)
  ultimately show ?thesis by (auto simp: between_def hfits_length hsize_def lead_bits_def settles_def)
qed

text \<open>Idle octets: whatever the last flag had yet to close is delivered, nothing else.\<close>

lemma settles_idle:
  "settles k u \<Longrightarrow> snd (hrun (bits8s (replicate n (FLAGS ! k))) u) = [] \<and>
    settles k (fst (hrun (bits8s (replicate n (FLAGS ! k))) u)) \<and>
    hfits (bits8s (replicate n (FLAGS ! k))) u"
proof (induction n arbitrary: u)
  case (Suc n)
  note u = settlesD [OF Suc.prems]
  show ?case using Suc.IH [OF u(4)] u by (simp add: hrun_append hfits_append hfits_length)
next
  case 0
  then show ?case using settlesD [OF 0] by simp
qed

lemma between_idle:
  fixes n :: nat
  assumes b: "between k ps v"
  defines "r \<equiv> hrun (bits8s (replicate n (FLAGS ! k))) v"
  shows "snd r = (if n = 0 then [] else ps) \<and> between k (if n = 0 then ps else []) (fst r) \<and>
    hfits (bits8s (replicate n (FLAGS ! k))) v"
proof (cases n)
  case 0
  have "hsize v < 79984" using b hfits_start by (auto simp: between_def)
  then show ?thesis using 0 b by (simp add: r_def)
next
  case (Suc m)
  let ?F = "bits8 (FLAGS ! k)" and ?G = "bits8s (replicate m (FLAGS ! k))"
  have k: "k < 8" and F: "snd (hrun ?F v) = ps" "hfits ?F v" "settles k (fst (hrun ?F v))"
    using b by (simp_all add: between_def)
  note G = settles_idle [OF F(3), of m]
  have "r = (fst (hrun ?G (fst (hrun ?F v))), ps)"
    using F(1) G by (simp add: r_def Suc hrun_append)
  moreover have "between k [] (fst (hrun ?G (fst (hrun ?F v))))"
    using k G by (blast intro: settles_between)
  moreover have "hfits (bits8s (replicate n (FLAGS ! k))) v"
    using F(2) G by (simp add: Suc hfits_append)
  ultimately show ?thesis by (simp add: Suc)
qed

text \<open>One packet: the pending one goes up, the new one becomes the pending one.\<close>

lemma between_packet:
  assumes b: "between k ps v" and k': "k' < 8" and p: "p \<le> 3" and len: "length data \<le> 8000"
  defines "body \<equiv> stuff 0 (bits8s (data @ fcs_octets (crc_of data)))"
  defines "r \<equiv> hrun (lead_bits k @ body @ tail_bits p k') v"
  shows "\<exists>qs rs. snd r = ps @ qs \<and> between k' rs (fst r) \<and> qs @ rs = up_packet data \<and>
    hfits (lead_bits k @ body @ tail_bits p k') v"
proof -
  have lead: "hrun (lead_bits k) v = (fresh, ps)" "hfits (lead_bits k) v"
    using b by (simp_all add: between_def)
  obtain n where body: "hrun body fresh =
      (\<lparr>v_open = True, v_unit = (data @ fcs_octets (crc_of data), []), v_ones = n\<rparr>, [])" and n: "unat n < 5"
    using hrun_stuff [of 0 fresh "bits8s (data @ fcs_octets (crc_of data))"]
    unfolding body_def by (force simp del: bits8s_simps simp: su_pushes_octets)
  define w where "w = \<lparr>v_open = True, v_unit = (data @ fcs_octets (crc_of data), []), v_ones = n\<rparr>"
  let ?T = "tail_bits p k'" and ?F = "bits8 (FLAGS ! k')" and ?L = "lead_bits k'"
  note good = tail_goodD [OF tail_goodI [OF p k']]
  have flag: "hrun flag_bits w = (fresh, up_packet data)" using hrun_flag [OF n] by (simp add: w_def)
  have split: "hrun (?T @ ys) w = (fst (hrun (drop 8 (?T @ ys)) fresh), up_packet data @ snd (hrun (drop 8 (?T @ ys)) fresh))"
    if "take 8 (?T @ ys) = flag_bits" for ys
  proof -
    have "?T @ ys = flag_bits @ drop 8 (?T @ ys)" by (simp only: that [symmetric] append_take_drop_id)
    then show ?thesis by (metis hrun_append flag fst_conv snd_conv)
  qed
  have TF: "snd (hrun (?T @ ?F) w) = up_packet data" "settles k' (fst (hrun (?T @ ?F) w))"
    and TL: "hrun (?T @ ?L) w = (fresh, up_packet data)"
    using split [of ?F] split [of ?L] good by simp_all
  define x qs where "x = fst (hrun ?T w)" and "qs = snd (hrun ?T w)"
  have T: "hrun ?T w = (x, qs)" by (simp add: x_def qs_def)
  have r: "r = (x, ps @ qs)"
    unfolding r_def hrun_append lead(1) using body T by (simp add: hrun_append w_def)
  have "5 * length body \<le> 6 * (8 * (length data + 2))"
    using length_stuff_div [of 0 "bits8s (data @ fcs_octets (crc_of data))"] by (simp add: body_def fcs_octets_def)
  then have small: "length (body @ ?T @ ?L) < 79984" "length (body @ ?T @ ?F) < 79984"
    using good length_lead_bits [OF k'] len by simp_all
  have "hfits (body @ ?T @ ?L) fresh" "hfits (body @ ?T @ ?F) fresh"
    using small by (auto intro!: hfits_length simp: hsize_def)
  then have fits: "hfits (body @ ?T) fresh" "hfits ?L x" "hfits ?F x"
    unfolding hfits_append body [folded w_def] x_def by simp_all
  from TF TL have x: "qs @ snd (hrun ?F x) = up_packet data" "settles k' (fst (hrun ?F x))"
    "fst (hrun ?L x) = fresh" "qs @ snd (hrun ?L x) = up_packet data"
    by (simp_all add: hrun_append T)
  then have eq: "snd (hrun ?L x) = snd (hrun ?F x)" by (metis same_append_eq)
  have "between k' (snd (hrun ?F x)) x"
    using k' x fits eq by (simp add: between_def prod_eq_iff)
  moreover have "hfits (lead_bits k @ body @ ?T) v" using lead fits(1) by (simp add: hfits_append)
  ultimately show ?thesis using r x(1) by auto
qed
section \<open>The encoder call by call\<close>

lemma encode_tail:
  assumes idle: "enc_idle k (encoder e)" and eight: "\<not> seven_bit_hdlc e" and len: "length data \<le> 8000"
  shows "\<exists>k' p out nxt e'. wanpipe_hdlc_encode data e = (out, nxt, e') \<and> p \<le> 3 \<and> k' < 8 \<and>
    bits8s out = lead_bits k @ stuff 0 (bits8s (data @ fcs_octets (crc_of data))) @ tail_bits p k' \<and>
    length out mod 4 = 0 \<and> enc_idle k' (encoder e') \<and> \<not> seven_bit_hdlc e'"
proof -
  let ?body = "stuff 0 (bits8s (data @ fcs_octets (crc_of data)))"
  obtain k' p out nxt e' where 1: "wanpipe_hdlc_encode data e = (out, nxt, e')" "p \<le> 3"
    "length (lead_bits k @ ?body @ flag_bits) + 8 * p = 8 * length out + k'" "length out mod 4 = 0"
    "bits8s out = take (8 * length out) (lead_bits k @ ?body @ flag_bits @ concat (replicate p (bits8 (FLAGS ! k'))))"
    "enc_idle k' (encoder e')" "e' = e\<lparr>encoder := encoder e'\<rparr>"
    using wanpipe_hdlc_encode_line [OF idle eight len] by (elim exE conjE) (rule that)
  have k': "k' < 8" using 1(6) by (simp add: enc_idle_def)
  have l: "8 * length out = length (lead_bits k @ ?body) + (8 + 8 * p - k')" using 1(3) k' by simp
  have "bits8s out = lead_bits k @ ?body @ tail_bits p k'"
    unfolding 1(5) l tail_bits_def by simp
  moreover have "\<not> seven_bit_hdlc e'" using eight by (subst 1(7)) simp
  ultimately show ?thesis
    using 1(1,2,4,6) k' by (intro exI conjI) (assumption+)
qed

lemma bits8s_snoc: "bits8s (replicate (Suc n) x) = bits8s (replicate n x) @ bits8 x"
  by (induction n) simp_all

lemma encode_idle_line:
  assumes idle: "enc_idle k (encoder e)" and eight: "\<not> seven_bit_hdlc e" and n: "n \<le> 9999"
  shows "\<exists>e'. wanpipe_hdlc_encode_idle n e = (replicate n (FLAGS ! k), e') \<and> enc_idle k (encoder e') \<and>
    \<not> seven_bit_hdlc e'"
proof -
  let ?step = "\<lambda>_ :: nat. \<lambda>c. encode_byte (tx_flag_idle c) 2 c"
  let ?st = "enc_start (encoder e)"
  have i: "tx_flag_idle ?st = FLAGS ! k" using idle by (simp add: enc_idle_def enc_start_same)
  have run: "enc_stream (fold ?step [0..<n] c) = enc_stream c @ bits8s (replicate n (FLAGS ! k)) \<and>
      enc_room (fold ?step [0..<n] c) m \<and> enc_same c (fold ?step [0..<n] c)"
    if "enc_room c (8 * n + m)" "tx_flag_idle c = FLAGS ! k" for c m
    using that
  proof (induction n arbitrary: m)
    case (Suc n)
    have r: "enc_room c (8 * n + (8 + m))" using Suc.prems(1) by (simp add: ac_simps)
    let ?d = "fold ?step [0..<n] c"
    note 1 = Suc.IH [OF r Suc.prems(2)]
    have fi: "tx_flag_idle ?d = FLAGS ! k" using 1 Suc.prems(2) by (simp add: enc_same_def)
    have "enc_room ?d (8 + m)" using 1 by simp
    note 2 = encode_byte_2_line [OF this, of "FLAGS ! k"]
    note bits8s_snoc [of n "FLAGS ! k"]
    moreover have "enc_same c (encode_byte (FLAGS ! k) 2 ?d)"
      using 1 2(3) by (blast intro: enc_same_trans)
    ultimately show ?case using 1 2(1,2) fi by (simp del: replicate_Suc)
  qed simp
  let ?c = "fold ?step [0..<n] ?st"
  have r0: "enc_room ?st (8 * n + 0)" and s0: "enc_stream ?st = []" "wid ?st = 8"
    using enc_start_ok [of "encoder e"] idle n enc_sink.room_mono [of ?st 79999 "8 * n"]
    by (simp_all add: enc_idle_def)
  from run [OF r0 i] have c: "enc_stream ?c = bits8s (replicate n (FLAGS ! k))" "enc_room ?c 0" "enc_same ?st ?c"
    by (simp_all add: s0)
  have ok: "enc_ok ?c" "wid ?c = 8" using c s0(2) by (simp_all add: enc_room_def enc_same_wid)
  have len: "unat (tx_decode_len ?c) = n" using enc_len_cnt(1) [OF ok] c(1) by simp
  have "bits8s (arr_take n (tx_decode_buf ?c)) = bits8s (replicate n (FLAGS ! k))"
    using enc_octets [OF ok] c(1) len by simp
  then have "arr_take n (tx_decode_buf ?c) = replicate n (FLAGS ! k)"
    by (subst (asm) bits8s_inject) simp_all
  moreover have "enc_idle k ?c"
    using idle c(3) ok(1) by (simp add: enc_idle_def enc_same_def enc_start_same enc_ok_def)
  ultimately show ?thesis using eight by (simp add: wanpipe_hdlc_encode_idle_def Let_def)
qed

section \<open>A line between two engines\<close>

datatype hdlc_send = Packet "u8 list" | Idle nat

fun hdlc_send1 :: "hdlc_send \<Rightarrow> hdlc_engine \<Rightarrow> u8 list \<times> hdlc_engine" where
  "hdlc_send1 (Packet data) tx = (let (out, _, tx') = wanpipe_hdlc_encode data tx in (out, tx'))"
| "hdlc_send1 (Idle n) tx = wanpipe_hdlc_encode_idle n tx"

text \<open>Every buffer of the sender is one buffer of the receiver.\<close>

fun hdlc_wire :: "hdlc_send list \<Rightarrow> hdlc_engine \<times> hdlc_engine \<Rightarrow> hdlc_engine \<times> hdlc_engine" where
  "hdlc_wire [] s = s"
| "hdlc_wire (x # xs) (tx, rx) =
     (let (out, tx') = hdlc_send1 x tx; (_, rx') = wanpipe_hdlc_decode out rx
      in hdlc_wire xs (tx', rx'))"

fun send_fits :: "hdlc_send \<Rightarrow> bool" where
  "send_fits (Packet data) \<longleftrightarrow> length data \<le> 8000"
| "send_fits (Idle n) \<longleftrightarrow> n \<le> 9999"

fun sent_up :: "hdlc_send \<Rightarrow> u8 list list" where
  "sent_up (Packet data) = up_packet data"
| "sent_up (Idle n) = []"

text \<open>The two ends agree; \<open>ps\<close> is what the receiver has yet to deliver.\<close>

definition wire_inv :: "u8 list list \<Rightarrow> hdlc_engine \<times> hdlc_engine \<Rightarrow> bool" where
  "wire_inv ps s \<longleftrightarrow> \<not> seven_bit_hdlc (fst s) \<and> \<not> seven_bit_hdlc (snd s) \<and> has_hdlc_data (snd s) \<and>
     (\<exists>k v. enc_idle k (encoder (fst s)) \<and> views v (decoder (snd s)) \<and> between k ps v)"

lemma eng_bits_8: "eng_bits False = bits8"
  by (simp add: eng_bits_def fun_eq_iff)

lemma decode_8:
  assumes "views v (decoder e)" "hfits (bits8s buf) v" "\<not> seven_bit_hdlc e" "has_hdlc_data e"
  shows "\<exists>got e'. wanpipe_hdlc_decode buf e = (got, e') \<and> views (fst (hrun (bits8s buf) v)) (decoder e') \<and>
    packets_up (decoder e') = packets_up (decoder e) @ snd (hrun (bits8s buf) v) \<and>
    \<not> seven_bit_hdlc e' \<and> has_hdlc_data e'"
proof -
  have b: "concat (map (eng_bits (seven_bit_hdlc e)) buf) = bits8s buf"
    using assms(3) by (simp add: eng_bits_8 bits8s_def)
  obtain got e' where 1: "wanpipe_hdlc_decode buf e = (got, e')" by fastforce
  have 2: "views (fst (hrun (bits8s buf) v)) (decoder e')"
      "packets_up (decoder e') = packets_up (decoder e) @ snd (hrun (bits8s buf) v)"
      "e' = e\<lparr>decoder := decoder e'\<rparr>"
    using decode_views [of v e buf] assms 1 unfolding b by (simp_all add: case_prod_unfold Let_def)
  have "\<not> seven_bit_hdlc e'" "has_hdlc_data e'" using assms(3,4) by (subst 2(3), simp)+
  with 1 2 show ?thesis by blast
qed

lemma wire_step:
  assumes "wire_inv ps (tx, rx)" "send_fits x"
  shows "\<exists>out tx' got rx' ps'. hdlc_send1 x tx = (out, tx') \<and> wanpipe_hdlc_decode out rx = (got, rx') \<and>
    wire_inv ps' (tx', rx') \<and>
    packets_up (decoder rx') @ ps' = packets_up (decoder rx) @ ps @ sent_up x \<and>
    (\<forall>n. x = Idle (Suc n) \<longrightarrow> ps' = [])"
proof -
  obtain k v where k: "enc_idle k (encoder tx)" and v: "views v (decoder rx)" and b: "between k ps v"
    and e: "\<not> seven_bit_hdlc tx" "\<not> seven_bit_hdlc rx" "has_hdlc_data rx"
    using assms(1) by (auto simp: wire_inv_def)
  show ?thesis
  proof (cases x)
    case (Packet data)
    obtain k' p out nxt tx' where o1: "wanpipe_hdlc_encode data tx = (out, nxt, tx')" and p: "p \<le> 3" "k' < 8"
      and bits: "bits8s out = lead_bits k @ stuff 0 (bits8s (data @ fcs_octets (crc_of data))) @ tail_bits p k'"
      and k2: "enc_idle k' (encoder tx')" "\<not> seven_bit_hdlc tx'"
      using encode_tail [OF k e(1), of data] assms(2) Packet by auto
    obtain qs rs where q: "snd (hrun (bits8s out) v) = ps @ qs" "between k' rs (fst (hrun (bits8s out) v))"
      "qs @ rs = up_packet data" "hfits (bits8s out) v"
      using between_packet [OF b p(2,1), of data] assms(2) Packet unfolding bits by auto
    obtain got rx' where d: "wanpipe_hdlc_decode out rx = (got, rx')"
      "views (fst (hrun (bits8s out) v)) (decoder rx')"
      "packets_up (decoder rx') = packets_up (decoder rx) @ ps @ qs" "\<not> seven_bit_hdlc rx'" "has_hdlc_data rx'"
      using decode_8 [OF v q(4) e(2,3)] q(1) by auto
    have "wire_inv rs (tx', rx')" using k2 d q(2) by (auto simp: wire_inv_def)
    then show ?thesis using o1 d q(3) Packet by (auto simp: Let_def)
  next
    case (Idle n)
    obtain tx' where o1: "wanpipe_hdlc_encode_idle n tx = (replicate n (FLAGS ! k), tx')"
      and k2: "enc_idle k (encoder tx')" "\<not> seven_bit_hdlc tx'"
      using encode_idle_line [OF k e(1), of n] assms(2) Idle by auto
    let ?out = "replicate n (FLAGS ! k)"
    note q = between_idle [OF b, of n]
    obtain got rx' where d: "wanpipe_hdlc_decode ?out rx = (got, rx')"
      "views (fst (hrun (bits8s ?out) v)) (decoder rx')"
      "packets_up (decoder rx') = packets_up (decoder rx) @ snd (hrun (bits8s ?out) v)"
      "\<not> seven_bit_hdlc rx'" "has_hdlc_data rx'"
      using decode_8 [OF v _ e(2,3), of ?out] q by auto
    have "wire_inv (if n = 0 then ps else []) (tx', rx')"
      unfolding wire_inv_def fst_conv snd_conv using k2 d q by blast
    then show ?thesis using o1 d(1,3) q Idle by (auto simp: Let_def)
  qed
qed

lemma wire_run:
  assumes "wire_inv ps s" "\<forall>x \<in> set xs. send_fits x"
  shows "\<exists>ps'. wire_inv ps' (hdlc_wire xs s) \<and>
    packets_up (decoder (snd (hdlc_wire xs s))) @ ps' =
      packets_up (decoder (snd s)) @ ps @ concat (map sent_up xs)"
  using assms
proof (induction xs arbitrary: ps s)
  case Nil
  then show ?case by auto
next
  case (Cons x xs)
  obtain tx rx where s: "s = (tx, rx)" by fastforce
  obtain out tx' got rx' ps' where 1: "hdlc_send1 x tx = (out, tx')" "wanpipe_hdlc_decode out rx = (got, rx')"
    "wire_inv ps' (tx', rx')" "packets_up (decoder rx') @ ps' = packets_up (decoder rx) @ ps @ sent_up x"
    using wire_step [of ps tx rx x] Cons.prems by (auto simp: s)
  from Cons.IH [OF 1(3)] Cons.prems(2) show ?case
    using 1(1,2,4) by (auto simp: s Let_def simp flip: append_assoc)
qed

lemma wire_append: "hdlc_wire (xs @ ys) s = hdlc_wire ys (hdlc_wire xs s)"
  by (induction xs s rule: hdlc_wire.induct) (simp_all add: Let_def split: prod.splits)

lemma wire_idle_end:
  assumes "wire_inv ps s" "n \<le> 9998"
  shows "packets_up (decoder (snd (hdlc_wire [Idle (Suc n)] s))) = packets_up (decoder (snd s)) @ ps"
proof -
  obtain tx rx where s: "s = (tx, rx)" by fastforce
  obtain out tx' got rx' ps' where 1: "hdlc_send1 (Idle (Suc n)) tx = (out, tx')"
    "wanpipe_hdlc_decode out rx = (got, rx')" 
    "packets_up (decoder rx') @ ps' = packets_up (decoder rx) @ ps @ sent_up (Idle (Suc n))" "ps' = []"
    using wire_step [of ps tx rx "Idle (Suc n)"] assms by (auto simp: s)
  then show ?thesis by (simp add: s Let_def)
qed

lemma wire_start:
  assumes "wanpipe_reg_hdlc_engine True False = Some tx" "wanpipe_reg_hdlc_engine True False = Some rx0"
  shows "wire_inv [] (tx, rx0\<lparr>has_hdlc_data := True\<rparr>)"
proof -
  have tx: "encoder tx = init_hdlc_encoder zero_encoder" "\<not> seven_bit_hdlc tx"
    and rx: "decoder rx0 = init_hdlc_decoder zero_decoder" "\<not> seven_bit_hdlc rx0"
    using assms by (auto simp: wanpipe_reg_hdlc_engine_def init_hdlc_encoder_def)
  then show ?thesis
    using enc_idle_init views_fresh unopened_between by (auto simp: wire_inv_def)
qed
section \<open>Damage\<close>

lemma crc_ok_residue: "crc_ok os \<Longrightarrow> 2 \<le> length os \<Longrightarrow> fcs_check crc_update os = 0xf0b8"
  using hdlc_fcs.check_good [of "take (length os - 2) os"] append_take_drop_id [of "length os - 2" os]
  by (simp add: crc_ok_def crc_of_def)

lemma damaged_not_ok:
  assumes "fcs_check crc_update (p @ a # q) = 0xf0b8" "a \<noteq> b" "1 \<le> length p + length q"
  shows "\<not> crc_ok (p @ b # q)"
  using hdlc_fcs.damaged_octet_caught [OF assms(1), of b] assms(2,3) crc_ok_residue [of "p @ b # q"] by auto

text \<open>A damaged packet between flags, then stuffed bits, then a flag.\<close>

lemma hrun_damaged:
  assumes "\<not> crc_ok os" "3 \<le> length os"
  shows "hrun (flag_bits @ stuff 0 (bits8s os) @ flag_bits @ stuff 0 bs @ flag_bits) unopened = (fresh, [])"
proof -
  obtain n where 1: "hrun (stuff 0 (bits8s os)) fresh =
      (\<lparr>v_open = True, v_unit = (os, []), v_ones = n\<rparr>, [])" "unat n < 5"
    using hrun_stuff [of 0 fresh "bits8s os"] su_pushes_octets [of "[]" os] by auto
  obtain m where 2: "hrun (stuff 0 bs) unopened = (\<lparr>v_open = False, v_unit = ([], []), v_ones = m\<rparr>, [])" "unat m < 5"
    using hrun_stuff [of 0 unopened bs] by auto
  have "hrun flag_bits unopened = (fresh, [])" by (rule hrun_flag_unopened) simp
  then show ?thesis
    using hrun_flag_open [OF 1(2), of os] hrun_flag_unopened [OF 2(2)] 1(1) 2(1) assms
    by (simp add: hrun_append)
qed

section \<open>The end of the decode buffer\<close>

text \<open>\<open>in_zeros n j d\<close>: \<open>n\<close> octets and \<open>j\<close> bits of a packet of zeros are in the buffer.\<close>

definition in_zeros :: "nat \<Rightarrow> nat \<Rightarrow> hdlc_decoder \<Rightarrow> bool" where
  "in_zeros n j d \<longleftrightarrow> \<not> bit (hdlc_flag d) NO_FLAG \<and> rx_decode_onecnt d = 0 \<and>
     unat (rx_decode_len d) = n \<and> unat (rx_decode_bit_cnt d) = j"

lemma zero_bit:
  assumes "in_zeros n j d" "j < 7"
  shows "\<exists>d'. dec_bit up False (g, d) = (g, d') \<and> in_zeros n (Suc j) d'"
proof -
  have "unat (rx_decode_bit_cnt d + 1) = Suc j" "\<not> rx_decode_bit_cnt d + 1 \<ge> BITSINBYTE"
    using assms unat_inc8 [of "rx_decode_bit_cnt d"]
    by (simp_all add: in_zeros_def word_le_nat_alt BITSINBYTE_def)
  then show ?thesis
    using assms by (simp add: in_zeros_def dec_bit_def dec_zero_def dec_next_bit_def)
qed

lemma zero_octet_end:
  assumes z: "in_zeros n 7 d" and n: "n < 10000"
  shows "\<exists>d'. dec_bit up False (g, d) = (g, d') \<and> in_zeros (Suc n) 0 d' \<and> (n = 9999 \<longrightarrow> dec_fault d')"
proof -
  have c: "rx_decode_bit_cnt d + 1 \<ge> BITSINBYTE"
    using z unat_inc8 [of "rx_decode_bit_cnt d"] by (simp add: in_zeros_def word_le_nat_alt BITSINBYTE_def)
  have l: "unat (rx_decode_len d + 1) = Suc n" using z n by (simp add: in_zeros_def unat_inc32)
  then have l2: "\<not> rx_decode_len d + 1 > MAX_SOCK_HDLC_BUF"
    "rx_decode_len d + 1 < MAX_SOCK_HDLC_BUF \<longleftrightarrow> n \<noteq> 9999"
    using n by (auto simp: word_less_nat_alt MAX_SOCK_HDLC_BUF_def)
  show ?thesis
    using z c l l2
    by (auto simp: in_zeros_def dec_bit_def dec_zero_def dec_next_bit_def Let_def calc_rx_crc_def dec_store_def
        flag_bits_of_word CLOSING_FLAG_def NO_FLAG_def)
qed

lemma zero_octet:
  assumes "in_zeros n 0 d" "n < 10000"
  shows "\<exists>d'. fold (dec_bit up) (bits8 0) (g, d) = (g, d') \<and> in_zeros (Suc n) 0 d' \<and> (n = 9999 \<longrightarrow> dec_fault d')"
proof -
  have seven: "\<exists>d'. fold (dec_bit up) (replicate i False) (g, d) = (g, d') \<and> in_zeros n i d'" if "i \<le> 7" for i
    using that
  proof (induction i)
    case (Suc i)
    then obtain d1 where d1: "fold (dec_bit up) (replicate i False) (g, d) = (g, d1)" "in_zeros n i d1" by auto
    have "fold (dec_bit up) (replicate (Suc i) False) (g, d) = dec_bit up False (g, d1)"
      using d1(1) by (simp flip: replicate_append_same)
    then show ?case using zero_bit [OF d1(2)] Suc.prems by auto
  qed (use assms(1) in simp)
  obtain d1 where d1: "fold (dec_bit up) (replicate 7 False) (g, d) = (g, d1)" "in_zeros n 7 d1"
    using seven [of 7] by auto
  have "bits8 0 = replicate 7 False @ [False]" by (simp add: bits8_eq numeral_eq_Suc)
  then have "fold (dec_bit up) (bits8 0) (g, d) = dec_bit up False (g, d1)" using d1(1) by simp
  then show ?thesis using zero_octet_end [OF d1(2) assms(2)] by simp
qed

lemma zero_octets:
  assumes "in_zeros 0 0 d" "n \<le> 10000"
  shows "\<exists>d'. fold (dec_bit up) (bits8s (replicate n 0)) (g, d) = (g, d') \<and> in_zeros n 0 d' \<and>
    (n = 10000 \<longrightarrow> dec_fault d')"
  using assms(2)
proof (induction n)
  case (Suc n)
  then obtain d1 where d1: "fold (dec_bit up) (bits8s (replicate n 0)) (g, d) = (g, d1)" "in_zeros n 0 d1" by auto
  have "fold (dec_bit up) (bits8s (replicate (Suc n) 0)) (g, d) = fold (dec_bit up) (bits8 0) (g, d1)"
    using d1(1) by (simp only: bits8s_snoc fold_append comp_def)
  then show ?case using zero_octet [OF d1(2), of up g] Suc.prems by auto
qed (use assms(1) in simp)

section \<open>Backup and restore\<close>

lemma backup_bit [simp]:
  "backup (enc_next_bit c) = backup c" "backup (enc_one s c) = backup c" "backup (enc_zero c) = backup c"
  by (simp_all add: enc_next_bit_def enc_one_def enc_zero_def Let_def)

lemma backup_puts [simp]: "backup (fold enc_put bs c) = backup c" "backup (fold enc_sput bs c) = backup c"
  by (induction bs arbitrary: c) (simp_all add: enc_put_def enc_sput_def)

lemma backup_byte [simp]:
  "backup (encode_byte v 0 c) = backup c" "backup (encode_byte v 1 c) = backup c" "backup (encode_byte v 2 c) = backup c"
  by (simp_all add: encode_byte_0 encode_byte_1 encode_byte_2 Let_def del: One_nat_def)

lemma backup_pad [simp]: "backup (enc_pad n c) = backup c"
  by (induction n c rule: enc_pad.induct) (subst enc_pad.simps, simp)

lemma backup_data [simp]: "backup (fold (\<lambda>v c. encode_byte v 0 (calc_tx_crc v c)) vs c) = backup c"
  by (induction vs arbitrary: c) (simp_all add: calc_tx_crc_def)

lemma backup_encode:
  assumes "wanpipe_hdlc_encode data e = (out, nxt, e')"
  shows "backup (encoder e') = backup (encoder e)"
proof -
  have lead: "backup (enc_lead e) = backup (encoder e)"
    by (simp add: enc_lead_def enc_start_def Let_def)
  have e': "e' = snd (snd (wanpipe_hdlc_encode data e))" using assms by simp
  show ?thesis
    unfolding e' wanpipe_hdlc_encode_def Let_def snd_conv using lead by (simp del: One_nat_def)
qed

text \<open>The octets of a packet depend on the encoder only through \<open>k\<close>.\<close>

lemma encode_unique:
  assumes "enc_idle k (encoder e)" "\<not> seven_bit_hdlc e" "enc_idle k (encoder f)" "\<not> seven_bit_hdlc f"
    "length data \<le> 8000"
  shows "fst (wanpipe_hdlc_encode data e) = fst (wanpipe_hdlc_encode data f)"
proof -
  let ?body = "stuff 0 (bits8s (data @ fcs_octets (crc_of data)))"
  let ?L = "lead_bits k @ ?body"
  obtain k1 p1 o1 n1 e1 where 1: "wanpipe_hdlc_encode data e = (o1, n1, e1)" "p1 \<le> 3" "k1 = length ?L mod 8"
    "length (lead_bits k @ ?body @ flag_bits) + 8 * p1 = 8 * length o1 + k1" "length o1 mod 4 = 0"
    "bits8s o1 = take (8 * length o1) (lead_bits k @ ?body @ flag_bits @ concat (replicate p1 (bits8 (FLAGS ! k1))))"
    using wanpipe_hdlc_encode_line [OF assms(1,2,5)] by (elim exE conjE) (rule that)
  obtain k2 p2 o2 n2 e2 where 2: "wanpipe_hdlc_encode data f = (o2, n2, e2)" "p2 \<le> 3" "k2 = length ?L mod 8"
    "length (lead_bits k @ ?body @ flag_bits) + 8 * p2 = 8 * length o2 + k2" "length o2 mod 4 = 0"
    "bits8s o2 = take (8 * length o2) (lead_bits k @ ?body @ flag_bits @ concat (replicate p2 (bits8 (FLAGS ! k2))))"
    using wanpipe_hdlc_encode_line [OF assms(3,4,5)] by (elim exE conjE) (rule that)
  have k: "k2 = k1" using 1(3) 2(3) by simp
  define a where "a = length (lead_bits k @ ?body @ flag_bits)"
  have "a + 8 * p1 = 8 * length o1 + k1" "a + 8 * p2 = 8 * length o2 + k1"
    using 1(4) 2(4) k by (simp_all add: a_def)
  then have "length o1 + p2 = length o2 + p1" by linarith
  moreover obtain x y where "length o1 = 4 * x" "length o2 = 4 * y" using 1(5) 2(5) by (metis mod_0_imp_dvd dvdE)
  ultimately have "length o1 = length o2" "p1 = p2" using 1(2) 2(2) by presburger+
  moreover from this have "bits8s o1 = bits8s o2" unfolding 1(6) 2(6) k by simp
  ultimately have "o1 = o2" by (simp add: bits8s_inject)
  with 1(1) 2(1) show ?thesis by simp
qed
section \<open>Properties\<close>

definition ex_engine :: hdlc_engine where
  "ex_engine = \<lparr>decoder = init_hdlc_decoder zero_decoder, encoder = init_hdlc_encoder zero_encoder,
     seven_bit_hdlc = False, eng_bits_in_byte = 8, has_hdlc_data = False\<rparr>"

lemma ex_engine_registered: "wanpipe_reg_hdlc_engine True False = Some ex_engine"
  by (simp add: wanpipe_reg_hdlc_engine_def ex_engine_def init_hdlc_encoder_def)

lemma registered_engine: "wanpipe_reg_hdlc_engine True False = Some e \<Longrightarrow> e = ex_engine"
  by (simp add: ex_engine_registered)

text \<open>
  C5. Packets go through a line in order, whole, and nothing else comes out: whatever
  sequence of packets (at most 8000 octets) and stretches of idle octets an encoder
  sends to a decoder, the decoder hands up each packet that is not empty with its frame
  check sequence, once, in order, as soon as an idle octet has followed the last one.
  The padding to four octets and the flags cut across octets leave nothing behind.
\<close>

theorem hdlc_round_trip:
  assumes "wanpipe_reg_hdlc_engine True False = Some tx" "wanpipe_reg_hdlc_engine True False = Some rx"
    and "\<forall>x \<in> set xs. send_fits x" "n \<le> 9998"
  shows "packets_up (decoder (snd (hdlc_wire (xs @ [Idle (Suc n)]) (tx, rx\<lparr>has_hdlc_data := True\<rparr>)))) =
    concat (map sent_up xs)"
proof -
  let ?s = "(tx, rx\<lparr>has_hdlc_data := True\<rparr>)"
  obtain ps where ps: "wire_inv ps (hdlc_wire xs ?s)"
    "packets_up (decoder (snd (hdlc_wire xs ?s))) @ ps = packets_up (decoder rx) @ concat (map sent_up xs)"
    using wire_run [OF wire_start [OF assms(1,2)] assms(3)] by auto
  have "packets_up (decoder rx) = []"
    using registered_engine [OF assms(2)] by (simp add: ex_engine_def init_hdlc_decoder_def zero_decoder_def)
  then show ?thesis
    using wire_idle_end [OF ps(1) assms(4)] ps(2) by (simp add: wire_append)
qed

theorem hdlc_round_trip_witness:
  "packets_up (decoder (snd (hdlc_wire ([Packet [1, 2, 3], Idle 5, Packet [0x7e]] @ [Idle (Suc 0)])
     (ex_engine, ex_engine\<lparr>has_hdlc_data := True\<rparr>)))) =
   concat (map sent_up [Packet [1, 2, 3], Idle 5, Packet [0x7e]])"
  by (rule hdlc_round_trip [OF ex_engine_registered ex_engine_registered]) simp_all



text \<open>
  C21. What one packet becomes: two octets of the last flag, rotated, the rest of that
  flag, the octets of the packet and their check sum with zeros inserted, a flag, and
  padding up to a multiple of four octets; \<open>next_idle\<close> is the flag rotated by the
  number \<open>k'\<close> of bits that do not fill an octet, and the encoder is ready to go on
  from there.
\<close>

theorem hdlc_encode_octets:
  assumes "enc_idle k (encoder e)" "\<not> seven_bit_hdlc e" "length data \<le> 8000"
  defines "body \<equiv> stuff 0 (bits8s (data @ fcs_octets (crc_of data)))"
  shows "\<exists>k' p out nxt e'. wanpipe_hdlc_encode data e = (out, nxt, e') \<and> p \<le> 3 \<and>
    k' = length (lead_bits k @ body) mod 8 \<and>
    length (lead_bits k @ body @ flag_bits) + 8 * p = 8 * length out + k' \<and> length out mod 4 = 0 \<and>
    bits8s out = take (8 * length out)
      (lead_bits k @ body @ flag_bits @ concat (replicate p (bits8 (FLAGS ! k')))) \<and>
    enc_idle k' (encoder e') \<and> nxt = FLAGS ! k' \<and> e' = e\<lparr>encoder := encoder e'\<rparr>"
  unfolding body_def by (rule wanpipe_hdlc_encode_line [OF assms(1-3)])

theorem hdlc_encode_octets_witness:
  "\<exists>k' out nxt e'. wanpipe_hdlc_encode [0x7e] ex_engine = (out, nxt, e') \<and> length out mod 4 = 0 \<and>
    enc_idle k' (encoder e') \<and> nxt = FLAGS ! k'"
proof -
  have 1: "enc_idle 0 (encoder ex_engine)" "\<not> seven_bit_hdlc ex_engine" "length [0x7e :: u8] \<le> 8000"
    using enc_idle_init by (simp_all add: ex_engine_def)
  obtain k' p out nxt e' where "wanpipe_hdlc_encode [0x7e] ex_engine = (out, nxt, e')"
    "length out mod 4 = 0" "enc_idle k' (encoder e')" "nxt = FLAGS ! k'"
    using hdlc_encode_octets [OF 1] by (elim exE conjE) (rule that)
  then show ?thesis by (intro exI conjI) (assumption+)
qed

text \<open>
  C36. A damaged packet is never handed up, and it takes the next one with it: of a packet
  whose check sum is right, one octet is changed on the way. The engine returns false and
  hands nothing up, and if the flag that ends the packet also opens the next one, that
  one is lost too, because the engine forgets the flag when the check sum is wrong.
\<close>

theorem hdlc_damaged_octet:
  assumes reg: "wanpipe_reg_hdlc_engine True False = Some e"
    and good: "fcs_check crc_update (p @ a # q) = 0xf0b8" "a \<noteq> b" "2 \<le> length p + length q"
    and line: "bits8s vs = flag_bits @ stuff 0 (bits8s (p @ b # q)) @ flag_bits @ stuff 0 next_packet @ flag_bits"
    and len: "length vs \<le> 9900"
  shows "fst (wanpipe_hdlc_decode vs e) = False \<and>
    packets_up (decoder (snd (wanpipe_hdlc_decode vs (e\<lparr>has_hdlc_data := up\<rparr>)))) = []"
proof -
  let ?e = "e\<lparr>has_hdlc_data := up\<rparr>"
  have e: "e = ex_engine" by (rule registered_engine [OF reg])
  have b: "concat (map (eng_bits (seven_bit_hdlc e)) vs) = bits8s vs"
    by (simp add: e ex_engine_def eng_bits_8 bits8s_def)
  have "\<not> crc_ok (p @ b # q)" using damaged_not_ok [OF good(1,2)] good(3) by simp
  with good(3) have run: "hrun (bits8s vs) unopened = (fresh, [])"
    using hrun_damaged [of "p @ b # q" next_packet] unfolding line by simp
  have "views unopened (decoder e)" "packets_up (decoder e) = []"
    using views_fresh by (simp_all add: e ex_engine_def init_hdlc_decoder_def zero_decoder_def)
  moreover have "hfits (bits8s vs) unopened" by (rule hfits_length) (use len in \<open>simp add: hsize_def\<close>)
  ultimately show ?thesis
    using decode_views [of unopened e vs] decode_views [of unopened ?e vs] b run
    by (auto split: prod.splits)
qed

theorem hdlc_damaged_octet_witness:
  "packets_up (decoder (snd (wanpipe_hdlc_decode [0x7e, 1, 2, 7, 0x3b, 0x9d, 0x7e, 1, 2, 3, 0x3b, 0x9d, 0x7e]
     (ex_engine\<lparr>has_hdlc_data := True\<rparr>)))) = []"
proof -
  let ?vs = "[0x7e, 1, 2, 7, 0x3b, 0x9d, 0x7e, 1, 2, 3, 0x3b, 0x9d, 0x7e]"
  have 1: "fcs_check crc_update ([1, 2] @ 3 # [0x3b, 0x9d]) = 0xf0b8"
    unfolding crc_update_step by code_simp
  have 2: "bits8s ?vs = flag_bits @ stuff 0 (bits8s ([1, 2] @ 7 # [0x3b, 0x9d])) @ flag_bits @
      stuff 0 (bits8s [1, 2, 3, 0x3b, 0x9d]) @ flag_bits"
    by code_simp
  show ?thesis
    by (rule hdlc_damaged_octet [OF ex_engine_registered 1 _ _ 2, THEN conjunct2]) simp_all
qed

text \<open>
  A packet can be taken back: after \<open>wanpipe_hdlc_bkp\<close>, an encoded packet that is
  not sent and \<open>wanpipe_hdlc_restore\<close>, the next packet is encoded to the same octets
  as if the first had never been.
\<close>

theorem hdlc_restore_replays:
  assumes idle: "enc_idle k (encoder e)" "\<not> seven_bit_hdlc e"
    and len: "length data \<le> 8000" "length data' \<le> 8000"
    and lost: "wanpipe_hdlc_encode data (wanpipe_hdlc_bkp e) = (out, nxt, e1)"
  shows "fst (wanpipe_hdlc_encode data' (wanpipe_hdlc_restore e1)) = fst (wanpipe_hdlc_encode data' e)"
proof -
  let ?b = "wanpipe_hdlc_bkp e"
  have b: "enc_idle k (encoder ?b)" "\<not> seven_bit_hdlc ?b"
    using idle by (simp_all add: wanpipe_hdlc_bkp_def enc_idle_def Let_def)
  obtain k' where 1: "enc_idle k' (encoder e1)" "\<not> seven_bit_hdlc e1"
    using encode_tail [OF b len(1)] lost by auto
  have "backup (encoder e1) = backup (encoder ?b)" by (rule backup_encode [OF lost])
  then have "enc_idle k (encoder (wanpipe_hdlc_restore e1))" "\<not> seven_bit_hdlc (wanpipe_hdlc_restore e1)"
    using idle 1 by (simp_all add: wanpipe_hdlc_bkp_def wanpipe_hdlc_restore_def enc_idle_def Let_def)
  from encode_unique [OF this idle len(2)] show ?thesis .
qed

theorem hdlc_restore_replays_witness:
  "fst (wanpipe_hdlc_encode [4, 5] (wanpipe_hdlc_restore (snd (snd
     (wanpipe_hdlc_encode [1, 2, 3] (wanpipe_hdlc_bkp ex_engine)))))) = fst (wanpipe_hdlc_encode [4, 5] ex_engine)"
proof -
  obtain out nxt e1 where 1: "wanpipe_hdlc_encode [1, 2, 3] (wanpipe_hdlc_bkp ex_engine) = (out, nxt, e1)"
    using prod_cases3 by blast
  have "enc_idle 0 (encoder ex_engine)" "\<not> seven_bit_hdlc ex_engine"
    using enc_idle_init by (simp_all add: ex_engine_def)
  from hdlc_restore_replays [OF this _ _ 1, of "[4, 5]"] show ?thesis by (simp add: 1)
qed

text \<open>
  A packet without an end runs out of the decode buffer: \<open>rx_decode_buf\<close> has 10000
  octets, and the test after the length is counted, \<open>rx_decode_len > MAX_SOCK_HDLC_BUF\<close>,
  lets the code clear the octet at index 10000 when one buffer brings the packet from
  below 9999 octets to 10000.
\<close>

theorem hdlc_decode_overrun:
  assumes "wanpipe_reg_hdlc_engine True False = Some e"
  shows "dec_fault (decoder (snd (wanpipe_hdlc_decode (0x7e # replicate 10000 0) e)))"
proof -
  have e: "e = ex_engine" by (rule registered_engine [OF assms])
  let ?up = "has_hdlc_data e"
  obtain g d where flag: "fold (dec_bit ?up) (bits8 0x7e) (False, decoder e) = (g, d)" by fastforce
  have "views unopened (decoder e)" using views_fresh by (simp add: e ex_engine_def)
  from dec_bits_views [OF this hfits_length, of flag_bits ?up False] have "views fresh d"
    using flag hrun_flag_unopened [of 0] by (auto simp: flag_bits_octet hsize_def)
  then have "in_zeros 0 0 d" by (simp add: views_def in_zeros_def unat_eq_0)
  from zero_octets [OF this, of 10000 ?up g] obtain d' where
    d': "fold (dec_bit ?up) (bits8s (replicate 10000 0)) (g, d) = (g, d')" "dec_fault d'" by auto
  have "concat (map (eng_bits (seven_bit_hdlc e)) (0x7e # replicate 10000 0)) = bits8 0x7e @ bits8s (replicate 10000 0)"
    by (simp add: e ex_engine_def eng_bits_8 bits8s_def)
  then have "fold (dec_bit ?up) (concat (map (eng_bits (seven_bit_hdlc e)) (0x7e # replicate 10000 0))) (False, decoder e) = (g, d')"
    using flag d'(1) by simp
  then show ?thesis
    using d'(2) unfolding wanpipe_hdlc_decode_def decode_buf_bits
    by (simp add: init_hdlc_decoder_def)
qed

theorem hdlc_decode_overrun_witness:
  "dec_fault (decoder (snd (wanpipe_hdlc_decode (0x7e # replicate 10000 0) ex_engine)))"
  by (rule hdlc_decode_overrun [OF ex_engine_registered])

end
