(* ===== verification/Lip_State.thy ===== *)
theory Lip_State
  imports Prelude
begin

text \<open>
  The state of the LIP layer, include/wanpipe_lip.h: a link (\<open>wplip_link_t\<close>) with its two
  frame queues, the devices above it (\<open>list_head_ifdev\<close>) and the network devices below it
  (\<open>list_head_tx_ifdev\<close>). Devices are named by their addresses, natural numbers; the map
  \<open>devs\<close> holds the allocated ones, and \<open>lip_fault\<close> records a read of a freed device. What
  the layer calls and does not define, the lower device, the receivers above, the protocol
  table and the clock, is a record of functions, \<open>lip_env\<close>. The build without
  \<open>WPLIP_TTY_SUPPORT\<close>, \<open>WPLIP_IPX_SUPPORT\<close> and \<open>WANPIPE_IFNET_QUEUE_POLICY_INIT_OFF\<close> is
  modelled. The counts of octets, the time of the last transmission and the header that the
  socket puts before a received frame are left out.
\<close>

type_synonym frame = "u8 list"

section \<open>Constants and enumerations\<close>

definition ENODEV :: int where "ENODEV = 19"
definition ENOMEM :: int where "ENOMEM = 12"
definition EFAULT :: int where "EFAULT = 14"
definition EBUSY :: int where "EBUSY = 16"
definition EEXIST :: int where "EEXIST = 17"
definition EINVAL :: int where "EINVAL = 22"
definition ENETDOWN :: int where "ENETDOWN = 100"
definition ENOBUFS :: int where "ENOBUFS = 105"

lemmas errno_defs = ENODEV_def ENOMEM_def EFAULT_def EBUSY_def EEXIST_def EINVAL_def
  ENETDOWN_def ENOBUFS_def

definition MAX_TX_BUF :: nat where "MAX_TX_BUF = 10"
definition MAX_RX_Q :: nat where "MAX_RX_Q = 32"
definition MAX_LIP_LINKS :: nat where "MAX_LIP_LINKS = 255"
definition MAX_LIP_PROTOCOLS :: nat where "MAX_LIP_PROTOCOLS = 255"
definition WANCONFIG_LIP_ATM :: nat where "WANCONFIG_LIP_ATM = 131"
definition WANCONFIG_LIP_HDLC :: nat where "WANCONFIG_LIP_HDLC = 139"

datatype wan_state = WAN_UNCONFIGURED | WAN_DISCONNECTED | WAN_CONNECTING | WAN_CONNECTED
  | WAN_LIMIT | WAN_DUALPORT | WAN_DISCONNECTING | WAN_FT1_READY

text \<open>The bits of \<open>tq_working\<close>.\<close>

datatype lip_flag = WPLIP_BH_RUNNING | WPLIP_RX_FSM_RUNNING | WPLIP_SMP_CONFLICT
  | WPLIP_BH_AWAITING_KICK | WPLIP_LINK_TIMER_EXPIRED | WPLIP_MORE_LINK_TX | WPLIP_LINK_DOWN
  | WPLIP_KICK | WPLIP_TTY_BUSY

datatype lip_type = WPLIP_RAW | WPLIP_IP | WPLIP_IPV6 | WPLIP_IPX | WPLIP_FR_ARP | WPLIP_PPP
  | WPLIP_FR | WPLIP_ETH | WPLIP_LAPD

datatype lip_usage = API | WANPIPE | STACK | BRIDGE | BRIDGE_NODE

section \<open>Devices and links\<close>

record if_stats =
  tx_packets :: u64
  tx_errors :: u64
  tx_carrier_errors :: u64
  rx_packets :: u64
  rx_errors :: u64
  rx_dropped :: u64

text \<open>
  \<open>ld_unregister\<close> is the bit \<open>WPLIP_DEV_UNREGISTER\<close> of \<open>critical\<close>; \<open>ld_up_lip\<close> is
  \<open>common.lip\<close>, the link of the stack above; \<open>ld_stopped\<close>, \<open>ld_carrier\<close>, \<open>ld_up\<close> and
  \<open>ld_qlen\<close> are the queue, the carrier, the interface flag and \<open>tx_queue_len\<close> of
  \<open>common.dev\<close>; \<open>ld_attached\<close> says that \<open>lip_link\<close> is not null and \<open>ld_prot\<close> that
  \<open>common.prot_ptr\<close> is not.
\<close>

record lip_dev =
  ld_name :: string
  ld_tx_queue :: "frame list"
  ld_unregister :: bool
  ld_ready :: bool
  ld_if_down :: bool
  ld_usedby :: lip_usage
  ld_up_lip :: "nat option"
  ld_state :: wan_state
  ld_protocol :: nat
  ld_prot :: bool
  ld_attached :: bool
  ld_stopped :: bool
  ld_carrier :: bool
  ld_up :: bool
  ld_qlen :: u64
  ld_max_mtu_sz :: u32
  ld_max_mtu_sz_orig :: u32
  ld_stats :: if_stats

text \<open>What the layer does to others, in order.\<close>

datatype lip_event =
    Wake_api nat | Wake_queue nat | Kick_lip nat | Connect_lip nat | Disconnect_lip nat
  | Api_state nat | If_task nat | Prot_task | Rx_up nat frame

text \<open>
  \<open>prot\<close> is the state of the protocol object; \<open>task_scheduled\<close> says that the tasklet of the
  link is scheduled; \<open>lower\<close> is the state of the network devices below, \<open>low_qlen\<close> their
  \<open>tx_queue_len\<close>; \<open>wire\<close> lists the frames they accepted; \<open>ticks_read\<close> counts the reads of
  the clock.
\<close>

record ('p, 'h) lip_link =
  lk_name :: string
  list_head_ifdev :: "nat list"
  devs :: "nat \<rightharpoonup> lip_dev"
  dev_cnt :: u32
  list_head_tx_ifdev :: "nat list"
  tx_dev_cnt :: u32
  lk_state :: wan_state
  carrier_state :: wan_state
  prot_state :: wan_state
  prot :: 'p
  lk_protocol :: nat
  lk_registered :: bool
  link_num :: int
  tq_working :: "lip_flag set"
  tx_queue :: "frame list"
  rx_queue :: "frame list"
  cur_tx :: "nat option"
  latency_qlen :: u32
  task_scheduled :: bool
  lower :: 'h
  low_qlen :: "nat \<Rightarrow> u64"
  wire :: "frame list"
  ticks_read :: nat
  events :: "lip_event list"
  lip_fault :: bool

section \<open>The environment\<close>

text \<open>
  A protocol object gives the operations of \<open>wplip_prot_iface_t\<close>, null or not: each may
  change the link through the callbacks it was registered with.
\<close>

record ('p, 'h) prot_iface =
  pi_tx :: "(('p, 'h) lip_link \<Rightarrow> nat \<Rightarrow> frame \<Rightarrow> lip_type \<Rightarrow> int \<times> ('p, 'h) lip_link) option"
  pi_rx :: "(('p, 'h) lip_link \<Rightarrow> frame \<Rightarrow> int \<times> ('p, 'h) lip_link) option"
  pi_bh :: "(('p, 'h) lip_link \<Rightarrow> nat \<Rightarrow> ('p, 'h) lip_link) option"
  pi_timer :: "(('p, 'h) lip_link \<Rightarrow> bool \<Rightarrow> ('p, 'h) lip_link) option"
  pi_open :: "(('p, 'h) lip_link \<Rightarrow> nat \<Rightarrow> int \<times> ('p, 'h) lip_link) option"
  pi_close :: "(('p, 'h) lip_link \<Rightarrow> nat \<Rightarrow> int \<times> ('p, 'h) lip_link) option"
  pi_chan_register :: "('p \<Rightarrow> nat \<Rightarrow> string \<Rightarrow> bool \<Rightarrow> 'p option) option"
  pi_chan_unregister :: "('p \<Rightarrow> nat \<Rightarrow> 'p) option"

text \<open>
  \<open>low_stopped\<close> and \<open>low_xmit\<close> are the queue test and the transmit routine of the network
  device below, \<open>up_rx\<close> the answer of the receiver above (the API socket, the stack link or
  the kernel) to a frame, \<open>api_hdr_len\<close> the size of \<open>wan_api_tx_hdr_t\<close>, and \<open>system_ticks\<close>
  the value of the n-th read of \<open>SYSTEM_TICKS\<close>.
\<close>

record ('p, 'h) lip_env =
  prot_ops :: "nat \<Rightarrow> ('p, 'h) prot_iface option"
  low_stopped :: "'h \<Rightarrow> nat \<Rightarrow> bool"
  low_xmit :: "'h \<Rightarrow> nat \<Rightarrow> frame \<Rightarrow> int \<times> 'h"
  up_rx :: "nat \<Rightarrow> frame \<Rightarrow> int"
  api_headroom :: "frame \<Rightarrow> bool"
  api_hdr_len :: nat
  system_ticks :: "nat \<Rightarrow> u64"

section \<open>Access\<close>

abbreviation wan_set_bit :: "lip_flag \<Rightarrow> ('p, 'h) lip_link \<Rightarrow> ('p, 'h) lip_link" where
  "wan_set_bit f l \<equiv> l\<lparr>tq_working := insert f (tq_working l)\<rparr>"

abbreviation wan_clear_bit :: "lip_flag \<Rightarrow> ('p, 'h) lip_link \<Rightarrow> ('p, 'h) lip_link" where
  "wan_clear_bit f l \<equiv> l\<lparr>tq_working := tq_working l - {f}\<rparr>"

abbreviation wan_test_bit :: "lip_flag \<Rightarrow> ('p, 'h) lip_link \<Rightarrow> bool" where
  "wan_test_bit f l \<equiv> f \<in> tq_working l"

text \<open>A change of one device; of a freed one, a fault.\<close>

definition upd_dev :: "nat \<Rightarrow> (lip_dev \<Rightarrow> lip_dev) \<Rightarrow> ('p, 'h) lip_link \<Rightarrow> ('p, 'h) lip_link" where
  "upd_dev d f l =
     (case devs l d of Some v \<Rightarrow> l\<lparr>devs := (devs l)(d \<mapsto> f v)\<rparr> | None \<Rightarrow> l\<lparr>lip_fault := True\<rparr>)"

abbreviation event :: "lip_event \<Rightarrow> ('p, 'h) lip_link \<Rightarrow> ('p, 'h) lip_link" where
  "event e l \<equiv> l\<lparr>events := events l @ [e]\<rparr>"

abbreviation dev_stat :: "(if_stats \<Rightarrow> if_stats) \<Rightarrow> lip_dev \<Rightarrow> lip_dev" where
  "dev_stat f v \<equiv> v\<lparr>ld_stats := f (ld_stats v)\<rparr>"

abbreviation tasklet_schedule :: "('p, 'h) lip_link \<Rightarrow> ('p, 'h) lip_link" where
  "tasklet_schedule l \<equiv> l\<lparr>task_scheduled := True\<rparr>"

section \<open>Triggering the bottom half\<close>

definition wplip_trigger_bh :: "('p, 'h) lip_link \<Rightarrow> int \<times> ('p, 'h) lip_link" where
  "wplip_trigger_bh l =
     (if wan_test_bit WPLIP_LINK_DOWN l then (- ENETDOWN, l)
      else if rx_queue l \<noteq> [] then (0, tasklet_schedule l)
      else if wan_test_bit WPLIP_BH_AWAITING_KICK l then (- EBUSY, l)
      else (0, tasklet_schedule l))"

definition wplip_kick_trigger_bh :: "('p, 'h) lip_link \<Rightarrow> ('p, 'h) lip_link" where
  "wplip_kick_trigger_bh l = tasklet_schedule (wan_clear_bit WPLIP_BH_AWAITING_KICK l)"

definition wplip_kick :: "('p, 'h) lip_link \<Rightarrow> ('p, 'h) lip_link" where
  "wplip_kick l = wplip_kick_trigger_bh (wan_set_bit WPLIP_KICK (wan_clear_bit WPLIP_BH_AWAITING_KICK l))"

end
