(* ===== verification/Lip_Iface.thy ===== *)
theory Lip_Iface
  imports Lip_State
begin

text \<open>
  The calls into and out of a link: wanpipe_lip_iface.c (receive, transmit, the callbacks of
  a protocol, states, kicks), wanpipe_lip_prot.c (calls of the protocol), and
  wanpipe_lip_netdev.c (the calls of the kernel on an interface).
\<close>

section \<open>Down to the network device\<close>

definition wplip_data_tx_down ::
  "('p, 'h) lip_env \<Rightarrow> frame \<Rightarrow> ('p, 'h) lip_link \<Rightarrow> int \<times> ('p, 'h) lip_link" where
  "wplip_data_tx_down E skb l =
     (if tx_dev_cnt l = 0 then (- ENODEV, l)
      else case list_head_tx_ifdev l of
        [] \<Rightarrow> (- ENODEV, l)
      | dev # _ \<Rightarrow>
          if low_stopped E (lower l) dev then (- EBUSY, l)
          else
            let l1 = (if ucast (latency_qlen l) \<noteq> low_qlen l dev
                      then l\<lparr>low_qlen := (low_qlen l)(dev := ucast (latency_qlen l))\<rparr> else l);
                (err, h) = low_xmit E (lower l1) dev skb;
                l2 = l1\<lparr>lower := h\<rparr>
            in (err, if err = 0 then l2\<lparr>wire := wire l2 @ [skb]\<rparr> else l2))"

section \<open>Callbacks of the protocol\<close>

definition wplip_link_callback_tx_down ::
  "frame \<Rightarrow> ('p, 'h) lip_link \<Rightarrow> int \<times> ('p, 'h) lip_link" where
  "wplip_link_callback_tx_down skb l =
     (if carrier_state l \<noteq> WAN_CONNECTED then (0, l)
      else if length (tx_queue l) \<ge> MAX_TX_BUF then (1, snd (wplip_trigger_bh l))
      else (0, snd (wplip_trigger_bh (l\<lparr>tx_queue := tx_queue l @ [skb]\<rparr>))))"

text \<open>Without a frame, the free places of the queue.\<close>

definition wplip_callback_tx_space :: "nat \<Rightarrow> ('p, 'h) lip_link \<Rightarrow> int" where
  "wplip_callback_tx_space d l =
     (case devs l d of
        None \<Rightarrow> 1
      | Some v \<Rightarrow>
          (let free_space = sint (ld_max_mtu_sz v - of_nat (length (ld_tx_queue v)) :: u32)
           in if free_space < 0 then 0 else free_space))"

definition wplip_callback_tx_down ::
  "nat \<Rightarrow> frame \<Rightarrow> ('p, 'h) lip_link \<Rightarrow> int \<times> ('p, 'h) lip_link" where
  "wplip_callback_tx_down d skb l =
     (case devs l d of
        None \<Rightarrow> (1, l\<lparr>lip_fault := True\<rparr>)
      | Some v \<Rightarrow>
          if carrier_state l \<noteq> WAN_CONNECTED then
            (0, upd_dev d (dev_stat (\<lambda>s. s\<lparr>tx_carrier_errors := tx_carrier_errors s + 1\<rparr>)) l)
          else if length (ld_tx_queue v) \<ge> unat (ld_max_mtu_sz v) then (1, snd (wplip_trigger_bh l))
          else (0, snd (wplip_trigger_bh
                     (upd_dev d (\<lambda>v. v\<lparr>ld_tx_queue := ld_tx_queue v @ [skb]\<rparr>) l))))"

definition wplip_callback_kick_prot_task :: "('p, 'h) lip_link \<Rightarrow> ('p, 'h) lip_link" where
  "wplip_callback_kick_prot_task l = event Prot_task l"

definition wplip_link_prot_change_state ::
  "wan_state \<Rightarrow> ('p, 'h) lip_link \<Rightarrow> ('p, 'h) lip_link" where
  "wplip_link_prot_change_state st l =
     (if prot_state l \<noteq> st then
        let l1 = l\<lparr>prot_state := st\<rparr>;
            l2 = (if prot_state l1 = WAN_CONNECTED \<and> carrier_state l1 = WAN_CONNECTED
                  then l1\<lparr>lk_state := WAN_CONNECTED\<rparr> else l1)
        in if prot_state l2 \<noteq> WAN_CONNECTED then l2\<lparr>lk_state := WAN_DISCONNECTED\<rparr> else l2
      else l)"

definition wplip_lipdev_prot_update_state_change ::
  "nat \<Rightarrow> ('p, 'h) lip_link \<Rightarrow> ('p, 'h) lip_link" where
  "wplip_lipdev_prot_update_state_change d l =
     (case devs l d of
        None \<Rightarrow> l\<lparr>lip_fault := True\<rparr>
      | Some v \<Rightarrow>
          (let up = (ld_state v = WAN_CONNECTED) in
           if ld_usedby v = API then
             snd (wplip_trigger_bh (event (Api_state d)
               (upd_dev d (\<lambda>v. v\<lparr>ld_carrier := up, ld_stopped := \<not> up\<rparr>) l)))
           else case ld_up_lip v of
             Some n \<Rightarrow>
               if up then event (Connect_lip n)
                           (upd_dev d (\<lambda>v. v\<lparr>ld_carrier := True, ld_stopped := False\<rparr>) l)
               else event (Disconnect_lip n) (upd_dev d (\<lambda>v. v\<lparr>ld_carrier := False\<rparr>) l)
           | None \<Rightarrow>
               event (If_task d)
                 (if up then snd (wplip_trigger_bh (event (Wake_queue d)
                           (upd_dev d (\<lambda>v. v\<lparr>ld_carrier := True, ld_stopped := False\<rparr>) l)))
                  else upd_dev d (\<lambda>v. v\<lparr>ld_carrier := False\<rparr>) l)))"

definition wplip_lipdev_prot_change_state ::
  "nat \<Rightarrow> wan_state \<Rightarrow> ('p, 'h) lip_link \<Rightarrow> ('p, 'h) lip_link" where
  "wplip_lipdev_prot_change_state d st l =
     (let l1 = upd_dev d (\<lambda>v. v\<lparr>ld_state := st\<rparr>) l in
      case devs l1 d of
        None \<Rightarrow> l1
      | Some v \<Rightarrow>
          if ld_unregister v \<or> ld_if_down v then l1
          else wplip_lipdev_prot_update_state_change d l1)"

section \<open>Up to the receivers\<close>

definition rx_taken :: "nat \<Rightarrow> frame \<Rightarrow> ('p, 'h) lip_link \<Rightarrow> ('p, 'h) lip_link" where
  "rx_taken d skb l =
     event (Rx_up d skb) (upd_dev d (dev_stat (\<lambda>s. s\<lparr>rx_packets := rx_packets s + 1\<rparr>)) l)"

definition rx_drop :: "nat \<Rightarrow> ('p, 'h) lip_link \<Rightarrow> ('p, 'h) lip_link" where
  "rx_drop d l = upd_dev d (dev_stat (\<lambda>s. s\<lparr>rx_dropped := rx_dropped s + 1\<rparr>)) l"

definition wplip_data_rx_up ::
  "('p, 'h) lip_env \<Rightarrow> nat \<Rightarrow> frame \<Rightarrow> ('p, 'h) lip_link \<Rightarrow> int \<times> ('p, 'h) lip_link" where
  "wplip_data_rx_up E d skb l =
     (case devs l d of
        None \<Rightarrow> (0, l\<lparr>lip_fault := True\<rparr>)
      | Some v \<Rightarrow>
          if ld_usedby v = API then
            if \<not> api_headroom E skb then (0, l)
            else if up_rx E d skb \<noteq> 0
              then (1, upd_dev d (dev_stat (\<lambda>s. s\<lparr>rx_errors := rx_errors s + 1\<rparr>)) l)
            else (0, rx_taken d skb l)
          else if ld_usedby v = STACK then
            if ld_up_lip v \<noteq> None \<and> up_rx E d skb = 0 then (0, rx_taken d skb l) else (0, rx_drop d l)
          else if up_rx E d skb = 0 then (0, rx_taken d skb l) else (0, rx_drop d l))"

definition wplip_prot_rx_up ::
  "('p, 'h) lip_env \<Rightarrow> nat \<Rightarrow> frame \<Rightarrow> lip_type \<Rightarrow> ('p, 'h) lip_link \<Rightarrow> ('p, 'h) lip_link" where
  "wplip_prot_rx_up E d skb ty l =
     (case devs l d of
        None \<Rightarrow> l\<lparr>lip_fault := True\<rparr>
      | Some v \<Rightarrow>
          if ld_usedby v = BRIDGE \<or> ld_usedby v = BRIDGE_NODE then snd (wplip_data_rx_up E d skb l)
          else if ty = WPLIP_RAW then
            if ld_protocol v = WANCONFIG_LIP_ATM \<and> ld_usedby v \<noteq> API then l
            else snd (wplip_data_rx_up E d skb l)
          else if ty \<in> {WPLIP_IP, WPLIP_IPV6, WPLIP_PPP} then snd (wplip_data_rx_up E d skb l)
          else l)"

section \<open>Calls of the protocol\<close>

text \<open>The entry of the table, behind the two assertions on the protocol number.\<close>

definition prot_entry ::
  "('p, 'h) lip_env \<Rightarrow> nat \<Rightarrow> int + ('p, 'h) prot_iface" where
  "prot_entry E n =
     (if n \<ge> MAX_LIP_PROTOCOLS then Inl (- EINVAL)
      else case prot_ops E n of None \<Rightarrow> Inl (- ENODEV) | Some i \<Rightarrow> Inr i)"

definition wplip_prot_kick :: "('p, 'h) lip_env \<Rightarrow> nat \<Rightarrow> ('p, 'h) lip_link \<Rightarrow> int \<times> ('p, 'h) lip_link" where
  "wplip_prot_kick E d l =
     (case devs l d of
        None \<Rightarrow> (0, l\<lparr>lip_fault := True\<rparr>)
      | Some v \<Rightarrow>
          (case prot_entry E (ld_protocol v) of
             Inl e \<Rightarrow> (e, l)
           | Inr i \<Rightarrow> (0, case pi_bh i of None \<Rightarrow> l | Some f \<Rightarrow> f l d)))"

definition wplip_prot_rx :: "('p, 'h) lip_env \<Rightarrow> frame \<Rightarrow> ('p, 'h) lip_link \<Rightarrow> int \<times> ('p, 'h) lip_link" where
  "wplip_prot_rx E skb l =
     (case prot_entry E (lk_protocol l) of
        Inl e \<Rightarrow> (e, l)
      | Inr i \<Rightarrow> (case pi_rx i of None \<Rightarrow> (- EFAULT, l) | Some f \<Rightarrow> f l skb))"

definition wplip_prot_tx ::
  "('p, 'h) lip_env \<Rightarrow> nat \<Rightarrow> frame \<Rightarrow> lip_type \<Rightarrow> ('p, 'h) lip_link \<Rightarrow> int \<times> ('p, 'h) lip_link" where
  "wplip_prot_tx E d skb ty l =
     (case devs l d of
        None \<Rightarrow> (0, l\<lparr>lip_fault := True\<rparr>)
      | Some v \<Rightarrow>
          (case prot_entry E (ld_protocol v) of
             Inl e \<Rightarrow> (e, l)
           | Inr i \<Rightarrow>
               (case pi_tx i of
                  None \<Rightarrow> (- EFAULT, l)
                | Some f \<Rightarrow>
                    if length (ld_tx_queue v) \<ge> unat (ld_max_mtu_sz v) then (1, l) else f l d skb ty)))"

text \<open>The timer of the link, and \<open>wplip_prot_timer\<close> of it, without the arming of the next.\<close>

definition wplip_prot_timer :: "('p, 'h) lip_env \<Rightarrow> ('p, 'h) lip_link \<Rightarrow> ('p, 'h) lip_link" where
  "wplip_prot_timer E l =
     (if wan_test_bit WPLIP_LINK_DOWN l then l
      else case prot_ops E (lk_protocol l) of
        None \<Rightarrow> l
      | Some i \<Rightarrow>
          (case pi_timer i of
             None \<Rightarrow> l
           | Some f \<Rightarrow>
               let l1 = f l (carrier_state l = WAN_CONNECTED)
               in if tx_queue l1 \<noteq> [] then snd (wplip_trigger_bh l1) else l1))"

section \<open>Calls of the lower layer\<close>

definition wplip_rx :: "frame \<Rightarrow> ('p, 'h) lip_link \<Rightarrow> int \<times> ('p, 'h) lip_link" where
  "wplip_rx skb l =
     (if wan_test_bit WPLIP_LINK_DOWN l then (- ENODEV, l)
      else if length (rx_queue l) > MAX_RX_Q then (- ENOBUFS, snd (wplip_trigger_bh l))
      else (0, snd (wplip_trigger_bh (l\<lparr>rx_queue := rx_queue l @ [skb]\<rparr>))))"

definition wplip_connect :: "('p, 'h) lip_link \<Rightarrow> ('p, 'h) lip_link" where
  "wplip_connect l =
     (let l1 = (if carrier_state l \<noteq> WAN_CONNECTED
                then (wplip_kick (l\<lparr>tx_queue := [], rx_queue := []\<rparr>))\<lparr>carrier_state := WAN_CONNECTED\<rparr>
                else l)
      in if prot_state l1 = WAN_CONNECTED then l1\<lparr>lk_state := WAN_CONNECTED\<rparr> else l1)"

definition wplip_disconnect :: "('p, 'h) lip_link \<Rightarrow> ('p, 'h) lip_link" where
  "wplip_disconnect l =
     (let l1 = (if carrier_state l \<noteq> WAN_DISCONNECTED then l\<lparr>carrier_state := WAN_DISCONNECTED\<rparr> else l)
      in if lk_state l1 \<noteq> WAN_DISCONNECTED then l1\<lparr>lk_state := WAN_DISCONNECTED\<rparr> else l1)"

text \<open>\<open>common\<close> is the state of the device below, if it has one.\<close>

definition wplip_bind_link ::
  "nat \<Rightarrow> wan_state option \<Rightarrow> ('p, 'h) lip_link \<Rightarrow> int \<times> ('p, 'h) lip_link" where
  "wplip_bind_link dev common l =
     (if \<not> lk_registered l then (- ENODEV, l)
      else if wan_test_bit WPLIP_LINK_DOWN l then (- ENETDOWN, l)
      else
        let l1 = (if common = Some WAN_CONNECTED then l\<lparr>carrier_state := WAN_CONNECTED\<rparr> else l)
        in (0, l1\<lparr>list_head_tx_ifdev := dev # list_head_tx_ifdev l1, tx_dev_cnt := tx_dev_cnt l1 + 1\<rparr>))"

definition wplip_unbind_link :: "nat \<Rightarrow> ('p, 'h) lip_link \<Rightarrow> int \<times> ('p, 'h) lip_link" where
  "wplip_unbind_link dev l =
     (if \<not> lk_registered l then (- EFAULT, l)
      else if dev \<in> set (list_head_tx_ifdev l)
        then (0, l\<lparr>list_head_tx_ifdev := remove1 dev (list_head_tx_ifdev l),
                   tx_dev_cnt := tx_dev_cnt l - 1\<rparr>)
      else (- ENODEV, l))"

section \<open>Calls of the kernel\<close>

fun latency_min :: "('p, 'h) lip_link \<Rightarrow> nat list \<Rightarrow> u32 \<Rightarrow> u32" where
  "latency_min l [] q = q"
| "latency_min l (d # ds) q =
     latency_min l ds
       (case devs l d of Some v \<Rightarrow> if ld_max_mtu_sz v < q then ld_max_mtu_sz v else q | None \<Rightarrow> q)"

definition wplip_lipdev_latency_change :: "('p, 'h) lip_link \<Rightarrow> int \<times> ('p, 'h) lip_link" where
  "wplip_lipdev_latency_change l =
     (let q = latency_min l (list_head_ifdev l) 0xFFFF
      in (- ENODEV, if 0 < q \<and> q < 0xFFFF then l\<lparr>latency_qlen := q\<rparr> else l))"

definition resize_latency :: "nat \<Rightarrow> ('p, 'h) lip_link \<Rightarrow> ('p, 'h) lip_link" where
  "resize_latency d l =
     (case devs l d of
        None \<Rightarrow> l\<lparr>lip_fault := True\<rparr>
      | Some v \<Rightarrow>
          if ld_protocol v \<noteq> WANCONFIG_LIP_ATM then
            if ld_qlen v < ucast (ld_max_mtu_sz v) \<and> ld_qlen v > 0 then
              snd (wplip_lipdev_latency_change
                (upd_dev d (\<lambda>v. v\<lparr>ld_max_mtu_sz := ucast (ld_qlen v)\<rparr>) l))
            else if ld_qlen v > ucast (ld_max_mtu_sz v) \<and> ld_max_mtu_sz v \<noteq> ld_max_mtu_sz_orig v then
              snd (wplip_lipdev_latency_change
                (upd_dev d (\<lambda>v. v\<lparr>ld_max_mtu_sz := ld_max_mtu_sz_orig v\<rparr>) l))
            else l
          else l)"

text \<open>
  \<open>ty\<close> is what \<open>wplip_decode_protocol\<close> reads from the frame; \<open>None\<close> is a device without
  a private structure.
\<close>

definition wplip_if_send ::
  "('p, 'h) lip_env \<Rightarrow> nat \<Rightarrow> frame \<Rightarrow> lip_type \<Rightarrow> ('p, 'h) lip_link \<Rightarrow> int \<times> ('p, 'h) lip_link" where
  "wplip_if_send E d skb ty l =
     (case devs l d of
        None \<Rightarrow> (1, l)
      | Some v \<Rightarrow>
          if \<not> ld_attached v then (1, upd_dev d (\<lambda>v. v\<lparr>ld_stopped := True\<rparr>) l)
          else if ld_state v \<noteq> WAN_CONNECTED then
            (0, upd_dev d (\<lambda>v. dev_stat (\<lambda>s. s\<lparr>tx_carrier_errors := tx_carrier_errors s + 1\<rparr>)
                                 (v\<lparr>ld_stopped := False\<rparr>)) l)
          else if ld_usedby v = API \<and> length skb \<le> api_hdr_len E then
            (0, upd_dev d (\<lambda>v. dev_stat (\<lambda>s. s\<lparr>tx_errors := tx_errors s + 1\<rparr>)
                                 (v\<lparr>ld_stopped := False\<rparr>)) l)
          else
            let (skb1, ty1) = (if ld_usedby v = API then (drop (api_hdr_len E) skb, WPLIP_RAW) else (skb, ty));
                (err, l1) = wplip_prot_tx E d skb1 ty1 l;
                l2 = (if err = 0 then upd_dev d (\<lambda>v. dev_stat (\<lambda>s. s\<lparr>tx_packets := tx_packets s + 1\<rparr>)
                                                  (v\<lparr>ld_stopped := False\<rparr>)) l1
                      else if err = 1 then upd_dev d (\<lambda>v. v\<lparr>ld_stopped := True\<rparr>) l1
                      else upd_dev d (\<lambda>v. dev_stat (\<lambda>s. s\<lparr>tx_errors := tx_errors s + 1\<rparr>)
                                            (v\<lparr>ld_stopped := False\<rparr>)) l1)
            in (if err = 1 then 1 else 0, resize_latency d (snd (wplip_trigger_bh l2))))"

definition wplip_open_dev :: "nat \<Rightarrow> ('p, 'h) lip_link \<Rightarrow> int \<times> ('p, 'h) lip_link" where
  "wplip_open_dev d l =
     (case devs l d of
        None \<Rightarrow> (- ENODEV, l)
      | Some v \<Rightarrow>
          if \<not> ld_attached v then (- ENODEV, l)
          else if ld_unregister v then (- ENODEV, l)
          else
            let l1 = event (Wake_queue d) (upd_dev d (\<lambda>v. v\<lparr>ld_if_down := False,
                       ld_carrier := (lk_state l = WAN_CONNECTED \<or> ld_carrier v), ld_stopped := False\<rparr>) l);
                l2 = wplip_lipdev_prot_update_state_change d l1
            in (0, if \<not> ld_ready v then event (If_task d) (upd_dev d (\<lambda>v. v\<lparr>ld_ready := True\<rparr>) l2)
                   else l2))"

definition wplip_stop_dev :: "nat \<Rightarrow> ('p, 'h) lip_link \<Rightarrow> int \<times> ('p, 'h) lip_link" where
  "wplip_stop_dev d l =
     (case devs l d of
        None \<Rightarrow> (0, l)
      | Some v \<Rightarrow> if \<not> ld_attached v then (0, l) else (0, upd_dev d (\<lambda>v. v\<lparr>ld_if_down := True\<rparr>) l))"

definition wplip_tx_timeout :: "nat \<Rightarrow> ('p, 'h) lip_link \<Rightarrow> ('p, 'h) lip_link" where
  "wplip_tx_timeout d l =
     (let l1 = wplip_kick_trigger_bh (wan_clear_bit WPLIP_BH_AWAITING_KICK l);
          l2 = event (Wake_queue d) (upd_dev d (\<lambda>v. v\<lparr>ld_stopped := False\<rparr>) l1)
      in case devs l2 d of Some v \<Rightarrow> if ld_usedby v = API then event (Api_state d) l2 else l2 | None \<Rightarrow> l2)"

end
