(* ===== verification/Lip_Bh.thy ===== *)
theory Lip_Bh
  imports Lip_Iface "HOL-Library.Monad_Syntax"
begin

text \<open>
  The bottom half of a link, wanpipe_lip_bh.c: received frames go to the protocol, then the
  queue of the link and one frame of each device, from \<open>cur_tx\<close> round the list, go to the
  device below. A refused frame goes back to the head of its queue and the link waits for a
  kick; a pass of more than ten ticks is cut off. The loops over the received frames and
  round the devices may run on as far as the code says, and are partial functions.
\<close>

lemma data_tx_down_queues [simp]:
  "tx_queue (snd (wplip_data_tx_down E skb l)) = tx_queue l"
  "rx_queue (snd (wplip_data_tx_down E skb l)) = rx_queue l"
  "devs (snd (wplip_data_tx_down E skb l)) = devs l"
  "list_head_ifdev (snd (wplip_data_tx_down E skb l)) = list_head_ifdev l"
  "cur_tx (snd (wplip_data_tx_down E skb l)) = cur_tx l"
  "tq_working (snd (wplip_data_tx_down E skb l)) = tq_working l"
  by (simp_all add: wplip_data_tx_down_def Let_def split: list.split prod.split)

section \<open>Reception\<close>

partial_function (option) wplip_bh_receive ::
  "('p, 'h) lip_env \<Rightarrow> ('p, 'h) lip_link \<Rightarrow> ('p, 'h) lip_link option" where
  "wplip_bh_receive E l =
     (case rx_queue l of
        [] \<Rightarrow> Some l
      | skb # q \<Rightarrow> wplip_bh_receive E (snd (wplip_prot_rx E skb (l\<lparr>rx_queue := q\<rparr>))))"

section \<open>Transmission\<close>

definition read_ticks :: "('p, 'h) lip_env \<Rightarrow> ('p, 'h) lip_link \<Rightarrow> u64 \<times> ('p, 'h) lip_link" where
  "read_ticks E l = (system_ticks E (ticks_read l), l\<lparr>ticks_read := Suc (ticks_read l)\<rparr>)"

lemma tx_queue_read_ticks [simp]: "tx_queue (snd (read_ticks E l)) = tx_queue l"
  by (simp add: read_ticks_def)

text \<open>The queue of the link; \<open>False\<close> is the jump to \<open>wplip_bh_link_transmit_exit\<close>.\<close>

function bh_link_queue ::
  "('p, 'h) lip_env \<Rightarrow> u64 \<Rightarrow> ('p, 'h) lip_link \<Rightarrow> bool \<times> ('p, 'h) lip_link" where
  "bh_link_queue E t0 l =
     (case tx_queue l of
        [] \<Rightarrow> (True, l)
      | skb # q \<Rightarrow>
          (case wplip_data_tx_down E skb (l\<lparr>tx_queue := q\<rparr>) of
             (err, l1) \<Rightarrow>
               if err \<noteq> 0 then
                 (False, wan_set_bit WPLIP_BH_AWAITING_KICK (l1\<lparr>tx_queue := skb # tx_queue l1\<rparr>))
               else
                 (case read_ticks E l1 of
                    (t, l2) \<Rightarrow> if t - t0 > 10 then (False, l2) else bh_link_queue E t0 l2)))"
  by pat_completeness auto
termination
proof (relation "measure (\<lambda>(E, t0, l). length (tx_queue l))", goal_cases)
  case (2 E t0 l skb q err l1 t l2)
  then have "tx_queue l1 = q" using data_tx_down_queues(1) [of E skb "l\<lparr>tx_queue := q\<rparr>"]
    by (cases "wplip_data_tx_down E skb (l\<lparr>tx_queue := q\<rparr>)") auto
  moreover from 2(4) have "tx_queue l2 = tx_queue l1" by (metis tx_queue_read_ticks snd_conv)
  ultimately show ?case using 2(1) by simp
qed simp

declare bh_link_queue.simps [simp del]

text \<open>Waking the sender above a device.\<close>

definition bh_wake :: "nat \<Rightarrow> lip_dev \<Rightarrow> ('p, 'h) lip_link \<Rightarrow> ('p, 'h) lip_link" where
  "bh_wake d v l =
     (if \<not> ld_if_down v \<and> ld_stopped v then
        let l1 = upd_dev d (\<lambda>v. v\<lparr>ld_stopped := False\<rparr>) l
        in if ld_usedby v = API then event (Wake_api d) l1
           else case ld_up_lip v of
             Some n \<Rightarrow> event (Kick_lip n) l1
           | None \<Rightarrow> event (Wake_queue d) l1
      else l)"

text \<open>
  The body of the loop for the device \<open>d\<close>, after the test of the time; \<open>False\<close> is the jump
  to \<open>wplip_bh_transmit_exit\<close>.
\<close>

definition bh_dev ::
  "('p, 'h) lip_env \<Rightarrow> nat \<Rightarrow> ('p, 'h) lip_link \<Rightarrow> bool \<times> ('p, 'h) lip_link" where
  "bh_dev E d l =
     (case devs l d of
        None \<Rightarrow> (False, l\<lparr>lip_fault := True\<rparr>)
      | Some v \<Rightarrow>
          if ld_unregister v then (True, l)
          else
            let (err, l1) =
              (case ld_tx_queue v of
                 [] \<Rightarrow> (0, l)
               | skb # q \<Rightarrow>
                   let (err, l1) = wplip_data_tx_down E skb (upd_dev d (\<lambda>v. v\<lparr>ld_tx_queue := q\<rparr>) l)
                   in (err, if err \<noteq> 0 then wan_set_bit WPLIP_BH_AWAITING_KICK
                              (upd_dev d (\<lambda>v. v\<lparr>ld_tx_queue := skb # ld_tx_queue v\<rparr>) l1) else l1))
            in if err \<noteq> 0 then (False, l1)
               else
                 let l2 = snd (wplip_prot_kick E d (bh_wake d v l1));
                     more = (case devs l2 d of Some v \<Rightarrow> ld_tx_queue v \<noteq> [] | None \<Rightarrow> False)
                 in (True, if more then wan_set_bit WPLIP_MORE_LINK_TX l2 else l2))"

text \<open>\<open>WAN_LIST_NEXT\<close>, and \<open>WAN_LIST_FIRST\<close> at the end of the list.\<close>

definition list_next :: "nat \<Rightarrow> nat list \<Rightarrow> nat option" where
  "list_next d ds =
     (case dropWhile (\<lambda>x. x \<noteq> d) ds of
        _ # n # _ \<Rightarrow> Some n
      | _ \<Rightarrow> (case ds of [] \<Rightarrow> None | n # _ \<Rightarrow> Some n))"

text \<open>
  Round the devices. The list at the end of a pass is not empty unless a protocol has
  emptied it, and then the code reads the null device.
\<close>

partial_function (option) bh_devs ::
  "('p, 'h) lip_env \<Rightarrow> u64 \<Rightarrow> nat \<Rightarrow> ('p, 'h) lip_link \<Rightarrow> ('p, 'h) lip_link option" where
  "bh_devs E t0 d l =
     (case read_ticks E l of
        (t, l1) \<Rightarrow>
          if t - t0 > 10 then Some (l1\<lparr>cur_tx := Some d\<rparr>)
          else (case bh_dev E d l1 of
            (go, l2) \<Rightarrow>
              if \<not> go then Some (l2\<lparr>cur_tx := Some d\<rparr>)
              else if list_next d (list_head_ifdev l2) = cur_tx l2 then Some l2
              else (case list_next d (list_head_ifdev l2) of
                None \<Rightarrow> Some (l2\<lparr>lip_fault := True\<rparr>)
              | Some n \<Rightarrow> bh_devs E t0 n l2)))"

text \<open>The label \<open>wplip_bh_link_transmit_exit\<close>.\<close>

definition bh_exit :: "('p, 'h) lip_link \<Rightarrow> bool \<times> ('p, 'h) lip_link" where
  "bh_exit l =
     (let l1 = (if tx_queue l \<noteq> [] then wan_set_bit WPLIP_MORE_LINK_TX l else l)
      in (wan_test_bit WPLIP_MORE_LINK_TX l1, l1))"

text \<open>
  The result is that of the code, whether more is to send. The magic number of \<open>cur_tx\<close>
  is read, so a freed device there is a fault; the one of the first device of the list is
  good, devices are freed after their removal.
\<close>

definition wplip_bh_transmit ::
  "('p, 'h) lip_env \<Rightarrow> ('p, 'h) lip_link \<Rightarrow> (bool \<times> ('p, 'h) lip_link) option" where
  "wplip_bh_transmit E l =
     (let (t0, l) = read_ticks E l in
      if wan_test_bit WPLIP_BH_AWAITING_KICK l \<and> \<not> wan_test_bit WPLIP_KICK l then Some (False, l)
      else
        let l = wan_clear_bit WPLIP_MORE_LINK_TX
                  (wan_clear_bit WPLIP_BH_AWAITING_KICK (wan_clear_bit WPLIP_KICK l));
            (go, l) = bh_link_queue E t0 l
        in if \<not> go then Some (bh_exit l)
           else case cur_tx l of
             Some d \<Rightarrow>
               if devs l d = None then Some (bh_exit (l\<lparr>lip_fault := True\<rparr>))
               else bh_devs E t0 d l \<bind> (\<lambda>l. Some (bh_exit l))
           | None \<Rightarrow>
               (case list_head_ifdev l of
                  [] \<Rightarrow> Some (bh_exit l)
                | d # _ \<Rightarrow> bh_devs E t0 d (l\<lparr>cur_tx := Some d\<rparr>) \<bind> (\<lambda>l. Some (bh_exit l))))"

section \<open>The tasklet\<close>

definition wplip_retrigger_bh :: "('p, 'h) lip_link \<Rightarrow> int \<times> ('p, 'h) lip_link" where
  "wplip_retrigger_bh l =
     (if wan_test_bit WPLIP_MORE_LINK_TX l \<or> rx_queue l \<noteq> [] then wplip_trigger_bh l
      else (- EINVAL, l))"

text \<open>The run of a scheduled tasklet: the kernel clears its mark, then calls it.\<close>

definition wplip_link_bh :: "('p, 'h) lip_env \<Rightarrow> ('p, 'h) lip_link \<Rightarrow> ('p, 'h) lip_link option" where
  "wplip_link_bh E l =
     (let l = l\<lparr>task_scheduled := False\<rparr> in
      if wan_test_bit WPLIP_LINK_DOWN l then Some l
      else do {
        l \<leftarrow> wplip_bh_receive E (wan_set_bit WPLIP_BH_RUNNING l);
        (_, l) \<leftarrow> wplip_bh_transmit E l;
        Some (snd (wplip_retrigger_bh (wan_clear_bit WPLIP_BH_RUNNING l)))
      })"

end
