(* ===== verification/Lip_Contract.thy ===== *)
theory Lip_Contract
  imports Lip_Bh
begin

text \<open>
  What a protocol may do to the link that calls it: change its own state and call the
  callbacks it was registered with, on the devices it knows. \<open>extends_link\<close> is what follows
  for the link: nothing is taken from a queue, and what is added leaves the bottom half
  scheduled or waiting for a kick. The locale \<open>lip_protocol\<close> states the contract; the LIP
  layer is proved against it.
\<close>

section \<open>Sequences of callbacks\<close>

inductive callback ::
  "('p \<Rightarrow> nat set) \<Rightarrow> ('p, 'h) lip_env \<Rightarrow> ('p, 'h) lip_link \<Rightarrow> ('p, 'h) lip_link \<Rightarrow> bool"
  for D E where
  own: "D p \<subseteq> D (prot l) \<Longrightarrow> callback D E l (l\<lparr>prot := p\<rparr>)"
| link_down: "callback D E l (snd (wplip_link_callback_tx_down skb l))"
| chan_down: "d \<in> D (prot l) \<Longrightarrow> callback D E l (snd (wplip_callback_tx_down d skb l))"
| link_state: "callback D E l (wplip_link_prot_change_state st l)"
| chan_state: "d \<in> D (prot l) \<Longrightarrow> callback D E l (wplip_lipdev_prot_change_state d st l)"
| up: "d \<in> D (prot l) \<Longrightarrow> callback D E l (wplip_prot_rx_up E d skb ty l)"
| kick_task: "callback D E l (wplip_callback_kick_prot_task l)"

abbreviation callbacks ::
  "('p \<Rightarrow> nat set) \<Rightarrow> ('p, 'h) lip_env \<Rightarrow> ('p, 'h) lip_link \<Rightarrow> ('p, 'h) lip_link \<Rightarrow> bool" where
  "callbacks D E \<equiv> (callback D E)\<^sup>*\<^sup>*"

section \<open>What callbacks leave of a link\<close>

definition extends_dev :: "lip_dev \<Rightarrow> lip_dev \<Rightarrow> bool" where
  "extends_dev v w \<longleftrightarrow>
     ld_unregister w = ld_unregister v \<and> ld_protocol w = ld_protocol v \<and> ld_usedby w = ld_usedby v \<and>
     ld_max_mtu_sz w = ld_max_mtu_sz v \<and> ld_max_mtu_sz_orig w = ld_max_mtu_sz_orig v \<and>
     ld_attached w = ld_attached v \<and> ld_prot w = ld_prot v \<and>
     (\<exists>add. ld_tx_queue w = ld_tx_queue v @ add) \<and>
     (ld_tx_queue w = ld_tx_queue v \<or> length (ld_tx_queue w) \<le> unat (ld_max_mtu_sz v))"

definition will_run :: "('p, 'h) lip_link \<Rightarrow> bool" where
  "will_run l \<longleftrightarrow> task_scheduled l \<or> wan_test_bit WPLIP_BH_AWAITING_KICK l \<or> wan_test_bit WPLIP_LINK_DOWN l"

definition same_queues :: "('p, 'h) lip_link \<Rightarrow> ('p, 'h) lip_link \<Rightarrow> bool" where
  "same_queues l m \<longleftrightarrow> tx_queue m = tx_queue l \<and>
     (\<forall>d. map_option ld_tx_queue (devs m d) = map_option ld_tx_queue (devs l d))"

definition extends_link :: "('p \<Rightarrow> nat set) \<Rightarrow> ('p, 'h) lip_link \<Rightarrow> ('p, 'h) lip_link \<Rightarrow> bool" where
  "extends_link D l m \<longleftrightarrow>
     list_head_ifdev m = list_head_ifdev l \<and> dev_cnt m = dev_cnt l \<and>
     list_head_tx_ifdev m = list_head_tx_ifdev l \<and> tx_dev_cnt m = tx_dev_cnt l \<and>
     cur_tx m = cur_tx l \<and> rx_queue m = rx_queue l \<and> tq_working m = tq_working l \<and>
     lk_protocol m = lk_protocol l \<and> wire m = wire l \<and> lower m = lower l \<and>
     ticks_read m = ticks_read l \<and> D (prot m) \<subseteq> D (prot l) \<and>
     (D (prot l) \<subseteq> dom (devs l) \<longrightarrow> lip_fault m = lip_fault l) \<and>
     dom (devs m) = dom (devs l) \<and>
     (\<forall>d v w. devs l d = Some v \<longrightarrow> devs m d = Some w \<longrightarrow> extends_dev v w) \<and>
     (\<exists>add. tx_queue m = tx_queue l @ add) \<and>
     (tx_queue m = tx_queue l \<or> length (tx_queue m) \<le> MAX_TX_BUF) \<and>
     (task_scheduled l \<longrightarrow> task_scheduled m) \<and> (same_queues l m \<or> will_run m)"

named_theorems lip_calls "the calls of the link layer"

declare wplip_trigger_bh_def [lip_calls] upd_dev_def [lip_calls]

lemma extends_dev_refl [simp]: "extends_dev v v"
  by (simp add: extends_dev_def)

lemma extends_dev_trans:
  assumes "extends_dev u v" "extends_dev v w"
  shows "extends_dev u w"
proof -
  from assms obtain a b where "ld_tx_queue v = ld_tx_queue u @ a" "ld_tx_queue w = ld_tx_queue v @ b"
    unfolding extends_dev_def by blast
  then have "\<exists>add. ld_tx_queue w = ld_tx_queue u @ add" by simp
  with assms show ?thesis unfolding extends_dev_def by (elim conjE) (intro conjI, simp_all, metis)
qed

lemma extends_link_refl [simp]: "extends_link D l l"
  by (auto simp: extends_link_def same_queues_def)

text \<open>The parts of the relation, for the proofs that chain them.\<close>

lemma extends_same:
  assumes "extends_link D l m"
  shows "list_head_ifdev m = list_head_ifdev l" "dev_cnt m = dev_cnt l"
    "list_head_tx_ifdev m = list_head_tx_ifdev l" "tx_dev_cnt m = tx_dev_cnt l"
    "cur_tx m = cur_tx l" "rx_queue m = rx_queue l" "tq_working m = tq_working l"
    "lk_protocol m = lk_protocol l" "wire m = wire l" "lower m = lower l"
    "ticks_read m = ticks_read l" "dom (devs m) = dom (devs l)"
  using assms by (simp_all add: extends_link_def)

lemma extends_knows: "extends_link D l m \<Longrightarrow> D (prot m) \<subseteq> D (prot l)"
  by (simp add: extends_link_def)

lemma extends_no_fault:
  "extends_link D l m \<Longrightarrow> D (prot l) \<subseteq> dom (devs l) \<Longrightarrow> lip_fault m = lip_fault l"
  by (simp add: extends_link_def)

lemma extends_devD:
  assumes "extends_link D l m" "devs l d = Some v"
  shows "\<exists>w. devs m d = Some w \<and> extends_dev v w"
proof -
  have "dom (devs m) = dom (devs l)" using assms(1) by (rule extends_same)
  with assms(2) obtain w where w: "devs m d = Some w" by blast
  have "\<forall>d v w. devs l d = Some v \<longrightarrow> devs m d = Some w \<longrightarrow> extends_dev v w"
    using assms(1) unfolding extends_link_def by (elim conjE) assumption
  with assms(2) w show ?thesis by blast
qed

lemma extends_tx: "extends_link D l m \<Longrightarrow> \<exists>add. tx_queue m = tx_queue l @ add"
  unfolding extends_link_def by (elim conjE) assumption

lemma extends_tx_bound:
  "extends_link D l m \<Longrightarrow> tx_queue m = tx_queue l \<or> length (tx_queue m) \<le> MAX_TX_BUF"
  unfolding extends_link_def by (elim conjE) assumption

lemma extends_run: "extends_link D l m \<Longrightarrow> same_queues l m \<or> will_run m"
  unfolding extends_link_def by (elim conjE) assumption

lemma extends_task: "extends_link D l m \<Longrightarrow> task_scheduled l \<longrightarrow> task_scheduled m"
  unfolding extends_link_def by (elim conjE) assumption

lemma extends_link_trans:
  assumes 1: "extends_link D l m" and 2: "extends_link D m n"
  shows "extends_link D l n"
proof -
  have dev: "extends_dev u w" if "devs l d = Some u" "devs n d = Some w" for d u w
    using extends_devD [OF 1 that(1)] extends_devD [OF 2] that(2) extends_dev_trans by fastforce
  have run: "same_queues l n \<or> will_run n"
  proof -
    consider "same_queues m n" "same_queues l m" | "will_run n" | "same_queues m n" "will_run m"
      using extends_run [OF 1] extends_run [OF 2] by blast
    then show ?thesis
    proof cases
      case 1
      then show ?thesis by (simp add: same_queues_def)
    next
      case 3
      with extends_task [OF 2] extends_same(7) [OF 2] show ?thesis by (auto simp: will_run_def)
    qed simp
  qed
  have q: "\<exists>add. tx_queue n = tx_queue l @ add"
  proof -
    obtain a b where "tx_queue m = tx_queue l @ a" "tx_queue n = tx_queue m @ b"
      using extends_tx [OF 1] extends_tx [OF 2] by blast
    then show ?thesis by simp
  qed
  have b: "tx_queue n = tx_queue l \<or> length (tx_queue n) \<le> MAX_TX_BUF"
    using extends_tx_bound [OF 1] extends_tx_bound [OF 2] by (elim disjE) simp_all
  have f: "D (prot l) \<subseteq> dom (devs l) \<longrightarrow> lip_fault n = lip_fault l"
    using extends_no_fault [OF 1] extends_no_fault [OF 2] extends_knows [OF 1] extends_same(12) [OF 1] by simp
  have k: "D (prot n) \<subseteq> D (prot l)" using extends_knows [OF 1] extends_knows [OF 2] by blast
  have t: "task_scheduled l \<longrightarrow> task_scheduled n" using extends_task [OF 1] extends_task [OF 2] by blast
  show ?thesis
    unfolding extends_link_def
    by (intro conjI q b f k t run allI impI dev)
      (simp_all add: extends_same [OF 1] extends_same [OF 2])
qed

text \<open>A change of one device that leaves its queue and what the layer relies on.\<close>

lemma extends_upd:
  assumes "extends_dev v w" "ld_tx_queue w = ld_tx_queue v" "devs l d = Some v"
  shows "extends_link D l (l\<lparr>devs := (devs l)(d \<mapsto> w)\<rparr>)"
  using assms by (auto simp: extends_link_def same_queues_def)

lemma extends_event [simp]: "extends_link D l (m\<lparr>events := es\<rparr>) = extends_link D l m"
  by (simp add: extends_link_def same_queues_def will_run_def)

lemma extends_sched: "extends_link D l m \<Longrightarrow> extends_link D l (snd (wplip_trigger_bh m))"
  by (auto simp: extends_link_def same_queues_def will_run_def wplip_trigger_bh_def)

lemma extends_fault: "extends_link D l l \<Longrightarrow> \<not> D (prot l) \<subseteq> dom (devs l) \<Longrightarrow> extends_link D l (l\<lparr>lip_fault := True\<rparr>)"
  by (auto simp: extends_link_def same_queues_def)

lemma extends_sub:
  assumes "d \<in> D (prot l)"
  shows "extends_link D l (l\<lparr>lip_fault := True\<rparr>) \<or> devs l d \<noteq> None"
  using assms by (auto simp: extends_link_def same_queues_def dom_def subset_eq)

section \<open>Each callback\<close>

lemma extends_link_down: "extends_link D l (snd (wplip_link_callback_tx_down skb l))"
  by (auto simp: wplip_link_callback_tx_down_def extends_link_def same_queues_def will_run_def
      wplip_trigger_bh_def MAX_TX_BUF_def)

lemma extends_chan_down:
  assumes "d \<in> D (prot l)"
  shows "extends_link D l (snd (wplip_callback_tx_down d skb l))"
proof (cases "devs l d")
  case None
  with extends_sub [where D = D, OF assms] show ?thesis by (simp add: wplip_callback_tx_down_def)
next
  case (Some v)
  show ?thesis
  proof (cases "carrier_state l = WAN_CONNECTED")
    case False
    with Some show ?thesis
      by (auto simp: wplip_callback_tx_down_def upd_dev_def extends_dev_def intro!: extends_upd [OF _ _ Some])
  next
    case True
    with Some True show ?thesis
      by (auto simp: wplip_callback_tx_down_def extends_link_def same_queues_def will_run_def
          wplip_trigger_bh_def upd_dev_def extends_dev_def)
  qed
qed

lemma extends_link_state: "extends_link D l (wplip_link_prot_change_state st l)"
  by (auto simp: wplip_link_prot_change_state_def Let_def extends_link_def same_queues_def)

lemma extends_update_state:
  assumes "devs l d \<noteq> None"
  shows "extends_link D l (wplip_lipdev_prot_update_state_change d l)"
proof -
  from assms obtain v where v: "devs l d = Some v" by blast
  have u: "extends_link D l (upd_dev d (\<lambda>v. v\<lparr>ld_carrier := c, ld_stopped := s\<rparr>) l)"
    "extends_link D l (upd_dev d (\<lambda>v. v\<lparr>ld_carrier := c\<rparr>) l)" for c s
    using v by (auto simp: upd_dev_def extends_dev_def intro!: extends_upd [OF _ _ v])
  show ?thesis
    by (auto simp: wplip_lipdev_prot_update_state_change_def Let_def v u
        intro!: extends_sched split: option.split)
qed

lemma dom_upd_dev [simp]: "dom (devs (upd_dev d f l)) = dom (devs l)"
  by (auto simp: upd_dev_def split: option.split)

lemma extends_chan_state:
  assumes "d \<in> D (prot l)"
  shows "extends_link D l (wplip_lipdev_prot_change_state d st l)"
proof (cases "devs l d")
  case None
  with extends_sub [where D = D, OF assms] show ?thesis
    by (simp add: wplip_lipdev_prot_change_state_def upd_dev_def)
next
  case (Some v)
  have 1: "extends_link D l (upd_dev d (\<lambda>v. v\<lparr>ld_state := st\<rparr>) l)"
    using Some by (auto simp: upd_dev_def extends_dev_def intro!: extends_upd [OF _ _ Some])
  moreover have "devs (upd_dev d (\<lambda>v. v\<lparr>ld_state := st\<rparr>) l) d \<noteq> None"
    using Some by (simp add: upd_dev_def)
  ultimately show ?thesis
    using extends_link_trans [OF 1 extends_update_state]
    by (auto simp: wplip_lipdev_prot_change_state_def Let_def split: option.split)
qed

lemma extends_rx_up:
  assumes "d \<in> D (prot l)"
  shows "extends_link D l (wplip_prot_rx_up E d skb ty l)"
proof (cases "devs l d")
  case None
  with extends_sub [where D = D, OF assms] show ?thesis by (simp add: wplip_prot_rx_up_def)
next
  case (Some v)
  have "extends_link D l (upd_dev d (\<lambda>v. v\<lparr>ld_stats := f v\<rparr>) l)" for f
    using Some by (auto simp: upd_dev_def extends_dev_def intro!: extends_upd [OF _ _ Some])
  then have "extends_link D l (snd (wplip_data_rx_up E d skb l))"
    by (simp add: wplip_data_rx_up_def rx_taken_def rx_drop_def Some)
  then show ?thesis by (simp add: wplip_prot_rx_up_def Some)
qed

lemma extends_callback: "callback D E l m \<Longrightarrow> extends_link D l m"
  by (induction rule: callback.induct)
    (auto simp: extends_link_down extends_chan_down extends_link_state extends_chan_state
      extends_rx_up wplip_callback_kick_prot_task_def,
     auto simp: extends_link_def same_queues_def)

lemma extends_callbacks: "callbacks D E l m \<Longrightarrow> extends_link D l m"
  by (induction rule: rtranclp_induct) (auto intro: extends_link_trans extends_callback)

end
