(* ===== verification/Lip_Walk.thy ===== *)
theory Lip_Walk
  imports Lip_Contract
begin

text \<open>
  The bottom half as a walk: \<open>bh_walk\<close> is the loop round the devices as a recursion over
  the list from \<open>cur_tx\<close> on, and \<open>drains\<close> the relation between the link before and after:
  the frames that left a queue are the first ones of it, and they are on the wire.
\<close>

section \<open>Frames that moved\<close>

definition src_queue :: "('p, 'h) lip_link \<Rightarrow> nat option \<Rightarrow> frame list" where
  "src_queue l s =
     (case s of None \<Rightarrow> tx_queue l
      | Some d \<Rightarrow> (case devs l d of Some v \<Rightarrow> ld_tx_queue v | None \<Rightarrow> []))"

definition sent_by :: "nat option \<Rightarrow> (nat option \<times> frame) list \<Rightarrow> frame list" where
  "sent_by s log = map snd (filter (\<lambda>e. fst e = s) log)"

lemma sent_by_simps [simp]:
  "sent_by s [] = []"
  "sent_by s (e # log) = (if fst e = s then snd e # sent_by s log else sent_by s log)"
  "sent_by s (log @ log') = sent_by s log @ sent_by s log'"
  by (simp_all add: sent_by_def)

definition moved :: "(nat option \<times> frame) list \<Rightarrow> ('p, 'h) lip_link \<Rightarrow> ('p, 'h) lip_link \<Rightarrow> bool" where
  "moved log l m \<longleftrightarrow> wire m = wire l @ map snd log \<and>
     (\<forall>s. \<exists>add. src_queue l s @ add = sent_by s log @ src_queue m s)"

definition dev_within :: "lip_dev \<Rightarrow> lip_dev \<Rightarrow> bool" where
  "dev_within v w \<longleftrightarrow>
     ld_unregister w = ld_unregister v \<and> ld_protocol w = ld_protocol v \<and>
     ld_max_mtu_sz w = ld_max_mtu_sz v \<and> ld_max_mtu_sz_orig w = ld_max_mtu_sz_orig v \<and>
     length (ld_tx_queue w) \<le> max (length (ld_tx_queue v)) (unat (ld_max_mtu_sz v))"

text \<open>What the bottom half leaves of a link, \<open>cur_tx\<close> and the flags apart.\<close>

definition drains ::
  "('p \<Rightarrow> nat set) \<Rightarrow> (nat option \<times> frame) list \<Rightarrow> ('p, 'h) lip_link \<Rightarrow> ('p, 'h) lip_link \<Rightarrow> bool" where
  "drains D log l m \<longleftrightarrow>
     (list_head_ifdev m = list_head_ifdev l \<and> dev_cnt m = dev_cnt l \<and>
      list_head_tx_ifdev m = list_head_tx_ifdev l \<and> tx_dev_cnt m = tx_dev_cnt l \<and>
      rx_queue m = rx_queue l \<and> lk_protocol m = lk_protocol l \<and> dom (devs m) = dom (devs l) \<and>
      D (prot m) \<subseteq> D (prot l)) \<and>
     (D (prot l) \<subseteq> dom (devs l) \<longrightarrow> lip_fault m = lip_fault l) \<and>
     moved log l m \<and>
     (\<forall>d v. devs l d = Some v \<longrightarrow> (\<exists>w. devs m d = Some w \<and> dev_within v w)) \<and>
     length (tx_queue m) \<le> max (length (tx_queue l)) MAX_TX_BUF"

lemma moved_nil: "wire m = wire l \<Longrightarrow> (\<And>s. \<exists>add. src_queue m s = src_queue l s @ add) \<Longrightarrow> moved [] l m"
  by (auto simp: moved_def) metis

lemma moved_trans:
  assumes "moved a l m" "moved b m n"
  shows "moved (a @ b) l n"
proof -
  have "\<exists>add. src_queue l s @ add = sent_by s (a @ b) @ src_queue n s" for s
  proof -
    obtain x y where "src_queue l s @ x = sent_by s a @ src_queue m s"
      "src_queue m s @ y = sent_by s b @ src_queue n s"
      using assms unfolding moved_def by blast
    then have "src_queue l s @ x @ y = sent_by s (a @ b) @ src_queue n s"
      by (metis append.assoc sent_by_simps(3))
    then show ?thesis by blast
  qed
  with assms show ?thesis by (simp add: moved_def)
qed

lemma drains_moved: "drains D log l m \<Longrightarrow> moved log l m"
  unfolding drains_def by (elim conjE) assumption

lemma drains_same:
  assumes "drains D log l m"
  shows "list_head_ifdev m = list_head_ifdev l" "dev_cnt m = dev_cnt l"
    "list_head_tx_ifdev m = list_head_tx_ifdev l" "tx_dev_cnt m = tx_dev_cnt l"
    "rx_queue m = rx_queue l" "lk_protocol m = lk_protocol l" "dom (devs m) = dom (devs l)"
    "D (prot m) \<subseteq> D (prot l)"
  using assms by (simp_all add: drains_def)

lemma drains_no_fault: "drains D log l m \<Longrightarrow> D (prot l) \<subseteq> dom (devs l) \<Longrightarrow> lip_fault m = lip_fault l"
  by (simp add: drains_def)

lemma drains_dev:
  "drains D log l m \<Longrightarrow> devs l d = Some v \<Longrightarrow> \<exists>w. devs m d = Some w \<and> dev_within v w"
  unfolding drains_def by (elim conjE) blast

lemma drains_tx: "drains D log l m \<Longrightarrow> length (tx_queue m) \<le> max (length (tx_queue l)) MAX_TX_BUF"
  unfolding drains_def by (elim conjE) assumption

lemma dev_within_trans: "dev_within u v \<Longrightarrow> dev_within v w \<Longrightarrow> dev_within u w"
  by (auto simp: dev_within_def)

lemma drains_trans:
  assumes 1: "drains D a l m" and 2: "drains D b m n"
  shows "drains D (a @ b) l n"
proof -
  have "\<exists>w. devs n d = Some w \<and> dev_within v w" if "devs l d = Some v" for d v
    using drains_dev [OF 1 that] drains_dev [OF 2] dev_within_trans by blast
  moreover have "D (prot l) \<subseteq> dom (devs l) \<longrightarrow> lip_fault n = lip_fault l"
    using drains_no_fault [OF 1] drains_no_fault [OF 2] drains_same(7,8) [OF 1] by simp
  moreover have "D (prot n) \<subseteq> D (prot l)" using drains_same(8) [OF 1] drains_same(8) [OF 2] by blast
  moreover have "length (tx_queue n) \<le> max (length (tx_queue l)) MAX_TX_BUF"
    using drains_tx [OF 1] drains_tx [OF 2] by simp
  ultimately show ?thesis
    unfolding drains_def
    by (intro conjI moved_trans [OF drains_moved [OF 1] drains_moved [OF 2]] allI impI)
      (simp_all add: drains_same(1-7) [OF 1] drains_same(1-7) [OF 2])
qed

lemma drains_extends:
  assumes "extends_link D l m"
  shows "drains D [] l m"
proof -
  have q: "\<exists>add. src_queue m s = src_queue l s @ add" for s
  proof (cases s)
    case None
    with extends_tx [OF assms] show ?thesis by (simp add: src_queue_def)
  next
    case (Some d)
    show ?thesis
    proof (cases "devs l d")
      case None
      with extends_same(12) [OF assms] have "devs m d = None" by (metis domIff)
      with None Some show ?thesis by (simp add: src_queue_def)
    next
      case (Some v)
      from extends_devD [OF assms Some] obtain w where "devs m d = Some w" "extends_dev v w" by blast
      with Some \<open>s = _\<close> show ?thesis by (simp add: src_queue_def extends_dev_def)
    qed
  qed
  have "\<exists>w. devs m d = Some w \<and> dev_within v w" if "devs l d = Some v" for d v
  proof -
    from extends_devD [OF assms that] obtain w where w: "devs m d = Some w" "extends_dev v w" by blast
    then have "dev_within v w" by (auto simp: extends_dev_def dev_within_def)
    with w show ?thesis by blast
  qed
  then show ?thesis
    using extends_no_fault [OF assms] extends_knows [OF assms] extends_tx_bound [OF assms]
      moved_nil [OF extends_same(9) [OF assms] q]
    unfolding drains_def by (auto simp: extends_same [OF assms])
qed

lemma drains_refl [simp]: "drains D [] l l"
  by (rule drains_extends) simp

text \<open>Fields that \<open>drains\<close> does not look at.\<close>

lemma drains_update [simp]:
  "drains D log l (m\<lparr>cur_tx := c\<rparr>) = drains D log l m"
  "drains D log l (m\<lparr>tq_working := f\<rparr>) = drains D log l m"
  "drains D log l (m\<lparr>ticks_read := n\<rparr>) = drains D log l m"
  "drains D log l (m\<lparr>task_scheduled := t\<rparr>) = drains D log l m"
  "drains D log l (m\<lparr>events := es\<rparr>) = drains D log l m"
  "drains D log (l\<lparr>cur_tx := c\<rparr>) m = drains D log l m"
  "drains D log (l\<lparr>tq_working := f\<rparr>) m = drains D log l m"
  "drains D log (l\<lparr>ticks_read := n\<rparr>) m = drains D log l m"
  "drains D log (l\<lparr>task_scheduled := t\<rparr>) m = drains D log l m"
  by (simp_all add: drains_def moved_def src_queue_def cong: option.case_cong)

section \<open>A frame of the link\<close>

lemma data_tx_down_same [simp]:
  "dev_cnt (snd (wplip_data_tx_down E skb l)) = dev_cnt l"
  "list_head_tx_ifdev (snd (wplip_data_tx_down E skb l)) = list_head_tx_ifdev l"
  "tx_dev_cnt (snd (wplip_data_tx_down E skb l)) = tx_dev_cnt l"
  "lk_protocol (snd (wplip_data_tx_down E skb l)) = lk_protocol l"
  "prot (snd (wplip_data_tx_down E skb l)) = prot l"
  "lip_fault (snd (wplip_data_tx_down E skb l)) = lip_fault l"
  "task_scheduled (snd (wplip_data_tx_down E skb l)) = task_scheduled l"
  "ticks_read (snd (wplip_data_tx_down E skb l)) = ticks_read l"
  "wire (snd (wplip_data_tx_down E skb l)) =
     wire l @ (if fst (wplip_data_tx_down E skb l) = 0 then [skb] else [])"
  by (simp_all add: wplip_data_tx_down_def Let_def ENODEV_def EBUSY_def split: list.split prod.split)

text \<open>The head \<open>skb\<close> of the queue \<open>s\<close> is tried: \<open>l1\<close> is the link without it.\<close>

lemma drains_link_frame:
  assumes "tx_queue l = skb # q"
    and "wplip_data_tx_down E skb (l\<lparr>tx_queue := q\<rparr>) = (err, l1)"
  shows "err = 0 \<Longrightarrow> drains D [(None, skb)] l l1"
    and "err \<noteq> 0 \<Longrightarrow> drains D [] l (l1\<lparr>tx_queue := skb # tx_queue l1\<rparr>)"
proof -
  note f = data_tx_down_queues [of E skb "l\<lparr>tx_queue := q\<rparr>"] data_tx_down_same [of E skb "l\<lparr>tx_queue := q\<rparr>"]
  note g = f [unfolded assms(2)]
  have s: "src_queue l s = (if s = None then skb # src_queue l1 s else src_queue l1 s)" for s
    using assms(1) g by (cases s) (simp_all add: src_queue_def)
  show "drains D [(None, skb)] l l1" if "err = 0"
    using that g assms(1) by (auto simp: drains_def moved_def s dev_within_def)
  show "drains D [] l (l1\<lparr>tx_queue := skb # tx_queue l1\<rparr>)" if "err \<noteq> 0"
    using that g assms(1)
    by (auto simp: drains_def moved_def dev_within_def src_queue_def split: option.split)
qed

lemma bh_link_queue_drains:
  "\<exists>log. drains D log l (snd (bh_link_queue E t0 l))"
proof (induction E t0 l rule: bh_link_queue.induct)
  case (1 E t0 l)
  show ?case
  proof (cases "tx_queue l")
    case Nil
    then show ?thesis by (intro exI [of _ "[]"]) (simp add: bh_link_queue.simps [of E t0 l])
  next
    case (Cons skb q)
    obtain err l1 where d: "wplip_data_tx_down E skb (l\<lparr>tx_queue := q\<rparr>) = (err, l1)"
      by (cases "wplip_data_tx_down E skb (l\<lparr>tx_queue := q\<rparr>)")
    obtain t l2 where r: "read_ticks E l1 = (t, l2)" by (cases "read_ticks E l1")
    then have l2: "l2 = l1\<lparr>ticks_read := Suc (ticks_read l1)\<rparr>" by (simp add: read_ticks_def)
    note fr = drains_link_frame [OF Cons d, where D = D]
    consider "err \<noteq> 0" | "err = 0" "t - t0 > 10" | "err = 0" "\<not> t - t0 > 10" by blast
    then show ?thesis
    proof cases
      case 1
      with fr(2) show ?thesis by (auto simp: bh_link_queue.simps [of E t0 l] Cons d)
    next
      case 2
      with fr(1) show ?thesis by (auto simp: bh_link_queue.simps [of E t0 l] Cons d r l2)
    next
      case 3
      from "1.IH" [OF Cons d [symmetric] _ r [symmetric]] 3 obtain log
        where "drains D log l2 (snd (bh_link_queue E t0 l2))" by auto
      with fr(1) 3 have "drains D ([(None, skb)] @ log) l (snd (bh_link_queue E t0 l2))"
        by (intro drains_trans) (simp_all add: l2)
      with 3 show ?thesis by (auto simp: bh_link_queue.simps [of E t0 l] Cons d r)
    qed
  qed
qed

end
