(* ===== verification/Lip_Protocol.thy ===== *)
theory Lip_Protocol
  imports Lip_Walk
begin

text \<open>
  The contract of a protocol and the bottom half above any protocol that keeps it: the walk
  round the devices ends, is the recursion over the list from \<open>cur_tx\<close> on, and moves frames
  from the heads of the queues to the wire.
\<close>

section \<open>The contract\<close>

locale lip_protocol =
  fixes D :: "'p \<Rightarrow> nat set" and E :: "('p, 'h) lip_env"
  assumes rx_calls: "prot_ops E n = Some i \<Longrightarrow> pi_rx i = Some f \<Longrightarrow> callbacks D E l (snd (f l skb))"
    and tx_calls: "prot_ops E n = Some i \<Longrightarrow> pi_tx i = Some f' \<Longrightarrow> callbacks D E l (snd (f' l d skb ty))"
    and bh_calls: "prot_ops E n = Some i \<Longrightarrow> pi_bh i = Some g \<Longrightarrow> callbacks D E l (g l d)"
    and open_calls: "prot_ops E n = Some i \<Longrightarrow> pi_open i = Some f'' \<Longrightarrow>
      fst (f'' l d) = 0 \<and> callbacks D E l (snd (f'' l d))"
    and close_calls: "prot_ops E n = Some i \<Longrightarrow> pi_close i = Some f'' \<Longrightarrow> callbacks D E l (snd (f'' l d))"
    and chan_register: "prot_ops E n = Some i \<Longrightarrow> pi_chan_register i = Some r \<Longrightarrow>
      r p d name raw = Some q \<Longrightarrow> D q \<subseteq> insert d (D p)"
    and chan_unregister: "prot_ops E n = Some i \<Longrightarrow> pi_chan_unregister i = Some u \<Longrightarrow> D (u p d) \<subseteq> D p - {d}"
    and timer_calls: "prot_ops E n = Some i \<Longrightarrow> pi_timer i = Some g' \<Longrightarrow> callbacks D E l (g' l up)"

section \<open>The walk\<close>

text \<open>The devices in the order of a pass that begins with \<open>c\<close>.\<close>

definition rotation :: "nat \<Rightarrow> nat list \<Rightarrow> nat list" where
  "rotation c ds = dropWhile (\<lambda>x. x \<noteq> c) ds @ takeWhile (\<lambda>x. x \<noteq> c) ds"

fun bh_walk ::
  "('p, 'h) lip_env \<Rightarrow> u64 \<Rightarrow> nat list \<Rightarrow> ('p, 'h) lip_link \<Rightarrow> ('p, 'h) lip_link" where
  "bh_walk E t0 [] l = l"
| "bh_walk E t0 (d # ds) l =
     (case read_ticks E l of
        (t, l1) \<Rightarrow>
          if t - t0 > 10 then l1\<lparr>cur_tx := Some d\<rparr>
          else (case bh_dev E d l1 of
            (go, l2) \<Rightarrow> if go then bh_walk E t0 ds l2 else l2\<lparr>cur_tx := Some d\<rparr>))"

lemma rotation_split: "c \<notin> set a \<Longrightarrow> rotation c (a @ c # b) = c # b @ a"
proof -
  assume "c \<notin> set a"
  then have "dropWhile (\<lambda>x. x \<noteq> c) (a @ c # b) = c # b \<and> takeWhile (\<lambda>x. x \<noteq> c) (a @ c # b) = a"
    by (induction a) auto
  then show ?thesis by (simp add: rotation_def)
qed

lemma set_rotation [simp]: "set (rotation c ds) = set ds"
proof -
  have "set ds = set (takeWhile (\<lambda>x. x \<noteq> c) ds @ dropWhile (\<lambda>x. x \<noteq> c) ds)" by simp
  then show ?thesis unfolding rotation_def set_append by blast
qed

lemma distinct_rotation [simp]: "distinct (rotation c ds) = distinct ds"
proof -
  have "distinct ds = distinct (takeWhile (\<lambda>x. x \<noteq> c) ds @ dropWhile (\<lambda>x. x \<noteq> c) ds)"
    by (simp only: takeWhile_dropWhile_id)
  then show ?thesis unfolding rotation_def distinct_append by blast
qed

lemma dropWhile_split: "d \<notin> set a \<Longrightarrow> dropWhile (\<lambda>x. x \<noteq> d) (a @ d # b) = d # b"
  by (induction a) auto

lemma list_next_split:
  "d \<notin> set a \<Longrightarrow> list_next d (a @ d # n # b) = Some n"
  "d \<notin> set a \<Longrightarrow> list_next d (a @ [d]) = Some (hd (a @ [d]))"
  by (cases a; simp add: list_next_def dropWhile_split)+

text \<open>The next device of a pass, and \<open>cur_tx\<close> after the last one.\<close>

lemma list_next_rotation:
  assumes "distinct ds" "c \<in> set ds" "rotation c ds = pre @ d # rest"
  shows "list_next d ds = Some (hd (rest @ [c]))"
proof -
  from assms(2) obtain a b where ab: "ds = a @ c # b" "c \<notin> set a" by (metis split_list_first)
  then have eq: "(c # b) @ a = pre @ d # rest" using assms(3) by (simp add: rotation_split)
  from eq obtain us where "c # b = pre @ us \<and> us @ a = d # rest \<or> (c # b) @ us = pre \<and> a = us @ d # rest"
    unfolding append_eq_append_conv2 by blast
  then consider us where "c # b = pre @ d # us" "us @ a = rest" | vs where "a = vs @ d # rest"
    by (cases us) auto
  then show ?thesis
  proof cases
    case 1
    then have ds: "ds = (a @ pre) @ d # us" using ab by simp
    then have "d \<notin> set (a @ pre)" using assms(1) by auto
    show ?thesis
    proof (cases us)
      case Nil
      then have "list_next d ds = Some (hd (a @ pre @ [d]))"
        using list_next_split(2) [OF \<open>d \<notin> _\<close>] ds by simp
      moreover have "hd (pre @ [d]) = c" using 1(1) Nil by (cases pre) auto
      ultimately show ?thesis using 1(2) Nil by (cases rest) simp_all
    next
      case (Cons n us')
      then show ?thesis using list_next_split(1) [OF \<open>d \<notin> _\<close>] ds 1(2) by auto
    qed
  next
    case 2
    then have ds: "ds = vs @ d # rest @ c # b" using ab by simp
    then have "d \<notin> set vs" using assms(1) by auto
    with ds show ?thesis by (cases rest) (simp_all add: list_next_split)
  qed
qed

section \<open>One device\<close>

lemma drains_upd_dev:
  assumes "devs l d = Some v" "ld_tx_queue (f v) = ld_tx_queue v" "dev_within v (f v)"
  shows "drains D [] l (upd_dev d f l)"
  using assms by (auto simp: upd_dev_def drains_def moved_def src_queue_def dev_within_def split: option.split)

lemma cur_tx_upd_dev [simp]: "cur_tx (upd_dev d f l) = cur_tx l"
  by (simp add: upd_dev_def split: option.split)

lemma bh_wake_drains:
  assumes "devs l d = Some v"
  shows "drains D [] l (bh_wake d v l)"
proof -
  have "drains D [] l (upd_dev d (\<lambda>v. v\<lparr>ld_stopped := False\<rparr>) l)"
    using assms by (intro drains_upd_dev) (auto simp: dev_within_def)
  then show ?thesis by (simp add: bh_wake_def Let_def split: option.split)
qed

lemma bh_wake_cur_tx [simp]: "cur_tx (bh_wake d v l) = cur_tx l"
  by (simp add: bh_wake_def Let_def split: option.split)

lemma bh_wake_queue [simp]: "bh_wake d (v\<lparr>ld_tx_queue := q\<rparr>) = bh_wake d v"
  by (rule ext) (simp add: bh_wake_def Let_def)

text \<open>The head \<open>skb\<close> of the queue of \<open>d\<close> is tried.\<close>

lemma drains_dev_frame:
  assumes v: "devs l d = Some v" "ld_tx_queue v = skb # q"
    and t: "wplip_data_tx_down E skb (upd_dev d (\<lambda>v. v\<lparr>ld_tx_queue := q\<rparr>) l) = (err, l1)"
  shows "err = 0 \<Longrightarrow> drains D [(Some d, skb)] l l1"
    and "err \<noteq> 0 \<Longrightarrow> drains D [] l (upd_dev d (\<lambda>v. v\<lparr>ld_tx_queue := skb # ld_tx_queue v\<rparr>) l1)"
    and "cur_tx l1 = cur_tx l" "devs l1 = (devs l)(d \<mapsto> v\<lparr>ld_tx_queue := q\<rparr>)"
    "tq_working l1 = tq_working l" "task_scheduled l1 = task_scheduled l"
proof -
  let ?l = "l\<lparr>devs := (devs l)(d \<mapsto> v\<lparr>ld_tx_queue := q\<rparr>)\<rparr>"
  have t: "wplip_data_tx_down E skb ?l = (err, l1)" using t v(1) by (simp add: upd_dev_def)
  note g = data_tx_down_queues [of E skb ?l, unfolded t] data_tx_down_same [of E skb ?l, unfolded t]
  show c: "cur_tx l1 = cur_tx l" "devs l1 = (devs l)(d \<mapsto> v\<lparr>ld_tx_queue := q\<rparr>)"
    "tq_working l1 = tq_working l" "task_scheduled l1 = task_scheduled l"
    using g by simp_all
  have s: "src_queue l s = (if s = Some d then skb # src_queue l1 s else src_queue l1 s)" for s
    using v g by (cases s) (auto simp: src_queue_def)
  show "drains D [(Some d, skb)] l l1" if "err = 0"
    using that g v by (auto simp: drains_def moved_def s dev_within_def)
  show "drains D [] l (upd_dev d (\<lambda>v. v\<lparr>ld_tx_queue := skb # ld_tx_queue v\<rparr>) l1)" if "err \<noteq> 0"
  proof -
    have "src_queue (upd_dev d (\<lambda>v. v\<lparr>ld_tx_queue := skb # ld_tx_queue v\<rparr>) l1) s = src_queue l s" for s
      using v g by (cases s) (auto simp: src_queue_def upd_dev_def)
    then show ?thesis
      using that g v by (auto simp: drains_def moved_def dev_within_def upd_dev_def)
  qed
qed

section \<open>The bottom half above a protocol\<close>

context lip_protocol
begin

lemma prot_kick_extends:
  assumes "devs l d \<noteq> None"
  shows "extends_link D l (snd (wplip_prot_kick E d l))"
proof -
  have "extends_link D l (f l d)" if "prot_entry E n = Inr i" "pi_bh i = Some f" for n i f
  proof -
    from that(1) have "prot_ops E n = Some i"
      by (auto simp: prot_entry_def split: if_splits option.splits)
    from extends_callbacks [OF bh_calls [OF this that(2)]] show ?thesis .
  qed
  with assms show ?thesis
    by (auto simp: wplip_prot_kick_def split: option.split sum.split)
qed

text \<open>What follows an accepted frame: the sender and the protocol are woken.\<close>

lemma bh_dev_woken:
  assumes "devs l d = Some v"
  shows "drains D [] l (snd (wplip_prot_kick E d (bh_wake d v l)))"
    and "cur_tx (snd (wplip_prot_kick E d (bh_wake d v l))) = cur_tx l"
proof -
  note w = bh_wake_drains [where D = D, OF assms]
  have "devs (bh_wake d v l) d \<noteq> None" using drains_dev [OF w assms] by auto
  note k = prot_kick_extends [OF this]
  show "drains D [] l (snd (wplip_prot_kick E d (bh_wake d v l)))"
    using drains_trans [OF w drains_extends [OF k]] by simp
  show "cur_tx (snd (wplip_prot_kick E d (bh_wake d v l))) = cur_tx l"
    using extends_same(5) [OF k] by simp
qed

lemma bh_dev_drains:
  assumes "devs l d = Some v"
  shows "\<exists>log. drains D log l (snd (bh_dev E d l)) \<and> cur_tx (snd (bh_dev E d l)) = cur_tx l"
proof (cases "ld_unregister v")
  case True
  with assms show ?thesis by (intro exI [of _ "[]"]) (simp add: bh_dev_def)
next
  case False
  show ?thesis
  proof (cases "ld_tx_queue v")
    case Nil
    with False assms bh_dev_woken [OF assms] show ?thesis
      by (intro exI [of _ "[]"]) (simp add: bh_dev_def Let_def)
  next
    case (Cons skb q)
    obtain err l1 where t: "wplip_data_tx_down E skb (upd_dev d (\<lambda>v. v\<lparr>ld_tx_queue := q\<rparr>) l) = (err, l1)"
      by (cases "wplip_data_tx_down E skb (upd_dev d (\<lambda>v. v\<lparr>ld_tx_queue := q\<rparr>) l)")
    note f = drains_dev_frame [OF assms Cons t]
    show ?thesis
    proof (cases "err = 0")
      case True
      have "devs l1 d = Some (v\<lparr>ld_tx_queue := q\<rparr>)" using f(4) by simp
      from bh_dev_woken [OF this] have
        "drains D [] l1 (snd (wplip_prot_kick E d (bh_wake d v l1)))"
        "cur_tx (snd (wplip_prot_kick E d (bh_wake d v l1))) = cur_tx l1"
        by simp_all
      with drains_trans [OF f(1)] f(3) True False assms Cons t show ?thesis
        by (intro exI [of _ "[(Some d, skb)] @ []"]) (simp add: bh_dev_def Let_def)
    next
      case False
      with f(2,3) \<open>\<not> ld_unregister v\<close> assms Cons t show ?thesis
        by (intro exI [of _ "[]"]) (simp add: bh_dev_def Let_def)
    qed
  qed
qed

lemma bh_devs_walk:
  assumes "distinct (list_head_ifdev l)" "cur_tx l = Some c" "c \<in> set (list_head_ifdev l)"
    "set (list_head_ifdev l) \<subseteq> dom (devs l)" "rotation c (list_head_ifdev l) = pre @ d # rest"
  shows "bh_devs E t0 d l = Some (bh_walk E t0 (d # rest) l)"
  using assms
proof (induction rest arbitrary: l d pre)
  case Nil
  obtain t l1 where r: "read_ticks E l = (t, l1)" by (cases "read_ticks E l")
  then have l1: "l1 = l\<lparr>ticks_read := Suc (ticks_read l)\<rparr>" by (simp add: read_ticks_def)
  have "d \<in> set (list_head_ifdev l)" using Nil(5) set_rotation by (metis in_set_conv_decomp)
  then obtain v where v: "devs l1 d = Some v" using Nil(4) l1 by auto
  obtain go l2 where b: "bh_dev E d l1 = (go, l2)" by (cases "bh_dev E d l1")
  from bh_dev_drains [OF v] obtain log where dr: "drains D log l1 l2" "cur_tx l2 = cur_tx l1"
    using b by auto
  have "list_next d (list_head_ifdev l) = Some c"
    using list_next_rotation [OF Nil(1,3,5)] by simp
  then have "list_next d (list_head_ifdev l2) = cur_tx l2"
    using drains_same(1) [OF dr(1)] dr(2) l1 Nil(2) by simp
  then show ?case by (subst bh_devs.simps) (simp add: r b)
next
  case (Cons n rest)
  obtain t l1 where r: "read_ticks E l = (t, l1)" by (cases "read_ticks E l")
  then have l1: "l1 = l\<lparr>ticks_read := Suc (ticks_read l)\<rparr>" by (simp add: read_ticks_def)
  have "d \<in> set (list_head_ifdev l)" using Cons.prems(5) set_rotation by (metis in_set_conv_decomp)
  then obtain v where v: "devs l1 d = Some v" using Cons.prems(4) l1 by auto
  obtain go l2 where b: "bh_dev E d l1 = (go, l2)" by (cases "bh_dev E d l1")
  from bh_dev_drains [OF v] obtain log where dr: "drains D log l1 l2" "cur_tx l2 = cur_tx l1"
    using b by auto
  note same = drains_same(1,7) [OF dr(1), unfolded l1, simplified]
  have next_d: "list_next d (list_head_ifdev l) = Some n"
    using list_next_rotation [OF Cons.prems(1,3,5)] by simp
  have "n \<noteq> c"
  proof
    assume "n = c"
    obtain a e where ab: "list_head_ifdev l = a @ c # e" "c \<notin> set a"
      using Cons.prems(3) by (metis split_list_first)
    with Cons.prems(5) \<open>n = c\<close> have "c # e @ a = pre @ d # c # rest" by (simp add: rotation_split)
    then have "c \<in> set (e @ a)" by (cases pre) auto
    with ab Cons.prems(1) show False by auto
  qed
  then have next2: "list_next d (list_head_ifdev l2) = Some n" "Some n \<noteq> cur_tx l2"
    using same next_d dr(2) l1 Cons.prems(2) by simp_all
  have "bh_devs E t0 n l2 = Some (bh_walk E t0 (n # rest) l2)"
    using Cons.prems dr(2) l1 same by (intro Cons.IH [of l2 "pre @ [d]"]) simp_all
  with next2 show ?case by (subst bh_devs.simps) (simp add: r b)
qed

end

end
