(* ===== verification/Lip_Pass.thy ===== *)
theory Lip_Pass
  imports Lip_Protocol
begin

text \<open>
  A run of the bottom half as a whole: the invariant of a link, \<open>lip_ok\<close>, the loops as
  recursions that end, and what the run leaves of the queues.
\<close>

section \<open>The invariant of a link\<close>

definition dev_ok :: "lip_dev \<Rightarrow> bool" where
  "dev_ok v \<longleftrightarrow> ld_max_mtu_sz v \<le> ld_max_mtu_sz_orig v \<and>
     length (ld_tx_queue v) \<le> unat (ld_max_mtu_sz_orig v)"

definition lip_ok :: "('p \<Rightarrow> nat set) \<Rightarrow> ('p, 'h) lip_link \<Rightarrow> bool" where
  "lip_ok D l \<longleftrightarrow>
     distinct (list_head_ifdev l) \<and> set (list_head_ifdev l) \<subseteq> dom (devs l) \<and>
     D (prot l) \<subseteq> dom (devs l) \<and> set_option (cur_tx l) \<subseteq> set (list_head_ifdev l) \<and>
     \<not> lip_fault l \<and> length (rx_queue l) \<le> Suc MAX_RX_Q \<and> length (tx_queue l) \<le> MAX_TX_BUF \<and>
     dev_cnt l = of_nat (length (list_head_ifdev l)) \<and>
     tx_dev_cnt l = of_nat (length (list_head_tx_ifdev l)) \<and>
     (\<forall>d v. devs l d = Some v \<longrightarrow> dev_ok v)"

lemma dev_ok_within: "dev_ok v \<Longrightarrow> dev_within v w \<Longrightarrow> dev_ok w"
  unfolding dev_ok_def dev_within_def word_le_nat_alt by (elim conjE) simp

lemma dev_ok_extends: "dev_ok v \<Longrightarrow> extends_dev v w \<Longrightarrow> dev_ok w"
  unfolding dev_ok_def extends_dev_def word_le_nat_alt by (elim conjE disjE) simp_all

lemma lip_ok_drains:
  assumes "lip_ok D l" "drains D log l m" "set_option (cur_tx m) \<subseteq> set (list_head_ifdev m)"
  shows "lip_ok D m"
proof -
  have "dev_ok w" if "devs m d = Some w" for d w
  proof -
    from that drains_same(7) [OF assms(2)] obtain v where v: "devs l d = Some v" by blast
    with drains_dev [OF assms(2) v] that have "dev_within v w" by auto
    moreover have "dev_ok v" using assms(1) v by (simp add: lip_ok_def)
    ultimately show ?thesis by (rule dev_ok_within [rotated])
  qed
  moreover have "D (prot m) \<subseteq> dom (devs m)" "\<not> lip_fault m"
    using assms(1) drains_same(7,8) [OF assms(2)] drains_no_fault [OF assms(2)] by (auto simp: lip_ok_def)
  moreover have "length (tx_queue m) \<le> MAX_TX_BUF"
    using assms(1) drains_tx [OF assms(2)] by (simp add: lip_ok_def)
  ultimately show ?thesis
    using assms(1,3) drains_same(1-7) [OF assms(2)] by (simp add: lip_ok_def)
qed

lemma lip_ok_extends: "lip_ok D l \<Longrightarrow> extends_link D l m \<Longrightarrow> lip_ok D m"
  using lip_ok_drains [OF _ drains_extends] extends_same(1,5) by (metis lip_ok_def)

text \<open>Fields the invariant does not look at.\<close>

lemma lip_ok_update [simp]:
  "lip_ok D (m\<lparr>tq_working := f\<rparr>) = lip_ok D m"
  "lip_ok D (m\<lparr>ticks_read := n\<rparr>) = lip_ok D m"
  "lip_ok D (m\<lparr>task_scheduled := t\<rparr>) = lip_ok D m"
  "lip_ok D (m\<lparr>events := es\<rparr>) = lip_ok D m"
  "lip_ok D (m\<lparr>carrier_state := st\<rparr>) = lip_ok D m"
  "lip_ok D (m\<lparr>lk_state := st\<rparr>) = lip_ok D m"
  "lip_ok D (m\<lparr>latency_qlen := q\<rparr>) = lip_ok D m"
  by (simp_all add: lip_ok_def)

lemma moved_update [simp]:
  "moved log (l\<lparr>tq_working := f\<rparr>) m = moved log l m"
  "moved log (l\<lparr>task_scheduled := t\<rparr>) m = moved log l m"
  "moved log (l\<lparr>rx_queue := q\<rparr>) m = moved log l m"
  "moved log l (m\<lparr>tq_working := f\<rparr>) = moved log l m"
  "moved log l (m\<lparr>task_scheduled := t\<rparr>) = moved log l m"
  by (simp_all add: moved_def src_queue_def cong: option.case_cong)

lemma trigger_ok [simp]:
  "lip_ok D (snd (wplip_trigger_bh l)) = lip_ok D l"
  "moved log l (snd (wplip_trigger_bh m)) = moved log l m"
  "rx_queue (snd (wplip_trigger_bh l)) = rx_queue l"
  by (simp_all add: wplip_trigger_bh_def)

section \<open>The loops\<close>

text \<open>The received frames, each given to the protocol.\<close>

definition bh_rx1 :: "('p, 'h) lip_env \<Rightarrow> ('p, 'h) lip_link \<Rightarrow> ('p, 'h) lip_link" where
  "bh_rx1 E l = snd (wplip_prot_rx E (hd (rx_queue l)) (l\<lparr>rx_queue := tl (rx_queue l)\<rparr>))"

definition bh_start :: "('p, 'h) lip_link \<Rightarrow> nat" where
  "bh_start l = (case cur_tx l of Some d \<Rightarrow> d | None \<Rightarrow> hd (list_head_ifdev l))"

text \<open>The transmission without its loops.\<close>

definition bh_pass :: "('p, 'h) lip_env \<Rightarrow> ('p, 'h) lip_link \<Rightarrow> bool \<times> ('p, 'h) lip_link" where
  "bh_pass E l =
     (let (t0, l) = read_ticks E l in
      if wan_test_bit WPLIP_BH_AWAITING_KICK l \<and> \<not> wan_test_bit WPLIP_KICK l then (False, l)
      else
        let l = wan_clear_bit WPLIP_MORE_LINK_TX
                  (wan_clear_bit WPLIP_BH_AWAITING_KICK (wan_clear_bit WPLIP_KICK l));
            (go, l) = bh_link_queue E t0 l
        in bh_exit (if go \<and> list_head_ifdev l \<noteq> []
                    then bh_walk E t0 (rotation (bh_start l) (list_head_ifdev l)) (l\<lparr>cur_tx := Some (bh_start l)\<rparr>)
                    else l))"

text \<open>The link when the loops begin.\<close>

definition bh_begin :: "('p, 'h) lip_link \<Rightarrow> ('p, 'h) lip_link" where
  "bh_begin l = wan_clear_bit WPLIP_MORE_LINK_TX (wan_clear_bit WPLIP_BH_AWAITING_KICK
     (wan_clear_bit WPLIP_KICK (l\<lparr>ticks_read := Suc (ticks_read l)\<rparr>)))"

lemma bh_begin_same [simp]:
  "tx_queue (bh_begin l) = tx_queue l" "devs (bh_begin l) = devs l" "wire (bh_begin l) = wire l"
  "list_head_ifdev (bh_begin l) = list_head_ifdev l" "cur_tx (bh_begin l) = cur_tx l"
  "ticks_read (bh_begin l) = Suc (ticks_read l)" "drains D log (bh_begin l) m = drains D log l m"
  "tq_working (bh_begin l) = tq_working l - {WPLIP_KICK, WPLIP_BH_AWAITING_KICK, WPLIP_MORE_LINK_TX}"
  by (auto simp: bh_begin_def)

lemma bh_pass_run:
  assumes "\<not> wan_test_bit WPLIP_BH_AWAITING_KICK l \<or> wan_test_bit WPLIP_KICK l"
    and "bh_link_queue E (system_ticks E (ticks_read l)) (bh_begin l) = (go, m)"
  shows "bh_pass E l =
    bh_exit (if go \<and> list_head_ifdev m \<noteq> []
             then bh_walk E (system_ticks E (ticks_read l)) (rotation (bh_start m) (list_head_ifdev m))
                    (m\<lparr>cur_tx := Some (bh_start m)\<rparr>)
             else m)"
  using assms by (auto simp: bh_pass_def read_ticks_def bh_begin_def)

lemma bh_pass_wait:
  "wan_test_bit WPLIP_BH_AWAITING_KICK l \<Longrightarrow> \<not> wan_test_bit WPLIP_KICK l \<Longrightarrow>
    bh_pass E l = (False, l\<lparr>ticks_read := Suc (ticks_read l)\<rparr>)"
  by (simp add: bh_pass_def read_ticks_def)

lemma bh_link_queue_cur_tx [simp]: "cur_tx (snd (bh_link_queue E t0 l)) = cur_tx l"
proof (induction E t0 l rule: bh_link_queue.induct)
  case (1 E t0 l)
  show ?case
  proof (cases "tx_queue l")
    case Nil
    then show ?thesis by (simp add: bh_link_queue.simps [of E t0 l])
  next
    case (Cons skb q)
    obtain err l1 where d: "wplip_data_tx_down E skb (l\<lparr>tx_queue := q\<rparr>) = (err, l1)"
      by (cases "wplip_data_tx_down E skb (l\<lparr>tx_queue := q\<rparr>)")
    obtain t l2 where r: "read_ticks E l1 = (t, l2)" by (cases "read_ticks E l1")
    have c: "cur_tx l1 = cur_tx l" "cur_tx l2 = cur_tx l1"
      using data_tx_down_queues(5) [of E skb "l\<lparr>tx_queue := q\<rparr>"] d r by (simp_all add: read_ticks_def, auto)
    show ?thesis
      using "1.IH" [OF Cons d [symmetric] _ r [symmetric]] c
      by (simp add: bh_link_queue.simps [of E t0 l] Cons d r)
  qed
qed

lemma bh_exit_same [simp]:
  "drains D log l (snd (bh_exit m)) = drains D log l m" "cur_tx (snd (bh_exit m)) = cur_tx m"
  "lip_ok D (snd (bh_exit m)) = lip_ok D m" "moved log l (snd (bh_exit m)) = moved log l m"
  "list_head_ifdev (snd (bh_exit m)) = list_head_ifdev m" "rx_queue (snd (bh_exit m)) = rx_queue m"
  by (simp_all add: bh_exit_def Let_def)

context lip_protocol
begin

lemma bh_walk_drains:
  assumes "set ds \<subseteq> dom (devs l)"
  shows "\<exists>log. drains D log l (bh_walk E t0 ds l) \<and>
    (cur_tx (bh_walk E t0 ds l) = cur_tx l \<or> cur_tx (bh_walk E t0 ds l) \<in> Some ` set ds)"
  using assms
proof (induction ds arbitrary: l)
  case Nil
  show ?case by (intro exI [of _ "[]"]) simp
next
  case (Cons d ds)
  obtain t l1 where r: "read_ticks E l = (t, l1)" by (cases "read_ticks E l")
  then have l1: "l1 = l\<lparr>ticks_read := Suc (ticks_read l)\<rparr>" by (simp add: read_ticks_def)
  obtain v where v: "devs l1 d = Some v" using Cons.prems l1 by auto
  obtain go l2 where b: "bh_dev E d l1 = (go, l2)" by (cases "bh_dev E d l1")
  from bh_dev_drains [OF v] b l1 obtain log where dr: "drains D log l l2" "cur_tx l2 = cur_tx l" by auto
  consider "t - t0 > 10" | "\<not> t - t0 > 10" "\<not> go" | "\<not> t - t0 > 10" go by blast
  then show ?case
  proof cases
    case 1
    with r show ?thesis by (intro exI [of _ "[]"]) (simp add: l1)
  next
    case 2
    with r b dr show ?thesis by (intro exI [of _ log]) simp
  next
    case 3
    have "set ds \<subseteq> dom (devs l2)" using Cons.prems drains_same(7) [OF dr(1)] by simp
    from Cons.IH [OF this] obtain log' where
      "drains D log' l2 (bh_walk E t0 ds l2)"
      "cur_tx (bh_walk E t0 ds l2) = cur_tx l2 \<or> cur_tx (bh_walk E t0 ds l2) \<in> Some ` set ds"
      by blast
    with 3 r b dr(2) drains_trans [OF dr(1)] show ?thesis by auto
  qed
qed

lemma bh_transmit_pass:
  assumes "lip_ok D l"
  shows "wplip_bh_transmit E l = Some (bh_pass E l)"
proof -
  define l1 where "l1 = l\<lparr>ticks_read := Suc (ticks_read l)\<rparr>"
  define t0 where "t0 = system_ticks E (ticks_read l)"
  define l2 where "l2 = wan_clear_bit WPLIP_MORE_LINK_TX
                  (wan_clear_bit WPLIP_BH_AWAITING_KICK (wan_clear_bit WPLIP_KICK l1))"
  obtain go l3 where q: "bh_link_queue E t0 l2 = (go, l3)" by (cases "bh_link_queue E t0 l2")
  from bh_link_queue_drains [of D l2 E t0] q obtain log where dr: "drains D log l l3"
    by (auto simp: l1_def l2_def)
  have "cur_tx l3 = cur_tx l2" using bh_link_queue_cur_tx [of E t0 l2] unfolding q by simp
  then have c: "cur_tx l3 = cur_tx l" by (simp add: l1_def l2_def)
  have ok: "lip_ok D l3"
    using lip_ok_drains [OF assms dr] assms c drains_same(1) [OF dr] by (simp add: lip_ok_def)
  let ?c = "bh_start l3"
  let ?m = "l3\<lparr>cur_tx := Some ?c\<rparr>"
  have walk: "bh_devs E t0 ?c ?m = Some (bh_walk E t0 (rotation ?c (list_head_ifdev l3)) ?m)"
    if "list_head_ifdev l3 \<noteq> []"
  proof -
    have s: "?c \<in> set (list_head_ifdev l3)"
      using ok that by (auto simp: bh_start_def lip_ok_def split: option.splits)
    obtain rest where "rotation ?c (list_head_ifdev l3) = ?c # rest"
    proof -
      from s obtain a b where "list_head_ifdev l3 = a @ ?c # b" "?c \<notin> set a" by (metis split_list_first)
      then show ?thesis using that rotation_split by metis
    qed
    then show ?thesis
      using ok s bh_devs_walk [of ?m ?c "[]" ?c rest t0] by (simp add: lip_ok_def)
  qed
  let ?wait = "wan_test_bit WPLIP_BH_AWAITING_KICK l1 \<and> \<not> wan_test_bit WPLIP_KICK l1"
  have tr: "wplip_bh_transmit E l =
      (if ?wait then Some (False, l1)
       else if \<not> go then Some (bh_exit l3)
       else case cur_tx l3 of
          Some d \<Rightarrow>
            if devs l3 d = None then Some (bh_exit (l3\<lparr>lip_fault := True\<rparr>))
            else bh_devs E t0 d l3 \<bind> (\<lambda>l. Some (bh_exit l))
        | None \<Rightarrow>
            (case list_head_ifdev l3 of
               [] \<Rightarrow> Some (bh_exit l3)
             | d # _ \<Rightarrow> bh_devs E t0 d (l3\<lparr>cur_tx := Some d\<rparr>) \<bind> (\<lambda>l. Some (bh_exit l))))"
    unfolding wplip_bh_transmit_def read_ticks_def Let_def prod.case l1_def [symmetric]
      t0_def [symmetric] l2_def [symmetric] q by (rule refl)
  have pass: "bh_pass E l =
      (if ?wait then (False, l1)
       else bh_exit (if go \<and> list_head_ifdev l3 \<noteq> []
                     then bh_walk E t0 (rotation ?c (list_head_ifdev l3)) ?m else l3))"
    unfolding bh_pass_def read_ticks_def Let_def prod.case l1_def [symmetric]
      t0_def [symmetric] l2_def [symmetric] q by (rule refl)
  show ?thesis
  proof (cases "cur_tx l3")
    case None
    then show ?thesis
      using walk by (auto simp: tr pass bh_start_def neq_Nil_conv split: list.split)
  next
    case (Some d)
    then have "d \<in> set (list_head_ifdev l3)" "devs l3 d \<noteq> None" using ok by (auto simp: lip_ok_def)
    then have ne: "list_head_ifdev l3 \<noteq> []" "devs l3 d \<noteq> None" by auto
    have eq: "l3\<lparr>cur_tx := Some d\<rparr> = l3" using Some by simp
    from walk [OF ne(1)] have "bh_devs E t0 d l3 = Some (bh_walk E t0 (rotation d (list_head_ifdev l3)) l3)"
      by (simp only: bh_start_def Some option.case eq)
    with ne show ?thesis by (auto simp: tr pass bh_start_def Some eq)
  qed
qed

lemma bh_pass_drains:
  assumes "lip_ok D l"
  shows "\<exists>log. moved log l (snd (bh_pass E l))" "lip_ok D (snd (bh_pass E l))"
    "rx_queue (snd (bh_pass E l)) = rx_queue l"
proof -
  define l1 where "l1 = l\<lparr>ticks_read := Suc (ticks_read l)\<rparr>"
  define t0 where "t0 = system_ticks E (ticks_read l)"
  define l2 where "l2 = wan_clear_bit WPLIP_MORE_LINK_TX
                  (wan_clear_bit WPLIP_BH_AWAITING_KICK (wan_clear_bit WPLIP_KICK l1))"
  obtain go l3 where q: "bh_link_queue E t0 l2 = (go, l3)" by (cases "bh_link_queue E t0 l2")
  from bh_link_queue_drains [of D l2 E t0] q obtain log where dr: "drains D log l l3"
    by (auto simp: l1_def l2_def)
  have "cur_tx l3 = cur_tx l2" using bh_link_queue_cur_tx [of E t0 l2] unfolding q by simp
  then have c: "cur_tx l3 = cur_tx l" by (simp add: l1_def l2_def)
  have ok: "lip_ok D l3"
    using lip_ok_drains [OF assms dr] assms c drains_same(1) [OF dr] by (simp add: lip_ok_def)
  let ?c = "bh_start l3"
  let ?m = "l3\<lparr>cur_tx := Some ?c\<rparr>"
  let ?w = "bh_walk E t0 (rotation ?c (list_head_ifdev l3)) ?m"
  have pass: "bh_pass E l =
      (if wan_test_bit WPLIP_BH_AWAITING_KICK l1 \<and> \<not> wan_test_bit WPLIP_KICK l1 then (False, l1)
       else bh_exit (if go \<and> list_head_ifdev l3 \<noteq> [] then ?w else l3))"
    unfolding bh_pass_def read_ticks_def Let_def prod.case l1_def [symmetric]
      t0_def [symmetric] l2_def [symmetric] q by (rule refl)
  have w: "\<exists>log. drains D log l ?w \<and> lip_ok D ?w" if "list_head_ifdev l3 \<noteq> []"
  proof -
    have s: "?c \<in> set (list_head_ifdev l3)"
      using ok that by (auto simp: bh_start_def lip_ok_def split: option.splits)
    have "set (rotation ?c (list_head_ifdev l3)) \<subseteq> dom (devs ?m)" using ok by (simp add: lip_ok_def)
    from bh_walk_drains [OF this, of t0] obtain log' where w: "drains D log' l3 ?w"
      "cur_tx ?w = Some ?c \<or> cur_tx ?w \<in> Some ` set (list_head_ifdev l3)" by auto
    have "lip_ok D ?w"
      using lip_ok_drains [OF ok w(1)] w(2) s drains_same(1) [OF w(1)] by auto
    with drains_trans [OF dr w(1)] show ?thesis by blast
  qed
  have "lip_ok D l1" "moved [] l l1"
    using assms drains_moved [of D "[]" l l1] by (simp_all add: l1_def)
  with w dr ok show "\<exists>log. moved log l (snd (bh_pass E l))" "lip_ok D (snd (bh_pass E l))"
    by (auto simp: pass dest: drains_moved)
  show "rx_queue (snd (bh_pass E l)) = rx_queue l"
    using w dr by (auto simp: pass l1_def dest: drains_same(5))
qed

lemma prot_rx_extends: "extends_link D l (snd (wplip_prot_rx E skb l))"
proof -
  have "extends_link D l (snd (f l skb))" if "prot_entry E n = Inr i" "pi_rx i = Some f" for n i f
  proof -
    from that(1) have "prot_ops E n = Some i"
      by (auto simp: prot_entry_def split: if_splits option.splits)
    from extends_callbacks [OF rx_calls [OF this that(2)]] show ?thesis .
  qed
  then show ?thesis by (auto simp: wplip_prot_rx_def split: option.split sum.split)
qed

lemma bh_receive_run:
  assumes "lip_ok D l"
  shows "\<exists>m. wplip_bh_receive E l = Some m \<and> m = (bh_rx1 E ^^ length (rx_queue l)) l \<and>
    rx_queue m = [] \<and> lip_ok D m \<and> moved [] l m \<and> tq_working m = tq_working l"
  using assms
proof (induction "length (rx_queue l)" arbitrary: l)
  case 0
  then show ?case
    using drains_moved [OF drains_refl] by (subst wplip_bh_receive.simps) simp
next
  case (Suc n)
  then obtain skb q where sq: "rx_queue l = skb # q" by (cases "rx_queue l") auto
  let ?l = "l\<lparr>rx_queue := q\<rparr>"
  have e: "extends_link D ?l (bh_rx1 E l)" using prot_rx_extends sq by (simp add: bh_rx1_def)
  have ok: "lip_ok D ?l" using Suc.prems sq by (simp add: lip_ok_def)
  note ok1 = lip_ok_extends [OF ok e]
  have "n = length (rx_queue (bh_rx1 E l))" using extends_same(6) [OF e] Suc(2) sq by simp
  from Suc(1) [OF this ok1] obtain m where m: "wplip_bh_receive E (bh_rx1 E l) = Some m"
    "m = (bh_rx1 E ^^ n) (bh_rx1 E l)" "rx_queue m = []" "lip_ok D m" "moved [] (bh_rx1 E l) m"
    "tq_working m = tq_working (bh_rx1 E l)"
    using \<open>n = _\<close> by blast
  have "moved ([] @ []) l m"
    using moved_trans [OF drains_moved [OF drains_extends [OF e]] m(5)] by simp
  moreover have "wplip_bh_receive E l = Some m"
    using m(1) by (subst wplip_bh_receive.simps) (simp add: sq bh_rx1_def)
  moreover have "(bh_rx1 E ^^ length (rx_queue l)) l = m"
    using m(2) Suc(2) by (metis funpow_Suc_right comp_apply)
  ultimately show ?case using m extends_same(7) [OF e] by simp
qed

end

end
