(* ===== verification/Lip_Reg.thy ===== *)
theory Lip_Reg
  imports Lip_Pass
begin

text \<open>
  Links and devices come and go: wanpipe_lip_sub.c and the registration calls of
  wanpipe_lip_iface.c and wanpipe_lip_prot.c. The removal of a device is in two parts, as
  the bottom half may run between them: the code releases \<open>bh_lock\<close> after it has cleared
  \<open>cur_tx\<close> and before it takes the device off the list. \<open>lip_step\<close> is one call on a link,
  whoever makes it.
\<close>

section \<open>Links\<close>

definition zero_link :: "string \<Rightarrow> int \<Rightarrow> 'p \<Rightarrow> 'h \<Rightarrow> ('p, 'h) lip_link" where
  "zero_link name n p h =
     \<lparr>lk_name = name, list_head_ifdev = [], devs = (\<lambda>_. None), dev_cnt = 0, list_head_tx_ifdev = [],
      tx_dev_cnt = 0, lk_state = WAN_DISCONNECTED, carrier_state = WAN_UNCONFIGURED,
      prot_state = WAN_UNCONFIGURED, prot = p, lk_protocol = 0, lk_registered = False,
      link_num = n, tq_working = {}, tx_queue = [], rx_queue = [], cur_tx = None,
      latency_qlen = 0, task_scheduled = False, lower = h, low_qlen = (\<lambda>_. 0), wire = [],
      ticks_read = 0, events = [], lip_fault = False\<rparr>"

text \<open>The first free number of \<open>wplip_link_num\<close>, and the table with it taken.\<close>

fun take_link_num :: "bool list \<Rightarrow> (nat \<times> bool list) option" where
  "take_link_num [] = None"
| "take_link_num (b # bs) =
     (if \<not> b then Some (0, True # bs)
      else map_option (\<lambda>(n, bs). (Suc n, b # bs)) (take_link_num bs))"

definition wplip_create_link ::
  "bool \<Rightarrow> string \<Rightarrow> 'p \<Rightarrow> 'h \<Rightarrow> bool list \<Rightarrow> (('p, 'h) lip_link \<times> bool list) option" where
  "wplip_create_link mem devname p h nums =
     (if \<not> mem then None
      else map_option (\<lambda>(n, nums). (zero_link devname (int n) p h, nums)) (take_link_num nums))"

definition wplip_free_link_num :: "int \<Rightarrow> bool list \<Rightarrow> bool list" where
  "wplip_free_link_num n nums = (if n \<noteq> -1 then nums[nat n := False] else nums)"

text \<open>
  \<open>reg\<close> is the answer of \<open>prot_link_register\<close>, a protocol object or null, behind the
  tests of \<open>wplip_reg_link_prot\<close>; without a configuration no protocol is registered.
\<close>

definition wplip_reg_link_prot ::
  "('p, 'h) lip_env \<Rightarrow> nat \<Rightarrow> 'p option \<Rightarrow> ('p, 'h) lip_link \<Rightarrow> int \<times> ('p, 'h) lip_link" where
  "wplip_reg_link_prot E protocol reg l =
     (let l1 = l\<lparr>lk_protocol := protocol\<rparr> in
      case prot_entry E protocol of
        Inl e \<Rightarrow> (e, l1)
      | Inr _ \<Rightarrow> (case reg of None \<Rightarrow> (- EINVAL, l1) | Some p \<Rightarrow> (0, l1\<lparr>prot := p\<rparr>)))"

definition wplip_register ::
  "('p, 'h) lip_env \<Rightarrow> bool \<Rightarrow> string \<Rightarrow> (nat \<times> 'p option) option \<Rightarrow> 'p \<Rightarrow> 'h \<Rightarrow> bool list \<Rightarrow>
     int \<times> ('p, 'h) lip_link option \<times> bool list" where
  "wplip_register E mem devname conf p h nums =
     (case wplip_create_link mem devname p h nums of
        None \<Rightarrow> (- ENOMEM, None, nums)
      | Some (l, nums1) \<Rightarrow>
          let (err, l1) = (case conf of
                None \<Rightarrow> (0, l) | Some (protocol, reg) \<Rightarrow> wplip_reg_link_prot E protocol reg l)
          in if err \<noteq> 0 then (err, None, wplip_free_link_num (link_num l) nums1)
             else (0, Some (l1\<lparr>lk_registered := True, lk_state := WAN_DISCONNECTED,
                     carrier_state := WAN_DISCONNECTED, latency_qlen := 100\<rparr>), nums1))"

section \<open>Devices\<close>

text \<open>What the configuration of an interface says, and its device as the kernel made it.\<close>

record if_conf =
  cf_name :: string
  cf_usedby :: "lip_usage option"
  cf_protocol :: nat
  cf_up :: bool
  cf_qlen :: u64
  cf_up_lip :: "nat option"

definition zero_if_stats :: if_stats where
  "zero_if_stats = \<lparr>tx_packets = 0, tx_errors = 0, tx_carrier_errors = 0, rx_packets = 0,
     rx_errors = 0, rx_dropped = 0\<rparr>"

definition wplip_create_lipdev :: "lip_usage \<Rightarrow> if_conf \<Rightarrow> lip_dev" where
  "wplip_create_lipdev usedby c =
     \<lparr>ld_name = cf_name c, ld_tx_queue = [], ld_unregister = False, ld_ready = False,
      ld_if_down = False, ld_usedby = usedby, ld_up_lip = cf_up_lip c,
      ld_state = WAN_DISCONNECTED, ld_protocol = cf_protocol c, ld_prot = False, ld_attached = True,
      ld_stopped = False, ld_carrier = False, ld_up = cf_up c, ld_qlen = cf_qlen c,
      ld_max_mtu_sz = of_nat MAX_TX_BUF, ld_max_mtu_sz_orig = of_nat MAX_TX_BUF,
      ld_stats = zero_if_stats\<rparr>"

definition wplip_lipdev_exists :: "string \<Rightarrow> ('p, 'h) lip_link \<Rightarrow> bool" where
  "wplip_lipdev_exists name l \<longleftrightarrow>
     (\<exists>d \<in> set (list_head_ifdev l). case devs l d of Some v \<Rightarrow> ld_name v = name | None \<Rightarrow> False)"

definition wplip_insert_lipdev :: "nat \<Rightarrow> ('p, 'h) lip_link \<Rightarrow> ('p, 'h) lip_link" where
  "wplip_insert_lipdev d l =
     l\<lparr>list_head_ifdev := d # list_head_ifdev l, dev_cnt := dev_cnt l + 1\<rparr>"

definition wplip_remove_lipdev :: "nat \<Rightarrow> ('p, 'h) lip_link \<Rightarrow> ('p, 'h) lip_link" where
  "wplip_remove_lipdev d l =
     l\<lparr>list_head_ifdev := remove1 d (list_head_ifdev l), dev_cnt := dev_cnt l - 1\<rparr>"

definition wplip_free_lipdev :: "nat \<Rightarrow> ('p, 'h) lip_link \<Rightarrow> ('p, 'h) lip_link" where
  "wplip_free_lipdev d l = l\<lparr>devs := (devs l)(d := None)\<rparr>"

definition wplip_reg_lipdev_prot ::
  "('p, 'h) lip_env \<Rightarrow> nat \<Rightarrow> lip_dev \<Rightarrow> ('p, 'h) lip_link \<Rightarrow> int \<times> ('p, 'h) lip_link" where
  "wplip_reg_lipdev_prot E d v l =
     (if ld_protocol v \<ge> MAX_LIP_PROTOCOLS \<or> ld_protocol v \<noteq> lk_protocol l then (- EINVAL, l)
      else case prot_entry E (ld_protocol v) of
        Inl e \<Rightarrow> (e, l)
      | Inr i \<Rightarrow>
          (case pi_chan_register i of
             None \<Rightarrow> (- EFAULT, l)
           | Some r \<Rightarrow>
               (case r (prot l) d (ld_name v) (ld_usedby v = API) of
                  None \<Rightarrow> (- EINVAL, l)
                | Some p \<Rightarrow> (0, upd_dev d (\<lambda>v. v\<lparr>ld_prot := True\<rparr>) (l\<lparr>prot := p\<rparr>)))))"

definition wplip_open_lipdev_prot ::
  "('p, 'h) lip_env \<Rightarrow> nat \<Rightarrow> lip_dev \<Rightarrow> ('p, 'h) lip_link \<Rightarrow> int \<times> ('p, 'h) lip_link" where
  "wplip_open_lipdev_prot E d v l =
     (case prot_entry E (ld_protocol v) of
        Inl e \<Rightarrow> (e, l)
      | Inr i \<Rightarrow> (case pi_open i of None \<Rightarrow> (- EFAULT, l) | Some f \<Rightarrow> f l d))"

definition wplip_close_lipdev_prot ::
  "('p, 'h) lip_env \<Rightarrow> nat \<Rightarrow> lip_dev \<Rightarrow> ('p, 'h) lip_link \<Rightarrow> int \<times> ('p, 'h) lip_link" where
  "wplip_close_lipdev_prot E d v l =
     (case prot_entry E (ld_protocol v) of
        Inl e \<Rightarrow> (e, l)
      | Inr i \<Rightarrow> (case pi_close i of None \<Rightarrow> (- EFAULT, l) | Some f \<Rightarrow> f l d))"

definition wplip_unreg_lipdev_prot ::
  "('p, 'h) lip_env \<Rightarrow> nat \<Rightarrow> lip_dev \<Rightarrow> ('p, 'h) lip_link \<Rightarrow> int \<times> ('p, 'h) lip_link" where
  "wplip_unreg_lipdev_prot E d v l =
     (case prot_entry E (ld_protocol v) of
        Inl e \<Rightarrow> (e, l)
      | Inr i \<Rightarrow>
          (case pi_chan_unregister i of
             None \<Rightarrow> (- EFAULT, l)
           | Some u \<Rightarrow> (0, upd_dev d (\<lambda>v. v\<lparr>ld_prot := False\<rparr>) (l\<lparr>prot := u (prot l) d\<rparr>))))"

text \<open>\<open>d\<close> is the address of the new device and \<open>mem\<close> whether it was created and attached.\<close>

definition wplip_if_reg ::
  "('p, 'h) lip_env \<Rightarrow> bool \<Rightarrow> nat \<Rightarrow> if_conf \<Rightarrow> ('p, 'h) lip_link \<Rightarrow> int \<times> ('p, 'h) lip_link" where
  "wplip_if_reg E mem d c l =
     (if \<not> lk_registered l then (- EINVAL, l)
      else if wplip_lipdev_exists (cf_name c) l then (- EEXIST, l)
      else case cf_usedby c of
        None \<Rightarrow> (- EINVAL, l)
      | Some usedby \<Rightarrow>
          if \<not> mem then (- ENOMEM, l)
          else
            let v = wplip_create_lipdev usedby c;
                l1 = l\<lparr>devs := (devs l)(d \<mapsto> v)\<rparr>;
                (err, l2) = wplip_reg_lipdev_prot E d v l1
            in if err \<noteq> 0 then (err, wplip_free_lipdev d l2)
               else
                 let (err, l3) = wplip_open_lipdev_prot E d v (wplip_insert_lipdev d l2)
                 in if err \<noteq> 0 then (err, wplip_free_lipdev d (wplip_remove_lipdev d l3))
                    else
                      let l4 = l3\<lparr>latency_qlen := ucast (cf_qlen c)\<rparr>
                      in (0, if lk_state l4 = WAN_CONNECTED
                             then snd (wplip_trigger_bh (event (Wake_queue d)
                                    (upd_dev d (\<lambda>v. v\<lparr>ld_carrier := True, ld_stopped := False\<rparr>) l4)))
                             else l4))"

text \<open>
  The removal up to the release of \<open>bh_lock\<close>, and the rest of it; \<open>up_err\<close> is the answer of
  \<open>wplip_unreg\<close> for the link above.
\<close>

definition wplip_if_unreg_begin ::
  "('p, 'h) lip_env \<Rightarrow> int \<Rightarrow> nat \<Rightarrow> ('p, 'h) lip_link \<Rightarrow> int \<times> ('p, 'h) lip_link" where
  "wplip_if_unreg_begin E up_err d l =
     (case devs l d of
        None \<Rightarrow> (- ENODEV, l)
      | Some v \<Rightarrow>
          if ld_up v then (- EBUSY, l)
          else if \<not> lk_registered l then (- ENODEV, l)
          else if ld_up_lip v \<noteq> None \<and> up_err \<noteq> 0 then (up_err, l)
          else
            let l1 = upd_dev d (\<lambda>v. v\<lparr>ld_unregister := True, ld_ready := False\<rparr>) l;
                l2 = snd (wplip_close_lipdev_prot E d v l1)
            in (0, upd_dev d (\<lambda>v. v\<lparr>ld_tx_queue := []\<rparr>) (l2\<lparr>cur_tx := None\<rparr>)))"

definition wplip_if_unreg_end ::
  "('p, 'h) lip_env \<Rightarrow> nat \<Rightarrow> ('p, 'h) lip_link \<Rightarrow> ('p, 'h) lip_link" where
  "wplip_if_unreg_end E d l =
     (case devs l d of
        None \<Rightarrow> l\<lparr>lip_fault := True\<rparr>
      | Some v \<Rightarrow>
          wplip_free_lipdev d (wplip_remove_lipdev d
            (if ld_prot v then snd (wplip_unreg_lipdev_prot E d v l) else l)))"

definition wplip_if_unreg ::
  "('p, 'h) lip_env \<Rightarrow> int \<Rightarrow> nat \<Rightarrow> ('p, 'h) lip_link \<Rightarrow> int \<times> ('p, 'h) lip_link" where
  "wplip_if_unreg E up_err d l =
     (let (err, l1) = wplip_if_unreg_begin E up_err d l
      in if err \<noteq> 0 then (err, l1) else (0, wplip_if_unreg_end E d l1))"

section \<open>Steps\<close>

text \<open>
  A call on a link, each without another in between. A new device is at a fresh address and
  the protocol of the link can register, open and unregister channels; a protocol that
  unregisters a channel forgets the device.
\<close>

inductive lip_step ::
  "('p, 'h) lip_env \<Rightarrow> ('p, 'h) lip_link \<Rightarrow> ('p, 'h) lip_link \<Rightarrow> bool" for E where
  rx: "lip_step E l (snd (wplip_rx skb l))"
| bh: "wplip_link_bh E l = Some m \<Longrightarrow> lip_step E l m"
| send: "lip_step E l (snd (wplip_if_send E d skb ty l))"
| timer: "lip_step E l (wplip_prot_timer E l)"
| kick: "lip_step E l (wplip_kick l)"
| timeout: "d \<in> dom (devs l) \<Longrightarrow> lip_step E l (wplip_tx_timeout d l)"
| connect: "lip_step E l (wplip_connect l)"
| disconnect: "lip_step E l (wplip_disconnect l)"
| bind_dev: "lip_step E l (snd (wplip_bind_link dev common l))"
| unbind_dev: "lip_step E l (snd (wplip_unbind_link dev l))"
| open_dev: "lip_step E l (snd (wplip_open_dev d l))"
| stop_dev: "lip_step E l (snd (wplip_stop_dev d l))"
| if_reg: "d \<notin> dom (devs l) \<Longrightarrow> wplip_if_reg E mem d c l = (0, m) \<Longrightarrow> lip_step E l m"
| if_unreg: "devs l d = Some v \<Longrightarrow> d \<in> set (list_head_ifdev l) \<Longrightarrow> ld_prot v \<Longrightarrow>
    prot_entry E (ld_protocol v) = Inr i \<Longrightarrow> pi_chan_unregister i \<noteq> None \<Longrightarrow>
    wplip_if_unreg E up_err d l = (0, m) \<Longrightarrow> lip_step E l m"

section \<open>The invariant through each call\<close>

lemma lip_ok_upd_dev:
  assumes "lip_ok D l" "d \<in> dom (devs l)" "\<And>v. devs l d = Some v \<Longrightarrow> dev_ok (f v)"
  shows "lip_ok D (upd_dev d f l)"
  using assms by (auto simp: lip_ok_def upd_dev_def split: if_splits)

lemma upd_dev_same [simp]:
  "list_head_ifdev (upd_dev d f l) = list_head_ifdev l" "lk_state (upd_dev d f l) = lk_state l"
  "carrier_state (upd_dev d f l) = carrier_state l" "lk_registered (upd_dev d f l) = lk_registered l"
  by (simp_all add: upd_dev_def split: option.split)

lemma lip_ok_more [simp]:
  "lip_ok D (l\<lparr>lk_registered := b\<rparr>) = lip_ok D l"
  by (simp add: lip_ok_def)

lemma dev_ok_update [simp]:
  "dev_ok (v\<lparr>ld_unregister := b\<rparr>) = dev_ok v" "dev_ok (v\<lparr>ld_ready := b\<rparr>) = dev_ok v"
  "dev_ok (v\<lparr>ld_if_down := b\<rparr>) = dev_ok v" "dev_ok (v\<lparr>ld_stopped := b\<rparr>) = dev_ok v"
  "dev_ok (v\<lparr>ld_carrier := b\<rparr>) = dev_ok v" "dev_ok (v\<lparr>ld_stats := s\<rparr>) = dev_ok v"
  "dev_ok (v\<lparr>ld_prot := b\<rparr>) = dev_ok v"
  by (simp_all add: dev_ok_def)

lemma dev_okD: "lip_ok D l \<Longrightarrow> devs l d = Some v \<Longrightarrow> dev_ok v"
  by (simp add: lip_ok_def)

lemma kick_ok [simp]: "lip_ok D (wplip_kick l) = lip_ok D l"
  by (simp add: wplip_kick_def wplip_kick_trigger_bh_def)

lemma rx_ok: "lip_ok D l \<Longrightarrow> lip_ok D (snd (wplip_rx skb l))"
  by (auto simp: wplip_rx_def, auto simp: lip_ok_def MAX_RX_Q_def)

lemma connect_ok: "lip_ok D l \<Longrightarrow> lip_ok D (wplip_connect l)"
proof -
  assume "lip_ok D l"
  then have "lip_ok D (l\<lparr>tx_queue := [], rx_queue := []\<rparr>)" by (auto simp: lip_ok_def)
  with \<open>lip_ok D l\<close> show ?thesis by (simp add: wplip_connect_def Let_def)
qed

lemma disconnect_ok: "lip_ok D l \<Longrightarrow> lip_ok D (wplip_disconnect l)"
  by (simp add: wplip_disconnect_def Let_def)

lemma bind_ok: "lip_ok D l \<Longrightarrow> lip_ok D (snd (wplip_bind_link dev common l))"
  by (auto simp: wplip_bind_link_def lip_ok_def Let_def)

lemma count_remove1:
  assumes "d \<in> set xs"
  shows "(of_nat (length xs) :: u32) - 1 = of_nat (length (remove1 d xs))"
proof -
  from assms have "length xs = Suc (length (remove1 d xs))" using length_pos_if_in_set [of d xs] by (simp add: length_remove1)
  then show ?thesis by (metis add_diff_cancel_left' of_nat_Suc)
qed

lemma unbind_ok: "lip_ok D l \<Longrightarrow> lip_ok D (snd (wplip_unbind_link dev l))"
  by (auto simp: wplip_unbind_link_def lip_ok_def count_remove1)

lemma latency_ok [simp]: "lip_ok D (snd (wplip_lipdev_latency_change l)) = lip_ok D l"
  by (simp add: wplip_lipdev_latency_change_def Let_def)

lemma unat_u32_in_u64: "unat (ucast (w :: u32) :: u64) = unat w"
proof -
  have "unat w < 2 ^ 64" using unsigned_less [of w, where ?'a = nat] by simp
  then show ?thesis by (simp add: unsigned_ucast_eq take_bit_nat_eq_self)
qed

lemma resize_ok:
  assumes "lip_ok D l" "d \<in> dom (devs l)"
  shows "lip_ok D (resize_latency d l)"
proof -
  from assms(2) obtain v where v: "devs l d = Some v" by blast
  have ok: "dev_ok v" using dev_okD [OF assms(1) v] .
  have "lip_ok D (upd_dev d (\<lambda>v. v\<lparr>ld_max_mtu_sz := ucast (ld_qlen v)\<rparr>) l)"
    if "ld_qlen v < ucast (ld_max_mtu_sz v)"
  proof (rule lip_ok_upd_dev [OF assms])
    fix w assume "devs l d = Some w"
    then have "w = v" using v by simp
    have "unat (ld_qlen v) < unat (ld_max_mtu_sz v)"
      using that by (simp add: word_less_nat_alt unat_u32_in_u64)
    moreover have "unat (ucast (ld_qlen v) :: u32) \<le> unat (ld_qlen v)"
      by (simp add: unsigned_ucast_eq take_bit_nat_less_eq_self)
    ultimately have "unat (ucast (ld_qlen v) :: u32) \<le> unat (ld_max_mtu_sz v)" by simp
    then show "dev_ok (w\<lparr>ld_max_mtu_sz := ucast (ld_qlen w)\<rparr>)"
      using ok \<open>w = v\<close> by (simp add: dev_ok_def word_le_nat_alt)
  qed
  moreover have "lip_ok D (upd_dev d (\<lambda>v. v\<lparr>ld_max_mtu_sz := ld_max_mtu_sz_orig v\<rparr>) l)"
    using dev_okD [OF assms(1)] by (intro lip_ok_upd_dev [OF assms]) (simp add: dev_ok_def)
  ultimately show ?thesis using assms(1) by (auto simp: resize_latency_def v)
qed

lemma timeout_ok:
  assumes "lip_ok D l" "d \<in> dom (devs l)"
  shows "lip_ok D (wplip_tx_timeout d l)"
proof -
  have "lip_ok D (upd_dev d (\<lambda>v. v\<lparr>ld_stopped := False\<rparr>)
      (wplip_kick_trigger_bh (wan_clear_bit WPLIP_BH_AWAITING_KICK l)))"
    using assms dev_okD [OF assms(1)]
    by (intro lip_ok_upd_dev) (auto simp: wplip_kick_trigger_bh_def)
  then show ?thesis by (simp add: wplip_tx_timeout_def Let_def split: option.split)
qed

lemma update_state_ok:
  assumes "lip_ok D l" "d \<in> dom (devs l)"
  shows "lip_ok D (wplip_lipdev_prot_update_state_change d l)"
  using lip_ok_extends [OF assms(1) extends_update_state] assms(2) by (auto simp: dom_def)

lemma open_dev_ok:
  assumes "lip_ok D l"
  shows "lip_ok D (snd (wplip_open_dev d l))"
proof (cases "devs l d")
  case (Some v)
  let ?f = "\<lambda>v. v\<lparr>ld_if_down := False, ld_carrier := (lk_state l = WAN_CONNECTED \<or> ld_carrier v), ld_stopped := False\<rparr>"
  have "lip_ok D (upd_dev d ?f l)"
    using assms Some dev_okD [OF assms] by (intro lip_ok_upd_dev) auto
  then have 1: "lip_ok D (wplip_lipdev_prot_update_state_change d (event (Wake_queue d) (upd_dev d ?f l)))"
    using Some by (intro update_state_ok) auto
  moreover have "d \<in> dom (devs (wplip_lipdev_prot_update_state_change d (event (Wake_queue d) (upd_dev d ?f l))))"
  proof -
    have "devs (event (Wake_queue d) (upd_dev d ?f l)) d \<noteq> None" using Some by (simp add: upd_dev_def)
    from extends_same(12) [OF extends_update_state [where D = "\<lambda>_. {}", OF this]] this show ?thesis by blast
  qed
  ultimately have "lip_ok D (upd_dev d (\<lambda>v. v\<lparr>ld_ready := True\<rparr>)
      (wplip_lipdev_prot_update_state_change d (event (Wake_queue d) (upd_dev d ?f l))))"
    using dev_okD [OF 1] by (intro lip_ok_upd_dev) auto
  with 1 assms show ?thesis by (auto simp: wplip_open_dev_def Some Let_def)
qed (simp add: wplip_open_dev_def assms)

lemma stop_dev_ok: "lip_ok D l \<Longrightarrow> lip_ok D (snd (wplip_stop_dev d l))"
  by (auto simp: wplip_stop_dev_def intro!: lip_ok_upd_dev dest: dev_okD split: option.split)

context lip_protocol
begin

lemma entry_err [simp]: "prot_entry E n \<noteq> Inl 0"
  by (auto simp: prot_entry_def errno_defs split: option.split)

lemma entry_Inr: "prot_entry E n = Inr i \<Longrightarrow> prot_ops E n = Some i"
  by (auto simp: prot_entry_def split: if_splits option.splits)

lemma prot_tx_extends:
  assumes "devs l d \<noteq> None"
  shows "extends_link D l (snd (wplip_prot_tx E d skb ty l))"
proof -
  have "extends_link D l (snd (f l d skb ty))" if "prot_entry E n = Inr i" "pi_tx i = Some f" for n i f
    using extends_callbacks [OF tx_calls [OF entry_Inr [OF that(1)] that(2)]] .
  with assms show ?thesis
    by (auto simp: wplip_prot_tx_def split: option.split sum.split)
qed

lemma open_extends: "extends_link D l (snd (wplip_open_lipdev_prot E d v l))"
proof -
  have "extends_link D l (snd (f l d))" if "prot_entry E n = Inr i" "pi_open i = Some f" for n i f
    using open_calls [OF entry_Inr [OF that(1)] that(2)] extends_callbacks by blast
  then show ?thesis by (auto simp: wplip_open_lipdev_prot_def split: option.split sum.split)
qed

lemma close_extends: "extends_link D l (snd (wplip_close_lipdev_prot E d v l))"
proof -
  have "extends_link D l (snd (f l d))" if "prot_entry E n = Inr i" "pi_close i = Some f" for n i f
    using extends_callbacks [OF close_calls [OF entry_Inr [OF that(1)] that(2)]] .
  then show ?thesis by (auto simp: wplip_close_lipdev_prot_def split: option.split sum.split)
qed

lemma send_ok:
  assumes "lip_ok D l"
  shows "lip_ok D (snd (wplip_if_send E d skb ty l))"
proof (cases "devs l d")
  case (Some v)
  have u: "lip_ok D (upd_dev d f m)"
    if "extends_link D l m" "\<And>w. dev_ok w \<Longrightarrow> dev_ok (f w)" for f m
  proof -
    have "lip_ok D m" by (rule lip_ok_extends [OF assms that(1)])
    moreover have "d \<in> dom (devs m)" using extends_same(12) [OF that(1)] Some by auto
    ultimately show ?thesis using that(2) dev_okD by (intro lip_ok_upd_dev) blast+
  qed
  have x: "extends_link D l (snd (wplip_prot_tx E d skb ty l))" for skb ty
    using Some by (intro prot_tx_extends) simp
  have r: "lip_ok D (resize_latency d (snd (wplip_trigger_bh (upd_dev d f m))))"
    if "extends_link D l m" "\<And>w. dev_ok w \<Longrightarrow> dev_ok (f w)" for f m
  proof (rule resize_ok)
    show "lip_ok D (snd (wplip_trigger_bh (upd_dev d f m)))" using u [OF that] by simp
    show "d \<in> dom (devs (snd (wplip_trigger_bh (upd_dev d f m))))"
      using extends_same(12) [OF that(1)] Some by (auto simp: wplip_trigger_bh_def)
  qed
  obtain skb1 ty1 where s: "(if ld_usedby v = API then (drop (api_hdr_len E) skb, WPLIP_RAW) else (skb, ty)) = (skb1, ty1)"
    by fastforce
  obtain err l1 where t: "wplip_prot_tx E d skb1 ty1 l = (err, l1)"
    by (cases "wplip_prot_tx E d skb1 ty1 l")
  then have e: "extends_link D l l1" using x [of skb1 ty1] by simp
  show ?thesis
    using assms by (simp add: wplip_if_send_def Some s t Let_def u r [OF e])
qed (simp add: wplip_if_send_def assms)

lemma timer_call_ok:
  assumes "lip_ok D l"
  shows "lip_ok D (wplip_prot_timer E l)"
proof -
  have "lip_ok D (f l up)" if "prot_ops E n = Some i" "pi_timer i = Some f" for n i f up
    using lip_ok_extends [OF assms extends_callbacks [OF timer_calls [OF that]]] .
  with assms show ?thesis by (auto simp: wplip_prot_timer_def Let_def split: option.split)
qed

lemma bh_ends:
  assumes "lip_ok D l"
  shows "\<exists>m. wplip_link_bh E l = Some m \<and> lip_ok D m \<and> (\<exists>log. moved log l m) \<and>
    (\<not> wan_test_bit WPLIP_LINK_DOWN l \<longrightarrow> rx_queue m = [])"
proof (cases "wan_test_bit WPLIP_LINK_DOWN l")
  case True
  then show ?thesis
    using assms drains_moved [OF drains_refl [of D "l\<lparr>task_scheduled := False\<rparr>"]]
    by (auto simp: wplip_link_bh_def Let_def intro: exI [of _ "[]"])
next
  case False
  let ?l = "wan_set_bit WPLIP_BH_RUNNING (l\<lparr>task_scheduled := False\<rparr>)"
  have "lip_ok D ?l" using assms by simp
  from bh_receive_run [OF this] obtain m where m: "wplip_bh_receive E ?l = Some m" "lip_ok D m"
    "moved [] ?l m" "rx_queue m = []" by blast
  note p = bh_transmit_pass [OF m(2)] bh_pass_drains [OF m(2)]
  from p(2) obtain log where "moved log m (snd (bh_pass E m))" by blast
  with m(3) have "moved ([] @ log) l (snd (bh_pass E m))"
    by (intro moved_trans [of "[]" l m]) simp_all
  moreover have "rx_queue (snd (bh_pass E m)) = []" using p(4) m(4) by simp
  ultimately show ?thesis
    using False m p by (auto simp: wplip_link_bh_def Let_def wplip_retrigger_bh_def case_prod_unfold)
qed

lemma reg_ok:
  assumes ok: "lip_ok D l" and d: "d \<notin> dom (devs l)" and r: "wplip_if_reg E mem d c l = (0, m)"
  shows "lip_ok D m"
proof -
  from r obtain usedby where ub: "cf_usedby c = Some usedby" "lk_registered l" "mem"
    "\<not> wplip_lipdev_exists (cf_name c) l"
    by (auto simp: wplip_if_reg_def errno_defs split: if_splits option.splits)
  define v where "v = wplip_create_lipdev usedby c"
  define l1 where "l1 = l\<lparr>devs := (devs l)(d \<mapsto> v)\<rparr>"
  obtain err l2 where p: "wplip_reg_lipdev_prot E d v l1 = (err, l2)" by (cases "wplip_reg_lipdev_prot E d v l1")
  obtain err3 l3 where o: "wplip_open_lipdev_prot E d v (wplip_insert_lipdev d l2) = (err3, l3)"
    by (cases "wplip_open_lipdev_prot E d v (wplip_insert_lipdev d l2)")
  define l4 where "l4 = l3\<lparr>latency_qlen := ucast (cf_qlen c)\<rparr>"
  have m: "err = 0" "err3 = 0" "m = (if lk_state l4 = WAN_CONNECTED
         then snd (wplip_trigger_bh (event (Wake_queue d)
                (upd_dev d (\<lambda>v. v\<lparr>ld_carrier := True, ld_stopped := False\<rparr>) l4))) else l4)"
    using r by (auto simp: wplip_if_reg_def ub v_def [symmetric] l1_def [symmetric] p o l4_def [symmetric]
        Let_def split: if_splits)
  have v: "dev_ok v" by (simp add: v_def wplip_create_lipdev_def dev_ok_def)
  from p m(1) obtain i rg q where "prot_entry E (ld_protocol v) = Inr i" "pi_chan_register i = Some rg"
    "rg (prot l1) d (ld_name v) (ld_usedby v = API) = Some q"
    and l2: "l2 = upd_dev d (\<lambda>v. v\<lparr>ld_prot := True\<rparr>) (l1\<lparr>prot := q\<rparr>)"
    by (auto simp: wplip_reg_lipdev_prot_def errno_defs split: if_splits option.splits sum.splits)
  then have q: "D q \<subseteq> insert d (D (prot l))"
    using chan_register [OF entry_Inr] by (fastforce simp: l1_def)
  have "lip_ok D (l1\<lparr>prot := q\<rparr>)"
    using ok d q v by (auto simp: lip_ok_def l1_def)
  then have "lip_ok D l2" using v by (auto simp: l2 l1_def intro!: lip_ok_upd_dev)
  moreover have "list_head_ifdev l2 = list_head_ifdev l" "d \<in> dom (devs l2)" by (simp_all add: l2 l1_def)
  ultimately have "lip_ok D (wplip_insert_lipdev d l2)"
    using ok d by (auto simp: lip_ok_def wplip_insert_lipdev_def)
  moreover have e: "extends_link D (wplip_insert_lipdev d l2) l3"
    using open_extends [of "wplip_insert_lipdev d l2" d v] o by simp
  ultimately have l4: "lip_ok D l4" using lip_ok_extends by (auto simp: l4_def)
  have "d \<in> dom (devs l4)"
    using extends_same(12) [OF e] by (simp add: l4_def wplip_insert_lipdev_def l2 l1_def)
  with l4 show ?thesis using dev_okD [OF l4] by (auto simp: m(3) intro!: lip_ok_upd_dev)
qed

lemma unreg_begin:
  assumes ok: "lip_ok D l" and v: "devs l d = Some v" and b: "wplip_if_unreg_begin E up_err d l = (0, m)"
  shows "lip_ok D m \<and> cur_tx m = None \<and> list_head_ifdev m = list_head_ifdev l \<and> tq_working m = tq_working l \<and>
    (\<exists>w. devs m d = Some w \<and> ld_unregister w \<and> ld_tx_queue w = [] \<and> ld_prot w = ld_prot v \<and>
      ld_protocol w = ld_protocol v)"
proof -
  define l1 where "l1 = upd_dev d (\<lambda>v. v\<lparr>ld_unregister := True, ld_ready := False\<rparr>) l"
  define l2 where "l2 = snd (wplip_close_lipdev_prot E d v l1)"
  have m: "m = upd_dev d (\<lambda>v. v\<lparr>ld_tx_queue := []\<rparr>) (l2\<lparr>cur_tx := None\<rparr>)"
    using b by (auto simp: wplip_if_unreg_begin_def v l1_def [symmetric] l2_def [symmetric] Let_def
        errno_defs split: if_splits)
  have 1: "lip_ok D l1" using ok v dev_okD [OF ok] by (auto simp: l1_def intro!: lip_ok_upd_dev)
  have e: "extends_link D l1 l2" unfolding l2_def by (rule close_extends)
  have v1: "devs l1 d = Some (v\<lparr>ld_unregister := True, ld_ready := False\<rparr>)" by (simp add: l1_def upd_dev_def v)
  from extends_devD [OF e v1] obtain w where w: "devs l2 d = Some w" "ld_unregister w"
    "ld_prot w = ld_prot v" "ld_protocol w = ld_protocol v" by (auto simp: extends_dev_def)
  have 2: "lip_ok D (l2\<lparr>cur_tx := None\<rparr>)" using lip_ok_extends [OF 1 e] by (simp add: lip_ok_def)
  then have "lip_ok D m"
    using w dev_okD [OF 2] unfolding m by (intro lip_ok_upd_dev) (auto simp: dev_ok_def)
  moreover have "tq_working l1 = tq_working l" "list_head_ifdev l1 = list_head_ifdev l"
    by (simp_all add: l1_def upd_dev_def v)
  ultimately show ?thesis using w extends_same(1,7) [OF e] by (simp add: m upd_dev_def)
qed

lemma unreg_end_ok:
  assumes ok: "lip_ok D l" "cur_tx l = None" and w: "devs l d = Some w" "d \<in> set (list_head_ifdev l)" "ld_prot w"
    and i: "prot_entry E (ld_protocol w) = Inr i" "pi_chan_unregister i = Some u"
  shows "lip_ok D (wplip_if_unreg_end E d l)"
proof -
  let ?m = "l\<lparr>prot := u (prot l) d, devs := (devs l)(d := None),
      list_head_ifdev := remove1 d (list_head_ifdev l), dev_cnt := dev_cnt l - 1\<rparr>"
  have m: "wplip_if_unreg_end E d l = ?m"
    using w by (simp add: wplip_if_unreg_end_def wplip_unreg_lipdev_prot_def i upd_dev_def
        wplip_free_lipdev_def wplip_remove_lipdev_def)
  have "D (u (prot l) d) \<subseteq> D (prot l) - {d}" using chan_unregister [OF entry_Inr [OF i(1)] i(2)] .
  moreover have "D (prot l) \<subseteq> dom (devs l)" "set (list_head_ifdev l) \<subseteq> dom (devs l)"
    "distinct (list_head_ifdev l)" using ok(1) by (simp_all add: lip_ok_def)
  ultimately have "D (prot ?m) \<subseteq> dom (devs ?m)" "set (list_head_ifdev ?m) \<subseteq> dom (devs ?m)"
    by (auto simp: set_remove1_eq)
  moreover have "dev_ok v" if "devs ?m b = Some v" for b v
    using that dev_okD [OF ok(1)] by (simp split: if_splits)
  moreover have "dev_cnt ?m = of_nat (length (list_head_ifdev ?m))"
    using ok(1) count_remove1 [OF w(2)] by (simp add: lip_ok_def)
  ultimately show ?thesis using ok unfolding m lip_ok_def by simp
qed

theorem step_ok: "lip_step E l m \<Longrightarrow> lip_ok D l \<Longrightarrow> lip_ok D m"
proof (induction rule: lip_step.induct)
  case (bh l m)
  from bh_ends [OF bh(2)] bh(1) show ?case by (elim exE conjE) simp
next
  case (if_reg d l mem c m)
  show ?case by (rule reg_ok [OF if_reg(3,1,2)])
next
  case (if_unreg l d v i up_err m)
  obtain l1 where b: "wplip_if_unreg_begin E up_err d l = (0, l1)" "m = wplip_if_unreg_end E d l1"
    using if_unreg(6) by (auto simp: wplip_if_unreg_def split: prod.splits if_splits)
  from unreg_begin [OF if_unreg(7,1) b(1)] obtain w where u: "lip_ok D l1" "cur_tx l1 = None"
    "list_head_ifdev l1 = list_head_ifdev l" "devs l1 d = Some w" "ld_prot w = ld_prot v"
    "ld_protocol w = ld_protocol v" by blast
  obtain un where "pi_chan_unregister i = Some un" using if_unreg(5) by blast
  then show ?case
    unfolding b(2) using unreg_end_ok [OF u(1,2,4)] u(3,5,6) if_unreg(2-4) by simp
qed (simp_all add: rx_ok send_ok timer_call_ok timeout_ok connect_ok disconnect_ok bind_ok unbind_ok open_dev_ok stop_dev_ok)

end

end
