(* ===== verification/Lip_Round.thy ===== *)
theory Lip_Round
  imports Lip_Reg
begin

text \<open>
  One pass of the bottom half when the device below takes every frame: the queue of the
  link, then one frame of each device in turn. And what a pass leaves behind when it is
  refused, or is not: a frame that waits is announced by \<open>WPLIP_MORE_LINK_TX\<close> or waits for
  a kick.
\<close>

section \<open>A pass that is not cut off\<close>

definition accepting :: "('p, 'h) lip_env \<Rightarrow> ('p, 'h) lip_link \<Rightarrow> bool" where
  "accepting E l \<longleftrightarrow> tx_dev_cnt l \<noteq> 0 \<and> (\<exists>n ns. list_head_tx_ifdev l = n # ns \<and>
     (\<forall>h. \<not> low_stopped E h n) \<and> (\<forall>h skb. fst (low_xmit E h n skb) = 0))"

text \<open>No two reads of the clock in order are more than ten ticks apart.\<close>

definition calm_clock :: "('p, 'h) lip_env \<Rightarrow> bool" where
  "calm_clock E \<longleftrightarrow> (\<forall>i j. i \<le> j \<longrightarrow> \<not> system_ticks E j - system_ticks E i > 10)"

definition no_bh :: "('p, 'h) lip_env \<Rightarrow> bool" where
  "no_bh E \<longleftrightarrow> (\<forall>n i. prot_ops E n = Some i \<longrightarrow> pi_bh i = None)"

text \<open>The frames a device has for the bottom half.\<close>

definition waiting :: "('p, 'h) lip_link \<Rightarrow> nat \<Rightarrow> frame list" where
  "waiting l d = (case devs l d of Some v \<Rightarrow> if ld_unregister v then [] else ld_tx_queue v | None \<Rightarrow> [])"

lemma waiting_update [simp]:
  "waiting (l\<lparr>tq_working := f\<rparr>) = waiting l" "waiting (l\<lparr>cur_tx := c\<rparr>) = waiting l"
  "waiting (l\<lparr>ticks_read := n\<rparr>) = waiting l" "waiting (l\<lparr>tx_queue := q\<rparr>) = waiting l"
  "waiting (l\<lparr>task_scheduled := t\<rparr>) = waiting l"
  by (simp_all add: waiting_def fun_eq_iff cong: option.case_cong)

lemma accepting_update [simp]:
  "accepting E (l\<lparr>tq_working := f\<rparr>) = accepting E l" "accepting E (l\<lparr>cur_tx := c\<rparr>) = accepting E l"
  "accepting E (l\<lparr>ticks_read := n\<rparr>) = accepting E l" "accepting E (l\<lparr>tx_queue := q\<rparr>) = accepting E l"
  "accepting E (l\<lparr>task_scheduled := t\<rparr>) = accepting E l"
  by (simp_all add: accepting_def)

lemma calm_clockD: "calm_clock E \<Longrightarrow> i \<le> j \<Longrightarrow> \<not> system_ticks E j - system_ticks E i > 10"
  by (simp add: calm_clock_def)

lemma accepting_same:
  "tx_dev_cnt m = tx_dev_cnt l \<Longrightarrow> list_head_tx_ifdev m = list_head_tx_ifdev l \<Longrightarrow> accepting E m = accepting E l"
  by (simp add: accepting_def)

lemma accepted: "accepting E l \<Longrightarrow> fst (wplip_data_tx_down E skb l) = 0"
  by (auto simp: accepting_def wplip_data_tx_down_def Let_def case_prod_unfold)

lemma no_bh_kick: "no_bh E \<Longrightarrow> devs l d \<noteq> None \<Longrightarrow> snd (wplip_prot_kick E d l) = l"
  by (auto simp: no_bh_def wplip_prot_kick_def prot_entry_def split: option.split sum.split if_splits)

lemma bh_wake_same [simp]:
  "tx_queue (bh_wake d v l) = tx_queue l" "wire (bh_wake d v l) = wire l"
  "ticks_read (bh_wake d v l) = ticks_read l" "tq_working (bh_wake d v l) = tq_working l"
  "tx_dev_cnt (bh_wake d v l) = tx_dev_cnt l" "list_head_tx_ifdev (bh_wake d v l) = list_head_tx_ifdev l"
  "list_head_ifdev (bh_wake d v l) = list_head_ifdev l"
  by (simp_all add: bh_wake_def Let_def upd_dev_def split: option.split)

lemma bh_wake_dom [simp]: "dom (devs (bh_wake d v l)) = dom (devs l)"
  by (simp add: bh_wake_def Let_def split: option.split)

lemma bh_wake_devs:
  assumes "devs l d = Some w"
  shows "\<exists>b. devs (bh_wake d v l) = (devs l)(d \<mapsto> w\<lparr>ld_stopped := b\<rparr>)"
proof (cases "\<not> ld_if_down v \<and> ld_stopped v")
  case True
  with assms show ?thesis
    by (intro exI [of _ False]) (simp add: bh_wake_def Let_def upd_dev_def split: option.split)
next
  case False
  with assms show ?thesis
    by (intro exI [of _ "ld_stopped w"]) (auto simp: bh_wake_def fun_eq_iff)
qed

text \<open>After a frame is gone, with a protocol without a routine of its own.\<close>

lemma bh_woken:
  assumes "no_bh E" "devs l d = Some w"
  shows "snd (wplip_prot_kick E d (bh_wake d v l)) = bh_wake d v l"
    and "waiting (bh_wake d v l) = waiting l"
    and "\<exists>w1. devs (bh_wake d v l) d = Some w1 \<and> ld_tx_queue w1 = ld_tx_queue w"
proof -
  from bh_wake_devs [OF assms(2)] obtain b
    where b: "devs (bh_wake d v l) = (devs l)(d \<mapsto> w\<lparr>ld_stopped := b\<rparr>)" by blast
  show "snd (wplip_prot_kick E d (bh_wake d v l)) = bh_wake d v l"
    using assms(1) b by (intro no_bh_kick) auto
  show "waiting (bh_wake d v l) = waiting l"
    using assms(2) by (auto simp: waiting_def b fun_eq_iff)
  show "\<exists>w1. devs (bh_wake d v l) d = Some w1 \<and> ld_tx_queue w1 = ld_tx_queue w"
    by (simp add: b)
qed

text \<open>
  One device: either the frame is refused, and goes back, or the first frame is gone and
  \<open>WPLIP_MORE_LINK_TX\<close> tells whether there are more.
\<close>

lemma bh_dev_cases:
  assumes "no_bh E" "devs l d \<noteq> None"
  obtains (refused) m where "bh_dev E d l = (False, m)" "wan_test_bit WPLIP_BH_AWAITING_KICK m"
      "\<not> accepting E l" "tx_queue m = tx_queue l" "waiting m = waiting l"
      "dom (devs m) = dom (devs l)" "tq_working m = insert WPLIP_BH_AWAITING_KICK (tq_working l)"
  | (gone) m where "bh_dev E d l = (True, m)" "waiting m = (waiting l)(d := drop 1 (waiting l d))"
      "wire m = wire l @ take 1 (waiting l d)" "ticks_read m = ticks_read l" "tx_queue m = tx_queue l"
      "tq_working m = (if waiting m d = [] then tq_working l else insert WPLIP_MORE_LINK_TX (tq_working l))"
      "accepting E m = accepting E l" "dom (devs m) = dom (devs l)" "cur_tx m = cur_tx l"
proof -
  obtain v where v: "devs l d = Some v" using assms(2) by blast
  consider "ld_unregister v" | "\<not> ld_unregister v" "ld_tx_queue v = []"
    | skb q where "\<not> ld_unregister v" "ld_tx_queue v = skb # q" by (cases "ld_tx_queue v") auto
  then show ?thesis
  proof cases
    case 1
    then have w: "waiting l d = []" by (simp add: waiting_def v)
    show ?thesis
      by (rule gone [of l]) (use 1 w in \<open>simp_all add: bh_dev_def v fun_upd_idem\<close>)
  next
    case 2
    then have w: "waiting l d = []" by (simp add: waiting_def v)
    from bh_woken(3) [OF assms(1) v] obtain w1 where w1: "devs (bh_wake d v l) d = Some w1"
      "ld_tx_queue w1 = ld_tx_queue v" by blast
    show ?thesis
    proof (rule gone [of "bh_wake d v l"])
      show "bh_dev E d l = (True, bh_wake d v l)"
        using 2 w1 bh_woken(1) [OF assms(1) v] by (simp add: bh_dev_def v Let_def)
      show "waiting (bh_wake d v l) = (waiting l)(d := drop 1 (waiting l d))"
        using w bh_woken(2) [OF assms(1) v] by (simp add: fun_eq_iff)
    qed (simp_all add: w bh_woken(2) [OF assms(1) v] accepting_def)
  next
    case 3
    let ?l = "upd_dev d (\<lambda>v. v\<lparr>ld_tx_queue := q\<rparr>) l"
    obtain err l1 where t: "wplip_data_tx_down E skb ?l = (err, l1)" by (cases "wplip_data_tx_down E skb ?l")
    note f = drains_dev_frame(3-6) [OF v 3(2) t]
    have w: "waiting l d = skb # q" using 3 by (simp add: waiting_def v)
    have same: "tx_dev_cnt l1 = tx_dev_cnt l" "list_head_tx_ifdev l1 = list_head_tx_ifdev l"
      "tx_queue l1 = tx_queue l" "ticks_read l1 = ticks_read l"
      "wire l1 = wire l @ (if err = 0 then [skb] else [])"
      using data_tx_down_same [of E skb ?l, unfolded t] data_tx_down_queues [of E skb ?l, unfolded t]
      by (simp_all add: upd_dev_def v)
    show ?thesis
    proof (cases "err = 0")
      case False
      let ?m = "wan_set_bit WPLIP_BH_AWAITING_KICK (upd_dev d (\<lambda>v. v\<lparr>ld_tx_queue := skb # ld_tx_queue v\<rparr>) l1)"
      show ?thesis
      proof (rule refused [of ?m])
        show "bh_dev E d l = (False, ?m)" using 3 t False by (simp add: bh_dev_def v Let_def)
        show "\<not> accepting E l"
          using accepted [of E ?l skb] t False accepting_same [of ?l l E] by (auto simp: upd_dev_def v)
        show "waiting ?m = waiting l" using 3 by (auto simp: waiting_def upd_dev_def f v fun_eq_iff)
      qed (use v in \<open>auto simp: upd_dev_def f same\<close>)
    next
      case True
      have d: "devs l1 d = Some (v\<lparr>ld_tx_queue := q\<rparr>)" by (simp add: f)
      have wl: "waiting l1 = (waiting l)(d := drop 1 (waiting l d))"
        using 3 by (auto simp: waiting_def f v fun_eq_iff)
      note k = bh_woken [OF assms(1) d, of v]
      from k(3) obtain w1 where w1: "devs (bh_wake d v l1) d = Some w1" "ld_tx_queue w1 = q" by auto
      let ?m = "bh_wake d v l1"
      show ?thesis
      proof (rule gone [of "if q \<noteq> [] then wan_set_bit WPLIP_MORE_LINK_TX ?m else ?m"])
        show "bh_dev E d l = (True, if q \<noteq> [] then wan_set_bit WPLIP_MORE_LINK_TX ?m else ?m)"
          using 3 t True w1 k(1) by (simp add: bh_dev_def v Let_def)
        show "waiting (if q \<noteq> [] then wan_set_bit WPLIP_MORE_LINK_TX ?m else ?m) = (waiting l)(d := drop 1 (waiting l d))"
          using k(2) wl by simp
        show "tq_working (if q \<noteq> [] then wan_set_bit WPLIP_MORE_LINK_TX ?m else ?m) =
            (if waiting (if q \<noteq> [] then wan_set_bit WPLIP_MORE_LINK_TX ?m else ?m) d = []
             then tq_working l else insert WPLIP_MORE_LINK_TX (tq_working l))"
          using k(2) wl w f by simp
      qed (use w True same f v in \<open>auto simp: accepting_def\<close>)
    qed
  qed
qed

section \<open>The walk\<close>

lemma bh_walk_round:
  assumes "no_bh E" "calm_clock E" "accepting E l" "distinct ds" "set ds \<subseteq> dom (devs l)"
    and "t0 = system_ticks E i" "i \<le> ticks_read l"
  shows "wire (bh_walk E t0 ds l) = wire l @ concat (map (\<lambda>d. take 1 (waiting l d)) ds) \<and>
    waiting (bh_walk E t0 ds l) = (\<lambda>d. if d \<in> set ds then drop 1 (waiting l d) else waiting l d) \<and>
    tx_queue (bh_walk E t0 ds l) = tx_queue l \<and> cur_tx (bh_walk E t0 ds l) = cur_tx l"
  using assms(3-7)
proof (induction ds arbitrary: l)
  case (Cons d ds)
  let ?l = "l\<lparr>ticks_read := Suc (ticks_read l)\<rparr>"
  have calm: "\<not> system_ticks E (ticks_read l) - t0 > 10"
    using calm_clockD [OF assms(2) Cons.prems(5)] Cons.prems(4) by simp
  have dn: "devs ?l d \<noteq> None" using Cons.prems(3) by auto
  show ?case
  proof (cases rule: bh_dev_cases [OF assms(1) dn, case_names refused gone])
    case (refused m)
    with Cons.prems(1) show ?thesis by simp
  next
    case (gone m)
    have w: "bh_walk E t0 (d # ds) l = bh_walk E t0 ds m"
      using calm gone(1) by (simp add: read_ticks_def)
    have "d \<notin> set ds" using Cons.prems(2) by simp
    then have eq: "map (\<lambda>d. take 1 (waiting m d)) ds = map (\<lambda>d. take 1 (waiting l d)) ds"
      using gone(2) by auto
    have "wire (bh_walk E t0 ds m) = wire m @ concat (map (\<lambda>d. take 1 (waiting m d)) ds) \<and>
      waiting (bh_walk E t0 ds m) = (\<lambda>d. if d \<in> set ds then drop 1 (waiting m d) else waiting m d) \<and>
      tx_queue (bh_walk E t0 ds m) = tx_queue m \<and> cur_tx (bh_walk E t0 ds m) = cur_tx m"
      using Cons.prems gone by (intro Cons.IH) auto
    with gone \<open>d \<notin> set ds\<close> show ?thesis
      unfolding w eq by (auto simp: fun_eq_iff)
  qed
qed simp

lemma bh_link_queue_round:
  assumes "calm_clock E" "accepting E l" "t0 = system_ticks E i" "i \<le> ticks_read l"
  shows "\<exists>m. bh_link_queue E t0 l = (True, m) \<and> wire m = wire l @ tx_queue l \<and> tx_queue m = [] \<and>
    devs m = devs l \<and> i \<le> ticks_read m \<and> accepting E m \<and> list_head_ifdev m = list_head_ifdev l \<and>
    cur_tx m = cur_tx l"
  using assms(2,4)
proof (induction "tx_queue l" arbitrary: l)
  case Nil
  then show ?case by (simp add: bh_link_queue.simps)
next
  case (Cons skb q)
  let ?l = "l\<lparr>tx_queue := q\<rparr>"
  obtain err l1 where t: "wplip_data_tx_down E skb ?l = (err, l1)" by (cases "wplip_data_tx_down E skb ?l")
  have e: "err = 0" using accepted [of E ?l skb] Cons.prems(1) t by simp
  note same = data_tx_down_same [of E skb ?l, unfolded t] data_tx_down_queues [of E skb ?l, unfolded t]
  let ?l2 = "l1\<lparr>ticks_read := Suc (ticks_read l1)\<rparr>"
  have calm: "\<not> system_ticks E (ticks_read l1) - t0 > 10"
    using calm_clockD [OF assms(1) Cons.prems(2)] same assms(3) by simp
  have "accepting E ?l2" using Cons.prems(1) same by (simp add: accepting_def)
  with Cons.hyps(1) [of ?l2] Cons.prems(2) same obtain m where "bh_link_queue E t0 ?l2 = (True, m)"
    "wire m = wire l1 @ q" "tx_queue m = []" "devs m = devs l1" "i \<le> ticks_read m" "accepting E m"
    "list_head_ifdev m = list_head_ifdev l1" "cur_tx m = cur_tx l1" by auto
  with same e calm show ?case
    unfolding bh_link_queue.simps [of E t0 l] Cons.hyps(2) [symmetric]
    by (simp add: t read_ticks_def)
qed

section \<open>What is left behind\<close>

lemma bh_walk_left:
  assumes "no_bh E" "calm_clock E" "distinct ds" "set ds \<subseteq> dom (devs l)"
    and "t0 = system_ticks E i" "i \<le> ticks_read l"
  shows "wan_test_bit WPLIP_BH_AWAITING_KICK (bh_walk E t0 ds l) \<or>
    (tx_queue (bh_walk E t0 ds l) = tx_queue l \<and>
     (\<forall>d. d \<notin> set ds \<longrightarrow> waiting (bh_walk E t0 ds l) d = waiting l d) \<and>
     ((\<exists>d \<in> set ds. waiting (bh_walk E t0 ds l) d \<noteq> []) \<or> wan_test_bit WPLIP_MORE_LINK_TX l \<longrightarrow>
      wan_test_bit WPLIP_MORE_LINK_TX (bh_walk E t0 ds l)))"
  using assms(3-6)
proof (induction ds arbitrary: l)
  case (Cons d ds)
  let ?l = "l\<lparr>ticks_read := Suc (ticks_read l)\<rparr>"
  have calm: "\<not> system_ticks E (ticks_read l) - t0 > 10"
    using calm_clockD [OF assms(2) Cons.prems(4)] Cons.prems(3) by simp
  have dn: "devs ?l d \<noteq> None" using Cons.prems(2) by auto
  show ?case
  proof (cases rule: bh_dev_cases [OF assms(1) dn, case_names refused gone])
    case (refused m)
    then show ?thesis using calm by (simp add: read_ticks_def)
  next
    case (gone m)
    have w: "bh_walk E t0 (d # ds) l = bh_walk E t0 ds m"
      using calm gone(1) by (simp add: read_ticks_def)
    have "d \<notin> set ds" using Cons.prems(1) by simp
    have "set ds \<subseteq> dom (devs m)" using Cons.prems(2) gone(8) by auto
    from Cons.IH [OF _ this] Cons.prems gone(4) have
      "wan_test_bit WPLIP_BH_AWAITING_KICK (bh_walk E t0 ds m) \<or>
      (tx_queue (bh_walk E t0 ds m) = tx_queue m \<and>
       (\<forall>d. d \<notin> set ds \<longrightarrow> waiting (bh_walk E t0 ds m) d = waiting m d) \<and>
       ((\<exists>d \<in> set ds. waiting (bh_walk E t0 ds m) d \<noteq> []) \<or> wan_test_bit WPLIP_MORE_LINK_TX m \<longrightarrow>
        wan_test_bit WPLIP_MORE_LINK_TX (bh_walk E t0 ds m)))" by simp
    then show ?thesis
    proof
      assume r: "tx_queue (bh_walk E t0 ds m) = tx_queue m \<and>
       (\<forall>d. d \<notin> set ds \<longrightarrow> waiting (bh_walk E t0 ds m) d = waiting m d) \<and>
       ((\<exists>d \<in> set ds. waiting (bh_walk E t0 ds m) d \<noteq> []) \<or> wan_test_bit WPLIP_MORE_LINK_TX m \<longrightarrow>
        wan_test_bit WPLIP_MORE_LINK_TX (bh_walk E t0 ds m))"
      have "wan_test_bit WPLIP_MORE_LINK_TX m" if "waiting m d \<noteq> [] \<or> wan_test_bit WPLIP_MORE_LINK_TX l"
        using that gone(6) by auto
      moreover have "waiting m x = waiting l x" if "x \<noteq> d" for x using gone(2) that by simp
      ultimately show ?thesis
        using r \<open>d \<notin> set ds\<close> gone(5) unfolding w by auto
    qed (simp add: w del: bh_walk.simps)
  qed
qed simp

lemma bh_walk_down:
  assumes "no_bh E" "set ds \<subseteq> dom (devs l)"
  shows "wan_test_bit WPLIP_LINK_DOWN (bh_walk E t0 ds l) = wan_test_bit WPLIP_LINK_DOWN l"
  using assms(2)
proof (induction ds arbitrary: l)
  case (Cons d ds)
  let ?l = "l\<lparr>ticks_read := Suc (ticks_read l)\<rparr>"
  have dn: "devs ?l d \<noteq> None" using Cons.prems by auto
  show ?case
  proof (cases rule: bh_dev_cases [OF assms(1) dn, case_names refused gone])
    case (refused m)
    then show ?thesis by (simp add: read_ticks_def)
  next
    case (gone m)
    have "set ds \<subseteq> dom (devs m)" using Cons.prems gone(8) by auto
    from Cons.IH [OF this] gone(1,6) show ?thesis by (simp add: read_ticks_def)
  qed
qed simp

lemma bh_link_queue_left:
  assumes "calm_clock E" "t0 = system_ticks E i" "i \<le> ticks_read l"
  shows "\<exists>go m. bh_link_queue E t0 l = (go, m) \<and> devs m = devs l \<and> i \<le> ticks_read m \<and>
    list_head_ifdev m = list_head_ifdev l \<and> cur_tx m = cur_tx l \<and>
    (if go then tx_queue m = [] \<and> tq_working m = tq_working l
     else tq_working m = insert WPLIP_BH_AWAITING_KICK (tq_working l))"
  using assms(3)
proof (induction "tx_queue l" arbitrary: l)
  case Nil
  then show ?case by (intro exI [of _ True]) (simp add: bh_link_queue.simps)
next
  case (Cons skb q)
  let ?l = "l\<lparr>tx_queue := q\<rparr>"
  obtain err l1 where t: "wplip_data_tx_down E skb ?l = (err, l1)" by (cases "wplip_data_tx_down E skb ?l")
  note same = data_tx_down_same [of E skb ?l, unfolded t] data_tx_down_queues [of E skb ?l, unfolded t]
  let ?l2 = "l1\<lparr>ticks_read := Suc (ticks_read l1)\<rparr>"
  have calm: "\<not> system_ticks E (ticks_read l1) - t0 > 10"
    using calm_clockD [OF assms(1) Cons.prems] same assms(2) by simp
  from Cons.hyps(1) [of ?l2] Cons.prems same obtain go m where "bh_link_queue E t0 ?l2 = (go, m)"
    "devs m = devs l1" "i \<le> ticks_read m" "list_head_ifdev m = list_head_ifdev l1" "cur_tx m = cur_tx l1"
    "if go then tx_queue m = [] \<and> tq_working m = tq_working l1
     else tq_working m = insert WPLIP_BH_AWAITING_KICK (tq_working l1)" by auto
  with same calm Cons.prems show ?case
    unfolding bh_link_queue.simps [of E t0 l] Cons.hyps(2) [symmetric]
    by (cases "err = 0") (auto simp: t read_ticks_def)
qed

end
