(* ===== verification/Lip_Hdlc.thy ===== *)
theory Lip_Hdlc
  imports Lip_Pass Hdlc_Link
begin

text \<open>
  The HDLC protocol of the LIP layer, lip_hdlc/wanpipe_hdlc_iface.c: a raw channel below is
  read and written in step, so each received buffer is decoded, and then the queued frames
  are encoded and sent, and an idle buffer of the same length after them. The object of the
  protocol is \<open>wp_lip_hdlc_t\<close>; it serves one device. \<open>alloc n\<close> is the answer of the buffer
  allocator to its n-th call. The calls of \<open>hdlc_data\<close> during the decoding are made after
  it: the callback does not touch the engine. \<open>short_buf\<close> records that an encoded frame was
  longer than the buffer requested for it.
\<close>

section \<open>The protocol object\<close>

record lip_hdlc =
  hp_name :: string
  hp_link :: bool
  hp_dev :: "nat option"
  hp_type :: lip_type
  seven_bit_cfg :: bool
  rx_crc_bytes :: nat
  lineidle_mark :: bool
  next_idle :: u8
  hdlc_eng :: "hdlc_engine option"
  tx_q :: "frame list"
  allocs :: nat
  short_buf :: bool

type_synonym 'h hdlc_link = "(lip_hdlc, 'h) lip_link"

abbreviation upd_prot :: "(lip_hdlc \<Rightarrow> lip_hdlc) \<Rightarrow> 'h hdlc_link \<Rightarrow> 'h hdlc_link" where
  "upd_prot f l \<equiv> l\<lparr>prot := f (prot l)\<rparr>"

definition zero_hdlc :: lip_hdlc where
  "zero_hdlc = \<lparr>hp_name = '''', hp_link = False, hp_dev = None, hp_type = WPLIP_RAW,
     seven_bit_cfg = False, rx_crc_bytes = 0, lineidle_mark = False, next_idle = 0,
     hdlc_eng = None, tx_q = [], allocs = 0, short_buf = False\<rparr>"

section \<open>Registration\<close>

definition wp_register_lip_hdlc_prot :: "bool \<Rightarrow> lip_hdlc option" where
  "wp_register_lip_hdlc_prot mem = (if mem then Some (zero_hdlc\<lparr>hp_link := True\<rparr>) else None)"

definition wp_unregister_lip_hdlc_prot :: "lip_hdlc \<Rightarrow> lip_hdlc" where
  "wp_unregister_lip_hdlc_prot p = p\<lparr>hp_link := False\<rparr>"

text \<open>The configuration is the number of bits, the check sum octets to keep and the idle line.\<close>

definition wp_register_lip_hdlc_chan ::
  "bool \<Rightarrow> bool \<Rightarrow> nat \<Rightarrow> string \<Rightarrow> bool \<times> nat \<times> bool \<Rightarrow> lip_type \<Rightarrow> lip_hdlc \<Rightarrow> lip_hdlc option" where
  "wp_register_lip_hdlc_chan mem qmem d devname cfg ty p =
     (case cfg of (seven, crc, mark) \<Rightarrow>
        (case wanpipe_reg_hdlc_engine mem seven of
           None \<Rightarrow> None
         | Some e \<Rightarrow>
             if \<not> qmem then None
             else Some (p\<lparr>hp_name := devname, seven_bit_cfg := seven, rx_crc_bytes := crc,
                          lineidle_mark := mark, hdlc_eng := Some (e\<lparr>has_hdlc_data := True\<rparr>),
                          tx_q := [], next_idle := 0x7E, hp_dev := Some d, hp_type := ty\<rparr>)))"

definition wp_unregister_lip_hdlc_chan :: "lip_hdlc \<Rightarrow> lip_hdlc" where
  "wp_unregister_lip_hdlc_chan p = p\<lparr>tx_q := [], hdlc_eng := None, hp_dev := None\<rparr>"

section \<open>The callbacks of the layer\<close>

definition chan_down :: "frame \<Rightarrow> 'h hdlc_link \<Rightarrow> int \<times> 'h hdlc_link" where
  "chan_down skb l =
     (case hp_dev (prot l) of None \<Rightarrow> (1, l) | Some d \<Rightarrow> wplip_callback_tx_down d skb l)"

definition wp_lip_hdlc_data_transmit :: "frame \<Rightarrow> 'h hdlc_link \<Rightarrow> int \<times> 'h hdlc_link" where
  "wp_lip_hdlc_data_transmit skb l =
     (if hp_link (prot l) then wplip_link_callback_tx_down skb l else (1, l))"

definition wp_lip_hdlc_data_indication ::
  "(lip_hdlc, 'h) lip_env \<Rightarrow> frame \<Rightarrow> 'h hdlc_link \<Rightarrow> 'h hdlc_link" where
  "wp_lip_hdlc_data_indication E skb l =
     (case hp_dev (prot l) of
        None \<Rightarrow> l
      | Some d \<Rightarrow> wplip_prot_rx_up E d skb (hp_type (prot l)) l)"

definition wp_lip_hdlc_connect_indication :: "'h hdlc_link \<Rightarrow> 'h hdlc_link" where
  "wp_lip_hdlc_connect_indication l =
     (case hp_dev (prot l) of None \<Rightarrow> l | Some d \<Rightarrow> wplip_lipdev_prot_change_state d WAN_CONNECTED l)"

definition wp_lip_hdlc_disconnect_indication :: "'h hdlc_link \<Rightarrow> 'h hdlc_link" where
  "wp_lip_hdlc_disconnect_indication l =
     (case hp_dev (prot l) of None \<Rightarrow> l | Some d \<Rightarrow> wplip_lipdev_prot_change_state d WAN_DISCONNECTED l)"

definition wp_lip_hdlc_open :: "'h hdlc_link \<Rightarrow> nat \<Rightarrow> int \<times> 'h hdlc_link" where
  "wp_lip_hdlc_open l d = (0, wp_lip_hdlc_connect_indication l)"

definition wp_lip_hdlc_close :: "'h hdlc_link \<Rightarrow> nat \<Rightarrow> int \<times> 'h hdlc_link" where
  "wp_lip_hdlc_close l d = (0, l)"

definition wp_lip_hdlc_timer :: "'h hdlc_link \<Rightarrow> bool \<Rightarrow> 'h hdlc_link" where
  "wp_lip_hdlc_timer l carrier_reliable = l"

text \<open>An allocation: the answer, and the count of calls.\<close>

definition take_alloc :: "(nat \<Rightarrow> bool) \<Rightarrow> 'h hdlc_link \<Rightarrow> bool \<times> 'h hdlc_link" where
  "take_alloc alloc l = (alloc (allocs (prot l)), upd_prot (\<lambda>p. p\<lparr>allocs := Suc (allocs p)\<rparr>) l)"

definition hdlc_data_available ::
  "(lip_hdlc, 'h) lip_env \<Rightarrow> (nat \<Rightarrow> bool) \<Rightarrow> frame \<Rightarrow> 'h hdlc_link \<Rightarrow> 'h hdlc_link" where
  "hdlc_data_available E alloc data l =
     (if length data \<le> 2 then l
      else
        let len = (if rx_crc_bytes (prot l) = 0 then length data - 2 else length data);
            (mem, l1) = take_alloc alloc l
        in if \<not> mem then l1 else wp_lip_hdlc_data_indication E (take len data) l1)"

section \<open>Data\<close>

definition wp_lip_hdlc_tx :: "'h hdlc_link \<Rightarrow> nat \<Rightarrow> frame \<Rightarrow> lip_type \<Rightarrow> int \<times> 'h hdlc_link" where
  "wp_lip_hdlc_tx l d skb ty =
     (if length (tx_q (prot l)) > 32 then (1, l)
      else (0, upd_prot (\<lambda>p. p\<lparr>tx_q := tx_q p @ [skb]\<rparr>) l))"

definition wp_lip_tx_idle :: "nat \<Rightarrow> nat \<Rightarrow> 'h hdlc_link \<Rightarrow> 'h hdlc_link" where
  "wp_lip_tx_idle len tx_out l =
     (if tx_out > len then l
      else snd (chan_down (replicate len (if lineidle_mark (prot l) then 0xFF else next_idle (prot l))) l))"

lemma prot_sched [simp]: "prot (snd (wplip_trigger_bh l)) = prot l"
  by (simp add: wplip_trigger_bh_def)

lemma prot_upd_dev [simp]: "prot (upd_dev d f l) = prot l"
  by (simp add: upd_dev_def split: option.split)

lemma prot_chan_down [simp]: "prot (snd (chan_down skb l)) = prot l"
  by (simp add: chan_down_def wplip_callback_tx_down_def split: option.split)

text \<open>The loop over the queue; \<open>len\<close> is the length of the received buffer.\<close>

function hdlc_tx_loop :: "(nat \<Rightarrow> bool) \<Rightarrow> nat \<Rightarrow> nat \<Rightarrow> hdlc_engine \<Rightarrow> 'h hdlc_link \<Rightarrow> 'h hdlc_link" where
  "hdlc_tx_loop alloc len tx_out e l =
     (let eng = (\<lambda>e. upd_prot (\<lambda>p. p\<lparr>hdlc_eng := Some e\<rparr>)) in
      case tx_q (prot l) of
        [] \<Rightarrow> wp_lip_tx_idle len tx_out (eng e l)
      | skb # q \<Rightarrow>
          (case take_alloc alloc (upd_prot (\<lambda>p. p\<lparr>tx_q := q\<rparr>) l) of
             (mem, l1) \<Rightarrow>
               if \<not> mem then wp_lip_tx_idle len tx_out (eng e l1)
               else
                 (case wanpipe_hdlc_encode skb (wanpipe_hdlc_bkp e) of
                    (out, nxt, e1) \<Rightarrow>
                      (case chan_down out (upd_prot (\<lambda>p. p\<lparr>next_idle := nxt,
                              short_buf := (short_buf p \<or> length out > 2 * length skb)\<rparr>) l1) of
                         (err, l2) \<Rightarrow>
                           if err \<noteq> 0 then
                             let e2 = wanpipe_hdlc_restore e1
                             in upd_prot (\<lambda>p. p\<lparr>next_idle := tx_flag_idle (encoder e2),
                                                 tx_q := skb # tx_q p, hdlc_eng := Some e2\<rparr>) l2
                           else hdlc_tx_loop alloc len (tx_out + length out) e1 l2))))"
  by pat_completeness auto
termination
proof (relation "measure (\<lambda>(alloc, len, tx_out, e, l). length (tx_q (prot l)))", goal_cases)
  case (2 alloc len tx_out e l eng skb q mem l1 out y nxt e1 err l2)
  have "l2 = snd (chan_down out (upd_prot (\<lambda>p. p\<lparr>next_idle := nxt,
      short_buf := (short_buf p \<or> length out > 2 * length skb)\<rparr>) l1))"
    using 2(7) by (metis snd_conv)
  then have "prot l2 = (prot l1)\<lparr>next_idle := nxt,
      short_buf := (short_buf (prot l1) \<or> length out > 2 * length skb)\<rparr>" by (simp only: prot_chan_down) simp
  then have "tx_q (prot l2) = tx_q (prot l1)" by simp
  moreover have "tx_q (prot l1) = q" using 2 by (simp add: take_alloc_def)
  ultimately show ?case using 2(2) by simp
qed simp

declare hdlc_tx_loop.simps [simp del]

definition wp_lip_hdlc_rx ::
  "(lip_hdlc, 'h) lip_env \<Rightarrow> (nat \<Rightarrow> bool) \<Rightarrow> 'h hdlc_link \<Rightarrow> frame \<Rightarrow> int \<times> 'h hdlc_link" where
  "wp_lip_hdlc_rx E alloc l skb =
     (case hdlc_eng (prot l) of
        None \<Rightarrow> (0, l)
      | Some e \<Rightarrow>
          let e1 = snd (wanpipe_hdlc_decode skb e);
              ups = drop (length (packets_up (decoder e))) (packets_up (decoder e1));
              l1 = fold (hdlc_data_available E alloc) ups l
          in (0, hdlc_tx_loop alloc (length skb) 0 e1 l1))"

text \<open>The entry of the protocol table that \<open>wplip_init_prot\<close> makes.\<close>

definition lip_hdlc_iface ::
  "(lip_hdlc, 'h) lip_env \<Rightarrow> (nat \<Rightarrow> bool) \<Rightarrow> bool \<times> nat \<times> bool \<Rightarrow> (lip_hdlc, 'h) prot_iface" where
  "lip_hdlc_iface E alloc cfg =
     \<lparr>pi_tx = Some wp_lip_hdlc_tx, pi_rx = Some (wp_lip_hdlc_rx E alloc), pi_bh = None,
      pi_timer = Some wp_lip_hdlc_timer, pi_open = Some wp_lip_hdlc_open, pi_close = Some wp_lip_hdlc_close,
      pi_chan_register = Some (\<lambda>p d name raw. wp_register_lip_hdlc_chan (alloc (allocs p)) (alloc (Suc (allocs p)))
        d name cfg (if raw then WPLIP_RAW else WPLIP_IP) p),
      pi_chan_unregister = Some (\<lambda>p d. wp_unregister_lip_hdlc_chan p)\<rparr>"

definition hdlc_env ::
  "(lip_hdlc, 'h) lip_env \<Rightarrow> (nat \<Rightarrow> bool) \<Rightarrow> bool \<times> nat \<times> bool \<Rightarrow> (lip_hdlc, 'h) lip_env" where
  "hdlc_env E alloc cfg =
     E\<lparr>prot_ops := (\<lambda>n. if n = WANCONFIG_LIP_HDLC then Some (lip_hdlc_iface E alloc cfg) else None)\<rparr>"

section \<open>The contract\<close>

abbreviation hdlc_devs :: "lip_hdlc \<Rightarrow> nat set" where
  "hdlc_devs p \<equiv> set_option (hp_dev p)"

lemma rx_up_env: "wplip_prot_rx_up (hdlc_env E alloc cfg) = wplip_prot_rx_up E"
proof -
  have "wplip_data_rx_up (hdlc_env E alloc cfg) d skb l = wplip_data_rx_up E d skb l" for d skb and l :: "'a hdlc_link"
    by (simp add: wplip_data_rx_up_def hdlc_env_def split: option.split)
  then show ?thesis by (intro ext) (simp add: wplip_prot_rx_up_def split: option.split)
qed

lemma own_callback: "hdlc_devs (f (prot l)) \<subseteq> hdlc_devs (prot l) \<Longrightarrow> callback hdlc_devs E l (upd_prot f l)"
  using callback.own [of hdlc_devs "f (prot l)" l] by simp

lemma chan_down_callbacks: "callbacks hdlc_devs E l (snd (chan_down skb l))"
  by (auto simp: chan_down_def intro: callback.chan_down split: option.split)

lemma idle_callbacks: "callbacks hdlc_devs E l (wp_lip_tx_idle len tx_out l)"
  by (simp add: wp_lip_tx_idle_def chan_down_callbacks)

lemma take_alloc_callback: "callback hdlc_devs E l (snd (take_alloc alloc l))"
  unfolding take_alloc_def snd_conv by (rule own_callback) simp

lemma data_available_callbacks:
  "callbacks hdlc_devs (hdlc_env E alloc cfg) l (hdlc_data_available E alloc data l)"
proof -
  have "callbacks hdlc_devs (hdlc_env E alloc cfg) m (wp_lip_hdlc_data_indication E skb m)" for m :: "'a hdlc_link" and skb
    using callback.up [of _ hdlc_devs m "hdlc_env E alloc cfg" skb "hp_type (prot m)"]
    by (auto simp: wp_lip_hdlc_data_indication_def rx_up_env split: option.split)
  with take_alloc_callback [of "hdlc_env E alloc cfg" l alloc] show ?thesis
    by (auto simp: hdlc_data_available_def Let_def split: prod.split
        intro: converse_rtranclp_into_rtranclp)
qed

lemma tx_loop_callbacks: "callbacks hdlc_devs E l (hdlc_tx_loop alloc len tx_out e l)"
proof (induction alloc len tx_out e l rule: hdlc_tx_loop.induct)
  case (1 alloc len tx_out e l)
  let ?eng = "\<lambda>e. upd_prot (\<lambda>p. p\<lparr>hdlc_eng := Some e\<rparr>)"
  have idle: "callbacks hdlc_devs E m (wp_lip_tx_idle len tx_out (?eng e m))" for m
    by (rule converse_rtranclp_into_rtranclp [OF own_callback idle_callbacks]) simp
  show ?case
  proof (cases "tx_q (prot l)")
    case Nil
    then show ?thesis using idle by (simp add: hdlc_tx_loop.simps [of alloc len tx_out e l])
  next
    case (Cons skb q)
    let ?m = "upd_prot (\<lambda>p. p\<lparr>tx_q := q\<rparr>) l"
    obtain mem l1 where a: "take_alloc alloc ?m = (mem, l1)" by (cases "take_alloc alloc ?m")
    have "callback hdlc_devs E l ?m" by (rule own_callback) simp
    moreover have "callback hdlc_devs E ?m l1" using take_alloc_callback [of E ?m alloc] a by simp
    ultimately have l1: "callbacks hdlc_devs E l l1" by simp
    show ?thesis
    proof (cases mem)
      case False
      then show ?thesis
        using rtranclp_trans [OF l1 idle] by (simp add: hdlc_tx_loop.simps [of alloc len tx_out e l] Cons a)
    next
      case True
      obtain out nxt e1 where o: "wanpipe_hdlc_encode skb (wanpipe_hdlc_bkp e) = (out, nxt, e1)"
        by (cases "wanpipe_hdlc_encode skb (wanpipe_hdlc_bkp e)")
      let ?n = "upd_prot (\<lambda>p. p\<lparr>next_idle := nxt,
                  short_buf := (short_buf p \<or> length out > 2 * length skb)\<rparr>) l1"
      obtain err l2 where c: "chan_down out ?n = (err, l2)" by (cases "chan_down out ?n")
      have "callback hdlc_devs E l1 ?n" by (rule own_callback) simp
      moreover have "callbacks hdlc_devs E ?n l2" using chan_down_callbacks [of E ?n out] c by simp
      ultimately have l2: "callbacks hdlc_devs E l l2" using l1 by (meson rtranclp.rtrancl_into_rtrancl rtranclp_trans)
      show ?thesis
      proof (cases "err = 0")
        case True
        with "1.IH" [OF refl Cons a [symmetric] _ o [symmetric] refl c [symmetric]] l2 \<open>mem\<close>
        show ?thesis
          by (simp add: hdlc_tx_loop.simps [of alloc len tx_out e l] Cons a o c)
      next
        case False
        have "callback hdlc_devs E l2 (upd_prot (\<lambda>p. p\<lparr>next_idle := x, tx_q := skb # tx_q p, hdlc_eng := y\<rparr>) l2)" for x y
          by (rule own_callback) simp
        with l2 False \<open>mem\<close> show ?thesis
          by (simp add: hdlc_tx_loop.simps [of alloc len tx_out e l] Cons a o c Let_def
              rtranclp.rtrancl_into_rtrancl)
      qed
    qed
  qed
qed

lemma hdlc_rx_callbacks:
  "callbacks hdlc_devs (hdlc_env E alloc cfg) l (snd (wp_lip_hdlc_rx E alloc l skb))"
proof -
  have f: "callbacks hdlc_devs (hdlc_env E alloc cfg) l (fold (hdlc_data_available E alloc) ups l)" for ups
    by (induction ups arbitrary: l) (auto intro: rtranclp_trans data_available_callbacks)
  show ?thesis
    by (auto simp: wp_lip_hdlc_rx_def Let_def split: option.split
        intro: rtranclp_trans [OF f tx_loop_callbacks])
qed

lemma open_callbacks: "callbacks hdlc_devs E l (snd (wp_lip_hdlc_open l d))"
  by (auto simp: wp_lip_hdlc_open_def wp_lip_hdlc_connect_indication_def
      intro: callback.chan_state split: option.split)

lemma hdlc_chan_register:
  "wp_register_lip_hdlc_chan mem qmem d name cfg ty p = Some q \<Longrightarrow> hp_dev q = Some d"
  by (auto simp: wp_register_lip_hdlc_chan_def split: prod.splits option.splits if_splits)

interpretation hdlc: lip_protocol hdlc_devs "hdlc_env E alloc cfg" for E :: "(lip_hdlc, 'h) lip_env" and alloc cfg
proof
  fix n i l
  assume i: "prot_ops (hdlc_env E alloc cfg) n = Some i"
  then have i: "i = lip_hdlc_iface E alloc cfg" by (simp add: hdlc_env_def split: if_splits)
  show "pi_rx i = Some f \<Longrightarrow> callbacks hdlc_devs (hdlc_env E alloc cfg) l (snd (f l skb))" for f skb
    by (auto simp: i lip_hdlc_iface_def intro: hdlc_rx_callbacks)
  show "pi_tx i = Some f' \<Longrightarrow> callbacks hdlc_devs (hdlc_env E alloc cfg) l (snd (f' l d skb ty))" for f' d skb ty
    by (auto simp: i lip_hdlc_iface_def wp_lip_hdlc_tx_def intro!: own_callback)
  show "pi_bh i = Some g \<Longrightarrow> callbacks hdlc_devs (hdlc_env E alloc cfg) l (g l d)" for g d
    by (simp add: i lip_hdlc_iface_def)
  show "pi_timer i = Some g' \<Longrightarrow> callbacks hdlc_devs (hdlc_env E alloc cfg) l (g' l up)" for g' up
    by (auto simp: i lip_hdlc_iface_def wp_lip_hdlc_timer_def)
  show "pi_open i = Some f'' \<Longrightarrow> fst (f'' l d) = 0 \<and> callbacks hdlc_devs (hdlc_env E alloc cfg) l (snd (f'' l d))"
    for f'' d
    by (auto simp: i lip_hdlc_iface_def intro: open_callbacks) (simp add: wp_lip_hdlc_open_def)
  show "pi_close i = Some f'' \<Longrightarrow> callbacks hdlc_devs (hdlc_env E alloc cfg) l (snd (f'' l d))" for f'' d
    by (auto simp: i lip_hdlc_iface_def wp_lip_hdlc_close_def)
  show "pi_chan_register i = Some r \<Longrightarrow> r p d name raw = Some q \<Longrightarrow> hdlc_devs q \<subseteq> insert d (hdlc_devs p)"
    for r p d name raw q
    by (auto simp: i lip_hdlc_iface_def dest: hdlc_chan_register)
  show "pi_chan_unregister i = Some u \<Longrightarrow> hdlc_devs (u p d) \<subseteq> hdlc_devs p - {d}" for u p d
    by (auto simp: i lip_hdlc_iface_def wp_unregister_lip_hdlc_chan_def)
qed

end
