(* ===== verification/Lip_Props.thy ===== *)
theory Lip_Props
  imports Lip_Round Lip_Hdlc
begin

text \<open>
  The properties of the LIP link, for any protocol that keeps the contract of
  \<open>lip_protocol\<close>; the witnesses run them with the HDLC protocol.
\<close>

section \<open>A link with the HDLC protocol\<close>

text \<open>The device below takes every frame, the receivers take everything; the clock is a parameter.\<close>

definition lip_ex_env :: "(nat \<Rightarrow> u64) \<Rightarrow> (lip_hdlc, unit) lip_env" where
  "lip_ex_env ticks = hdlc_env \<lparr>prot_ops = (\<lambda>_. None), low_stopped = (\<lambda>_ _. False), low_xmit = (\<lambda>h _ _. (0, h)),
     up_rx = (\<lambda>_ _. 0), api_headroom = (\<lambda>_. True), api_hdr_len = 16, system_ticks = ticks\<rparr>
     (\<lambda>_. True) (False, 0, False)"

definition lip_ex_dev :: lip_dev where
  "lip_ex_dev = (wplip_create_lipdev API \<lparr>cf_name = ''w1'', cf_usedby = Some API, cf_protocol = WANCONFIG_LIP_HDLC,
     cf_up = False, cf_qlen = 100, cf_up_lip = None\<rparr>)
     \<lparr>ld_prot := True, ld_tx_queue := [[1], [2]]\<rparr>"

definition lip_ex_link :: "(lip_hdlc, unit) lip_link" where
  "lip_ex_link = (zero_link ''l1'' 0 zero_hdlc ())
     \<lparr>lk_protocol := WANCONFIG_LIP_HDLC, lk_registered := True, list_head_ifdev := [7, 8],
      devs := [7 \<mapsto> lip_ex_dev, 8 \<mapsto> lip_ex_dev\<lparr>ld_tx_queue := [[3]]\<rparr>], dev_cnt := 2,
      list_head_tx_ifdev := [1], tx_dev_cnt := 1, tx_queue := [[9]], carrier_state := WAN_CONNECTED\<rparr>"

lemma lip_ex_env: "lip_protocol hdlc_devs (lip_ex_env ticks)"
  unfolding lip_ex_env_def by (rule hdlc.lip_protocol_axioms)

lemma dev_ok_lip_ex: "dev_ok lip_ex_dev" "dev_ok (lip_ex_dev\<lparr>ld_tx_queue := [[3]]\<rparr>)"
  by (simp_all add: dev_ok_def lip_ex_dev_def wplip_create_lipdev_def MAX_TX_BUF_def)

lemma lip_ex_link: "lip_ok hdlc_devs lip_ex_link"
  by (auto simp: lip_ok_def lip_ex_link_def zero_link_def zero_hdlc_def MAX_TX_BUF_def dev_ok_lip_ex split: if_splits)

lemma lip_ex_calm: "calm_clock (lip_ex_env (\<lambda>_. 0))" "no_bh (lip_ex_env ticks)" "accepting (lip_ex_env ticks) lip_ex_link"
  by (auto simp: calm_clock_def no_bh_def accepting_def lip_ex_env_def lip_ex_link_def hdlc_env_def lip_hdlc_iface_def
      split: if_splits)

section \<open>Properties\<close>


text \<open>
  C8. The transmission of the bottom half ends, on every well formed link: the loop round
  the devices, which the code leaves only when it is back at \<open>cur_tx\<close>, visits each device
  of the list at most once, in the order of the list from \<open>cur_tx\<close> on, or from the first
  if \<open>cur_tx\<close> is null.
\<close>

theorem lip_transmit_ends:
  assumes "lip_protocol D E" "lip_ok D l"
  shows "wplip_bh_transmit E l = Some (bh_pass E l)"
  by (rule lip_protocol.bh_transmit_pass [OF assms])

theorem lip_transmit_ends_witness: "wplip_bh_transmit (lip_ex_env (\<lambda>_. 0)) lip_ex_link = Some (bh_pass (lip_ex_env (\<lambda>_. 0)) lip_ex_link)"
  by (rule lip_transmit_ends [OF lip_ex_env lip_ex_link])

text \<open>
  C3. The bottom half loses no frame and sends none twice: a run returns, the frames it hands
  to the device below are, queue by queue, the first ones of the queue in their order, what
  it leaves of each queue follows them, and only frames a protocol added in the run come
  after. A refused frame is back at the head of its queue. Every received frame has gone to
  the protocol.
\<close>

theorem lip_frames_kept:
  assumes "lip_protocol D E" "lip_ok D l"
  shows "\<exists>m log. wplip_link_bh E l = Some m \<and> wire m = wire l @ map snd log \<and>
    (\<forall>s. \<exists>add. src_queue l s @ add = sent_by s log @ src_queue m s) \<and>
    (wan_test_bit WPLIP_LINK_DOWN l \<or> rx_queue m = [])"
  using lip_protocol.bh_ends [OF assms] by (auto simp: moved_def)

theorem lip_frames_kept_witness:
  "\<exists>m log. wplip_link_bh (lip_ex_env (\<lambda>_. 0)) lip_ex_link = Some m \<and> wire m = wire lip_ex_link @ map snd log \<and>
    (\<forall>s. \<exists>add. src_queue lip_ex_link s @ add = sent_by s log @ src_queue m s) \<and>
    (wan_test_bit WPLIP_LINK_DOWN lip_ex_link \<or> rx_queue m = [])"
  by (rule lip_frames_kept [OF lip_ex_env lip_ex_link])



text \<open>
  C6. No frame is forgotten: when a run of the bottom half is not cut off, then a frame that is
  still waiting, on the queue of the link or of a device that is not being removed, or a
  received one, has the tasklet scheduled again, or the link waits for the kick of the device
  below, which schedules it.
\<close>

theorem lip_no_stall:
  assumes "lip_protocol D E" "lip_ok D l" "no_bh E" "calm_clock E"
    and "\<not> wan_test_bit WPLIP_LINK_DOWN l" "wplip_link_bh E l = Some m"
    and "tx_queue m \<noteq> [] \<or> rx_queue m \<noteq> [] \<or> (\<exists>d \<in> set (list_head_ifdev m). waiting m d \<noteq> [])"
  shows "task_scheduled m \<or> wan_test_bit WPLIP_BH_AWAITING_KICK m"
proof -
  let ?l = "wan_set_bit WPLIP_BH_RUNNING (l\<lparr>task_scheduled := False\<rparr>)"
  have "lip_ok D ?l" using assms(2) by simp
  from lip_protocol.bh_receive_run [OF assms(1) this] obtain r where r: "wplip_bh_receive E ?l = Some r"
    "lip_ok D r" "rx_queue r = []" "tq_working r = tq_working ?l" by blast
  let ?p = "snd (bh_pass E r)"
  have m: "m = snd (wplip_retrigger_bh (wan_clear_bit WPLIP_BH_RUNNING ?p))"
    using assms(5,6) r(1) lip_protocol.bh_transmit_pass [OF assms(1) r(2)]
    by (auto simp: wplip_link_bh_def Let_def case_prod_unfold)
  have down: "\<not> wan_test_bit WPLIP_LINK_DOWN r" using r(4) assms(5) by simp
  have rx: "rx_queue ?p = []" using lip_protocol.bh_pass_drains(3) [OF assms(1) r(2)] r(3) by simp
  have same: "tx_queue m = tx_queue ?p" "rx_queue m = []" "list_head_ifdev m = list_head_ifdev ?p"
    "waiting m = waiting ?p" "wan_test_bit WPLIP_BH_AWAITING_KICK m = wan_test_bit WPLIP_BH_AWAITING_KICK ?p"
    using rx by (simp_all add: m wplip_retrigger_bh_def wplip_trigger_bh_def)
  have trig: "task_scheduled m \<or> wan_test_bit WPLIP_BH_AWAITING_KICK m"
    if "wan_test_bit WPLIP_MORE_LINK_TX ?p" "\<not> wan_test_bit WPLIP_LINK_DOWN ?p"
    using that by (auto simp: m wplip_retrigger_bh_def wplip_trigger_bh_def)
  show ?thesis
  proof (cases "wan_test_bit WPLIP_BH_AWAITING_KICK r \<and> \<not> wan_test_bit WPLIP_KICK r")
    case True
    then show ?thesis using same(5) by (simp add: bh_pass_wait)
  next
    case False
    let ?t0 = "system_ticks E (ticks_read r)"
    obtain go l3 where q: "bh_link_queue E ?t0 (bh_begin r) = (go, l3)" "devs l3 = devs r"
      "ticks_read r \<le> ticks_read l3" "list_head_ifdev l3 = list_head_ifdev r" "cur_tx l3 = cur_tx r"
      "if go then tx_queue l3 = [] \<and> tq_working l3 = tq_working (bh_begin r)
       else tq_working l3 = insert WPLIP_BH_AWAITING_KICK (tq_working (bh_begin r))"
      using bh_link_queue_left [OF assms(4) refl, of "ticks_read r" "bh_begin r"] by auto
    have pass: "bh_pass E r = bh_exit (if go \<and> list_head_ifdev l3 \<noteq> []
             then bh_walk E ?t0 (rotation (bh_start l3) (list_head_ifdev l3)) (l3\<lparr>cur_tx := Some (bh_start l3)\<rparr>)
             else l3)"
      using False q(1) by (intro bh_pass_run) auto
    let ?ds = "rotation (bh_start l3) (list_head_ifdev l3)"
    let ?m3 = "l3\<lparr>cur_tx := Some (bh_start l3)\<rparr>"
    let ?w = "bh_walk E ?t0 ?ds ?m3"
    have ds: "distinct ?ds" "set ?ds \<subseteq> dom (devs ?m3)" using r(2) q(2,4) by (simp_all add: lip_ok_def)
    consider "\<not> go" | go "list_head_ifdev l3 = []" | go "list_head_ifdev l3 \<noteq> []" by blast
    then show ?thesis
    proof cases
      case 1
      then show ?thesis using same(5) q(6) by (simp add: pass bh_exit_def Let_def)
    next
      case 2
      then have "tx_queue m = []" "list_head_ifdev m = []"
        using same(1,3) q(6) by (simp_all add: pass bh_exit_def Let_def)
      then show ?thesis using assms(7) same(2) by simp
    next
      case 3
      have p: "?p = snd (bh_exit ?w)" using 3 by (simp add: pass)
      have "tx_queue ?m3 = []" using 3 q(6) by simp
      with bh_walk_left [OF assms(3,4) ds refl] q(3)
      have "wan_test_bit WPLIP_BH_AWAITING_KICK ?w \<or> (tx_queue ?w = [] \<and>
          ((\<exists>d \<in> set ?ds. waiting ?w d \<noteq> []) \<longrightarrow> wan_test_bit WPLIP_MORE_LINK_TX ?w))" by auto
      then show ?thesis
      proof
        assume "wan_test_bit WPLIP_BH_AWAITING_KICK ?w"
        then show ?thesis using same(5) by (simp add: p bh_exit_def Let_def)
      next
        assume w: "tx_queue ?w = [] \<and>
          ((\<exists>d \<in> set ?ds. waiting ?w d \<noteq> []) \<longrightarrow> wan_test_bit WPLIP_MORE_LINK_TX ?w)"
        then have pw: "?p = ?w" by (simp add: p bh_exit_def Let_def)
        have "list_head_ifdev ?w = list_head_ifdev l3"
          using lip_protocol.bh_walk_drains [OF assms(1) ds(2), of ?t0] drains_same(1) by fastforce
        then have "\<exists>d \<in> set ?ds. waiting ?w d \<noteq> []"
          using assms(7) same(1-4) w by (simp add: pw)
        moreover have "\<not> wan_test_bit WPLIP_LINK_DOWN ?w"
          using bh_walk_down [OF assms(3) ds(2), of ?t0] down 3(1) q(6) by simp
        ultimately show ?thesis using w trig by (simp add: pw)
      qed
    qed
  qed
qed

definition lip_ex_after :: "(lip_hdlc, unit) lip_link" where
  "lip_ex_after = the (wplip_link_bh (lip_ex_env (\<lambda>_. 0)) lip_ex_link)"

text \<open>The second frame of the device 7 waits after the run.\<close>

lemma lip_ex_after:
  "wplip_link_bh (lip_ex_env (\<lambda>_. 0)) lip_ex_link = Some lip_ex_after" "waiting lip_ex_after 7 = [[2]]"
  "list_head_ifdev lip_ex_after = [7, 8]"
proof -
  let ?E = "lip_ex_env (\<lambda>_. 0)"
  let ?l = "wan_set_bit WPLIP_BH_RUNNING (lip_ex_link\<lparr>task_scheduled := False\<rparr>)"
  have "rx_queue lip_ex_link = []" by (simp add: lip_ex_link_def zero_link_def)
  then have rx: "wplip_bh_receive ?E ?l = Some ?l" by (subst wplip_bh_receive.simps) simp
  have tr: "wplip_bh_transmit ?E ?l = Some (bh_pass ?E ?l)"
    using lip_protocol.bh_transmit_pass [OF lip_ex_env, of ?l] lip_ex_link by simp
  have 1: "wplip_link_bh ?E lip_ex_link =
      Some (snd (wplip_retrigger_bh (wan_clear_bit WPLIP_BH_RUNNING (snd (bh_pass ?E ?l)))))"
    using rx tr by (simp add: wplip_link_bh_def Let_def case_prod_unfold lip_ex_link_def zero_link_def)
  have "waiting (snd (bh_pass ?E ?l)) 7 = [[2]] \<and> list_head_ifdev (snd (bh_pass ?E ?l)) = [7, 8]"
    by (simp add: bh_pass_def read_ticks_def lip_ex_link_def zero_link_def Let_def bh_link_queue.simps
        wplip_data_tx_down_def lip_ex_env_def hdlc_env_def rotation_def bh_start_def bh_dev_def upd_dev_def lip_ex_dev_def
        wplip_create_lipdev_def bh_wake_def wplip_prot_kick_def prot_entry_def lip_hdlc_iface_def
        WANCONFIG_LIP_HDLC_def MAX_LIP_PROTOCOLS_def bh_exit_def waiting_def)
  then show "wplip_link_bh ?E lip_ex_link = Some lip_ex_after" "waiting lip_ex_after 7 = [[2]]" "list_head_ifdev lip_ex_after = [7, 8]"
    using 1 unfolding lip_ex_after_def by (simp_all add: wplip_retrigger_bh_def wplip_trigger_bh_def)
qed

theorem lip_no_stall_witness: "task_scheduled lip_ex_after \<or> wan_test_bit WPLIP_BH_AWAITING_KICK lip_ex_after"
  by (rule lip_no_stall [OF lip_ex_env lip_ex_link lip_ex_calm(2,1) _ lip_ex_after(1)])
    (simp_all add: lip_ex_after(2,3), simp add: lip_ex_link_def zero_link_def)

text \<open>
  A run that is cut off may forget the frames: if more than ten ticks pass before the first
  device, nothing is sent, the tasklet is not scheduled again and the link does not wait for
  a kick, whatever the devices have waiting, as \<open>WPLIP_MORE_LINK_TX\<close> is cleared before and
  set only after the visit of a device.
\<close>

theorem lip_squeeze_stalls:
  assumes "lip_protocol D E" "lip_ok D l" "list_head_ifdev l \<noteq> []" "tx_queue l = []" "rx_queue l = []"
    and "\<not> wan_test_bit WPLIP_LINK_DOWN l" "\<not> wan_test_bit WPLIP_BH_AWAITING_KICK l"
    and "system_ticks E (Suc (ticks_read l)) - system_ticks E (ticks_read l) > 10"
  shows "\<exists>m. wplip_link_bh E l = Some m \<and> wire m = wire l \<and> waiting m = waiting l \<and>
    \<not> task_scheduled m \<and> \<not> wan_test_bit WPLIP_BH_AWAITING_KICK m"
proof -
  let ?l = "wan_set_bit WPLIP_BH_RUNNING (l\<lparr>task_scheduled := False\<rparr>)"
  let ?b = "bh_begin ?l"
  have rx: "wplip_bh_receive E ?l = Some ?l" using assms(5) by (subst wplip_bh_receive.simps) simp
  have q: "bh_link_queue E (system_ticks E (ticks_read ?l)) ?b = (True, ?b)"
    using assms(4) by (simp add: bh_link_queue.simps)
  obtain d ds where ds: "rotation (bh_start ?b) (list_head_ifdev l) = d # ds"
    using assms(3) set_rotation by (metis list.exhaust set_empty)
  have tr: "wplip_bh_transmit E ?l = Some (bh_pass E ?l)"
    using lip_protocol.bh_transmit_pass [OF assms(1), of ?l] assms(2) by simp
  have "bh_pass E ?l = bh_exit (?b\<lparr>ticks_read := Suc (ticks_read ?b), cur_tx := Some d\<rparr>)"
    using bh_pass_run [OF _ q] assms(3,7,8) ds by (simp add: read_ticks_def)
  with rx tr assms(4-7) show ?thesis
    by (simp add: wplip_link_bh_def bh_exit_def Let_def wplip_retrigger_bh_def bh_begin_def)
qed

theorem lip_squeeze_stalls_witness:
  "\<exists>m. wplip_link_bh (lip_ex_env (\<lambda>n. 11 * of_nat n)) (lip_ex_link\<lparr>tx_queue := []\<rparr>) = Some m \<and>
    wire m = wire (lip_ex_link\<lparr>tx_queue := []\<rparr>) \<and> waiting m = waiting (lip_ex_link\<lparr>tx_queue := []\<rparr>) \<and>
    \<not> task_scheduled m \<and> \<not> wan_test_bit WPLIP_BH_AWAITING_KICK m"
proof (rule lip_squeeze_stalls [OF lip_ex_env])
  show "lip_ok hdlc_devs (lip_ex_link\<lparr>tx_queue := []\<rparr>)" using lip_ex_link by (auto simp: lip_ok_def)
qed (simp_all add: lip_ex_link_def zero_link_def lip_ex_env_def hdlc_env_def)

text \<open>
  C35. The removal of a device leaves a window: \<open>wplip_if_unreg\<close> clears \<open>cur_tx\<close> under
  \<open>bh_lock\<close>, but takes the device off the list after it has released the lock. A run of the
  bottom half in between points \<open>cur_tx\<close> at the device again, even though it skips it, and
  the first run after the device is freed reads the freed memory.
\<close>

theorem lip_removal_race:
  assumes "lip_protocol D E" "lip_ok D l" "list_head_ifdev l = [d]"
    and "wplip_if_unreg_begin E up_err d l = (0, l1)" "tx_queue l1 = []" "rx_queue l1 = []"
    and "\<not> wan_test_bit WPLIP_LINK_DOWN l" "\<not> wan_test_bit WPLIP_BH_AWAITING_KICK l"
  shows "\<exists>l2 m. wplip_link_bh E l1 = Some l2 \<and> cur_tx (wplip_if_unreg_end E d l2) = Some d \<and>
    devs (wplip_if_unreg_end E d l2) d = None \<and>
    wplip_link_bh E (wplip_if_unreg_end E d l2) = Some m \<and> lip_fault m"
proof -
  have "devs l d \<noteq> None" using assms(2,3) by (auto simp: lip_ok_def)
  then obtain v where v: "devs l d = Some v" by blast
  from lip_protocol.unreg_begin [OF assms(1,2) v assms(4)] obtain w where u: "lip_ok D l1" "cur_tx l1 = None"
    "list_head_ifdev l1 = [d]" "tq_working l1 = tq_working l" "devs l1 d = Some w" "ld_unregister w"
    using assms(3) by auto
  let ?l = "wan_set_bit WPLIP_BH_RUNNING (l1\<lparr>task_scheduled := False\<rparr>)"
  let ?b = "bh_begin ?l"
  have rx: "wplip_bh_receive E ?l = Some ?l" using assms(6) by (subst wplip_bh_receive.simps) simp
  have q: "bh_link_queue E (system_ticks E (ticks_read ?l)) ?b = (True, ?b)"
    using assms(5) by (simp add: bh_link_queue.simps)
  have tr: "wplip_bh_transmit E ?l = Some (bh_pass E ?l)"
    using lip_protocol.bh_transmit_pass [OF assms(1), of ?l] u(1) by simp
  have start: "bh_start ?b = d" using u(2,3) by (simp add: bh_start_def)
  have "rotation d [d] = [d]" by (simp add: rotation_def)
  then have pass: "bh_pass E ?l = bh_exit (bh_walk E (system_ticks E (ticks_read ?l)) [d] (?b\<lparr>cur_tx := Some d\<rparr>))"
    using bh_pass_run [OF _ q] u(3,4) assms(8) start by (simp del: bh_walk.simps)
  define w1 where "w1 = bh_walk E (system_ticks E (ticks_read ?l)) [d] (?b\<lparr>cur_tx := Some d\<rparr>)"
  have "bh_dev E d (?b\<lparr>cur_tx := Some d, ticks_read := n\<rparr>) = (True, ?b\<lparr>cur_tx := Some d, ticks_read := n\<rparr>)" for n
    using u(5,6) by (simp add: bh_dev_def)
  then have w1: "cur_tx w1 = Some d" "devs w1 = devs l1" "tx_queue w1 = []" "rx_queue w1 = []"
    "tq_working w1 = tq_working ?b"
    using assms(5,6) by (simp_all add: w1_def read_ticks_def) (simp_all add: bh_begin_def)
  have p: "snd (bh_pass E ?l) = w1"
    unfolding pass w1_def [symmetric] using w1(3) by (simp add: bh_exit_def Let_def)
  define l2 where "l2 = snd (wplip_retrigger_bh (wan_clear_bit WPLIP_BH_RUNNING (snd (bh_pass E ?l))))"
  have 1: "wplip_link_bh E l1 = Some l2"
    using rx tr assms(7) u(4) by (simp add: wplip_link_bh_def l2_def case_prod_unfold Let_def)
  have l2: "cur_tx l2 = Some d" "devs l2 d = Some w" "tx_queue l2 = []" "rx_queue l2 = []"
    "\<not> wan_test_bit WPLIP_LINK_DOWN l2" "\<not> wan_test_bit WPLIP_BH_AWAITING_KICK l2"
    using w1 u(4,5) assms(7,8) unfolding l2_def p by (simp_all add: wplip_retrigger_bh_def)
  let ?e = "wplip_if_unreg_end E d l2"
  have e: "cur_tx ?e = Some d" "devs ?e d = None" "tx_queue ?e = []" "rx_queue ?e = []"
    "\<not> wan_test_bit WPLIP_LINK_DOWN ?e" "\<not> wan_test_bit WPLIP_BH_AWAITING_KICK ?e"
    using l2 by (simp_all add: wplip_if_unreg_end_def wplip_free_lipdev_def wplip_remove_lipdev_def
        wplip_unreg_lipdev_prot_def upd_dev_def split: sum.split option.split)
  obtain m where m: "wplip_link_bh E ?e = Some m" "lip_fault m"
  proof -
    let ?r = "wan_set_bit WPLIP_BH_RUNNING (?e\<lparr>task_scheduled := False\<rparr>)"
    have "wplip_bh_receive E ?r = Some ?r" using e(4) by (subst wplip_bh_receive.simps) simp
    then show ?thesis
      using that e by (auto simp: wplip_link_bh_def wplip_bh_transmit_def read_ticks_def bh_link_queue.simps
          bh_exit_def Let_def wplip_retrigger_bh_def)
  qed
  show ?thesis using 1 e(1,2) m by blast
qed

definition lip_ex_one :: "(lip_hdlc, unit) lip_link" where
  "lip_ex_one = lip_ex_link\<lparr>list_head_ifdev := [7], dev_cnt := 1, tx_queue := []\<rparr>"

theorem lip_removal_race_witness:
  "\<exists>l2 m. wplip_link_bh (lip_ex_env (\<lambda>_. 0)) (snd (wplip_if_unreg_begin (lip_ex_env (\<lambda>_. 0)) 0 7 lip_ex_one)) = Some l2 \<and>
    cur_tx (wplip_if_unreg_end (lip_ex_env (\<lambda>_. 0)) 7 l2) = Some 7 \<and>
    devs (wplip_if_unreg_end (lip_ex_env (\<lambda>_. 0)) 7 l2) 7 = None \<and>
    wplip_link_bh (lip_ex_env (\<lambda>_. 0)) (wplip_if_unreg_end (lip_ex_env (\<lambda>_. 0)) 7 l2) = Some m \<and> lip_fault m"
proof (rule lip_removal_race [OF lip_ex_env])
  show "lip_ok hdlc_devs lip_ex_one" using lip_ex_link by (auto simp: lip_ok_def lip_ex_one_def lip_ex_link_def zero_link_def zero_hdlc_def)
  show "wplip_if_unreg_begin (lip_ex_env (\<lambda>_. 0)) 0 7 lip_ex_one =
      (0, snd (wplip_if_unreg_begin (lip_ex_env (\<lambda>_. 0)) 0 7 lip_ex_one))"
    by (simp add: wplip_if_unreg_begin_def lip_ex_one_def lip_ex_link_def lip_ex_dev_def wplip_create_lipdev_def Let_def)
qed (simp_all add: lip_ex_one_def lip_ex_link_def zero_link_def wplip_if_unreg_begin_def lip_ex_dev_def wplip_create_lipdev_def
    Let_def upd_dev_def wplip_close_lipdev_prot_def lip_ex_env_def hdlc_env_def lip_hdlc_iface_def
    wp_lip_hdlc_close_def prot_entry_def WANCONFIG_LIP_HDLC_def MAX_LIP_PROTOCOLS_def)





end
