(* ===== verification/Lip_Hdlc_Props.thy ===== *)
theory Lip_Hdlc_Props
  imports Lip_Props
begin

text \<open>
  The HDLC protocol end to end: the frames given to \<open>wp_lip_hdlc_tx\<close> and the buffers that
  its link hands to its device, read by the engine at the far end of the line.
\<close>

section \<open>A session\<close>

text \<open>
  Calls on the channel of the device \<open>d\<close>: a frame to send, a received buffer, and the
  bottom half that takes \<open>n\<close> frames from the queue of the device. The session keeps the
  frames the protocol accepted and the buffers it put on the queue.
\<close>

datatype hdlc_act = Queue frame | Receive frame | Lower nat

definition dev_queue :: "nat \<Rightarrow> ('p, 'h) lip_link \<Rightarrow> frame list" where
  "dev_queue d l = (case devs l d of Some v \<Rightarrow> ld_tx_queue v | None \<Rightarrow> [])"

record 'h hdlc_session =
  se_link :: "'h hdlc_link"
  se_accepted :: "frame list"
  se_handed :: "frame list"

fun hdlc_act1 ::
  "(lip_hdlc, 'h) lip_env \<Rightarrow> (nat \<Rightarrow> bool) \<Rightarrow> nat \<Rightarrow> hdlc_act \<Rightarrow> 'h hdlc_session \<Rightarrow> 'h hdlc_session" where
  "hdlc_act1 E alloc d (Queue skb) s =
     (let (err, l) = wp_lip_hdlc_tx (se_link s) d skb WPLIP_RAW
      in s\<lparr>se_link := l, se_accepted := se_accepted s @ (if err = 0 then [skb] else [])\<rparr>)"
| "hdlc_act1 E alloc d (Receive buf) s =
     (let l = snd (wp_lip_hdlc_rx E alloc (se_link s) buf)
      in s\<lparr>se_link := l,
           se_handed := se_handed s @ drop (length (dev_queue d (se_link s))) (dev_queue d l)\<rparr>)"
| "hdlc_act1 E alloc d (Lower n) s =
     s\<lparr>se_link := upd_dev d (\<lambda>v. v\<lparr>ld_tx_queue := drop n (ld_tx_queue v)\<rparr>) (se_link s)\<rparr>"

text \<open>The calls \<open>acts\<close>, from the link \<open>l\<close>.\<close>

definition run_session ::
  "(lip_hdlc, 'h) lip_env \<Rightarrow> (nat \<Rightarrow> bool) \<Rightarrow> nat \<Rightarrow> hdlc_act list \<Rightarrow> 'h hdlc_link \<Rightarrow> 'h hdlc_session" where
  "run_session E alloc d acts l =
     fold (hdlc_act1 E alloc d) acts \<lparr>se_link = l, se_accepted = [], se_handed = []\<rparr>"

definition decode_all :: "frame list \<Rightarrow> hdlc_engine \<Rightarrow> hdlc_engine" where
  "decode_all = fold (\<lambda>buf e. snd (wanpipe_hdlc_decode buf e))"

lemma decode_all_simps [simp]:
  "decode_all [] e = e" "decode_all (b # bs) e = decode_all bs (snd (wanpipe_hdlc_decode b e))"
  "decode_all (bs @ cs) e = decode_all cs (decode_all bs e)"
  by (simp_all add: decode_all_def)

section \<open>The line\<close>

text \<open>A wire invariant looks at the encoder of the sender only.\<close>

lemma wire_inv_tx:
  assumes "wire_inv ps (e, rx)" "encoder f = encoder e" "seven_bit_hdlc f = seven_bit_hdlc e"
  shows "wire_inv ps (f, rx)"
  using assms by (simp add: wire_inv_def)

lemma decode_encoder:
  "encoder (snd (wanpipe_hdlc_decode buf e)) = encoder e"
  "seven_bit_hdlc (snd (wanpipe_hdlc_decode buf e)) = seven_bit_hdlc e"
  by (simp_all add: wanpipe_hdlc_decode_def case_prod_unfold Let_def)

lemma wire_bkp: "wire_inv ps (e, rx) \<Longrightarrow> wire_inv ps (wanpipe_hdlc_bkp e, rx)"
  by (auto simp: wire_inv_def wanpipe_hdlc_bkp_def enc_idle_def Let_def)

lemma wire_idle_octets:
  assumes "wire_inv ps (e, rx)" "length ps \<le> 1"
  shows "\<exists>ps'. wire_inv ps' (e, snd (wanpipe_hdlc_decode (replicate n (tx_flag_idle (encoder e))) rx)) \<and>
    packets_up (decoder (snd (wanpipe_hdlc_decode (replicate n (tx_flag_idle (encoder e))) rx))) @ ps' =
      packets_up (decoder rx) @ ps \<and> length ps' \<le> 1"
proof -
  obtain k v where k: "enc_idle k (encoder e)" and v: "views v (decoder rx)" and b: "between k ps v"
    and s: "\<not> seven_bit_hdlc e" "\<not> seven_bit_hdlc rx" "has_hdlc_data rx"
    using assms(1) by (auto simp: wire_inv_def)
  have x: "tx_flag_idle (encoder e) = FLAGS ! k" using k by (simp add: enc_idle_def)
  let ?out = "replicate n (FLAGS ! k)"
  note q = between_idle [OF b, of n]
  obtain got rx' where d: "wanpipe_hdlc_decode ?out rx = (got, rx')"
    "views (fst (hrun (bits8s ?out) v)) (decoder rx')"
    "packets_up (decoder rx') = packets_up (decoder rx) @ snd (hrun (bits8s ?out) v)"
    "\<not> seven_bit_hdlc rx'" "has_hdlc_data rx'"
    using decode_8 [OF v _ s(2,3), of ?out] q by auto
  have "wire_inv (if n = 0 then ps else []) (e, rx')"
    unfolding wire_inv_def fst_conv snd_conv using k s d q by blast
  then show ?thesis
    unfolding x d(1) snd_conv d(3) using q assms(2)
    by (intro exI [of _ "if n = 0 then ps else []"]) auto
qed

lemma wire_packet:
  assumes "wire_inv ps (e, rx)" "length data \<le> 8000" "wanpipe_hdlc_encode data (wanpipe_hdlc_bkp e) = (out, nxt, e1)"
  shows "\<exists>ps'. wire_inv ps' (e1, snd (wanpipe_hdlc_decode out rx)) \<and>
    packets_up (decoder (snd (wanpipe_hdlc_decode out rx))) @ ps' = packets_up (decoder rx) @ ps @ up_packet data \<and>
    length ps' \<le> 1"
proof -
  obtain k v where k: "enc_idle k (encoder (wanpipe_hdlc_bkp e))" and v: "views v (decoder rx)" and b: "between k ps v"
    and s: "\<not> seven_bit_hdlc (wanpipe_hdlc_bkp e)" "\<not> seven_bit_hdlc rx" "has_hdlc_data rx"
    using wire_bkp [OF assms(1)] by (auto simp: wire_inv_def)
  obtain k' p where p: "p \<le> 3" "k' < 8"
    and bits: "bits8s out = lead_bits k @ stuff 0 (bits8s (data @ fcs_octets (crc_of data))) @ tail_bits p k'"
    and k2: "enc_idle k' (encoder e1)" "\<not> seven_bit_hdlc e1"
    using encode_tail [OF k s(1) assms(2)] assms(3) by auto
  obtain qs rs where q: "snd (hrun (bits8s out) v) = ps @ qs" "between k' rs (fst (hrun (bits8s out) v))"
    "qs @ rs = up_packet data" "hfits (bits8s out) v"
    using between_packet [OF b p(2,1) assms(2)] unfolding bits by auto
  obtain got rx' where d: "wanpipe_hdlc_decode out rx = (got, rx')"
    "views (fst (hrun (bits8s out) v)) (decoder rx')"
    "packets_up (decoder rx') = packets_up (decoder rx) @ ps @ qs" "\<not> seven_bit_hdlc rx'" "has_hdlc_data rx'"
    using decode_8 [OF v q(4) s(2,3)] q(1) by auto
  have "wire_inv rs (e1, rx')" using k2 d q(2) by (auto simp: wire_inv_def)
  moreover have "length rs \<le> 1"
  proof -
    have "length rs \<le> length (qs @ rs)" by simp
    also have "\<dots> \<le> 1" unfolding q(3) by (simp add: up_packet_def)
    finally show ?thesis .
  qed
  ultimately show ?thesis using d(1,3) q(3) by auto
qed

lemma wire_restore:
  assumes "wire_inv ps (e, rx)" "length data \<le> 8000" "wanpipe_hdlc_encode data (wanpipe_hdlc_bkp e) = (out, nxt, e1)"
  shows "wire_inv ps (wanpipe_hdlc_restore e1, rx)"
proof -
  let ?b = "wanpipe_hdlc_bkp e"
  obtain k v where k: "enc_idle k (encoder e)" "views v (decoder rx)" "between k ps v"
    "\<not> seven_bit_hdlc e" "\<not> seven_bit_hdlc rx" "has_hdlc_data rx"
    using assms(1) by (auto simp: wire_inv_def)
  have b: "enc_idle k (encoder ?b)" "\<not> seven_bit_hdlc ?b"
    using k by (simp_all add: wanpipe_hdlc_bkp_def enc_idle_def Let_def)
  obtain k' where 1: "enc_idle k' (encoder e1)" "\<not> seven_bit_hdlc e1"
    using encode_tail [OF b assms(2)] assms(3) by auto
  have "backup (encoder e1) = backup (encoder ?b)" by (rule backup_encode [OF assms(3)])
  then have "enc_idle k (encoder (wanpipe_hdlc_restore e1))" "\<not> seven_bit_hdlc (wanpipe_hdlc_restore e1)"
    using k 1 by (simp_all add: wanpipe_hdlc_bkp_def wanpipe_hdlc_restore_def enc_idle_def Let_def)
  with k show ?thesis by (auto simp: wire_inv_def)
qed

lemma encode_next_idle:
  "wanpipe_hdlc_encode data e = (out, nxt, e1) \<Longrightarrow> nxt = tx_flag_idle (encoder e1)"
  by (auto simp: wanpipe_hdlc_encode_def Let_def)

section \<open>Calls of the channel\<close>

lemma chan_down_result:
  assumes "hp_dev (prot l) = Some d" "devs l d = Some v" "carrier_state l = WAN_CONNECTED"
  shows "(fst (chan_down skb l) = 0 \<and> dev_queue d (snd (chan_down skb l)) = dev_queue d l @ [skb] \<or>
      fst (chan_down skb l) \<noteq> 0 \<and> dev_queue d (snd (chan_down skb l)) = dev_queue d l) \<and>
    devs (snd (chan_down skb l)) d \<noteq> None \<and> carrier_state (snd (chan_down skb l)) = WAN_CONNECTED"
proof -
  have c: "chan_down skb l =
      (if unat (ld_max_mtu_sz v) \<le> length (ld_tx_queue v) then (1, snd (wplip_trigger_bh l))
       else (0, snd (wplip_trigger_bh (l\<lparr>devs := (devs l)(d \<mapsto> v\<lparr>ld_tx_queue := ld_tx_queue v @ [skb]\<rparr>)\<rparr>))))"
    using assms by (simp add: chan_down_def wplip_callback_tx_down_def upd_dev_def)
  have t: "devs (snd (wplip_trigger_bh m)) = devs m" "carrier_state (snd (wplip_trigger_bh m)) = carrier_state m"
    for m :: "'h hdlc_link" by (simp_all add: wplip_trigger_bh_def)
  show ?thesis using assms by (simp add: c t dev_queue_def)
qed

text \<open>What a session has of the link \<open>l\<close>, and what the receiver \<open>rx\<close> has of the wire.\<close>

definition chan_up :: "nat \<Rightarrow> 'h hdlc_link \<Rightarrow> bool" where
  "chan_up d l \<longleftrightarrow> hp_dev (prot l) = Some d \<and> devs l d \<noteq> None \<and> carrier_state l = WAN_CONNECTED \<and>
     \<not> lineidle_mark (prot l)"

definition in_step ::
  "u8 list list \<Rightarrow> hdlc_engine \<Rightarrow> 'h hdlc_link \<Rightarrow> hdlc_engine \<Rightarrow> bool" where
  "in_step ps e l rx \<longleftrightarrow> wire_inv ps (e, rx) \<and> length ps \<le> 1 \<and> next_idle (prot l) = tx_flag_idle (encoder e)"

text \<open>The buffers \<open>outs\<close> a call adds to the queue bring the receiver the frames \<open>taken\<close>.\<close>

definition brings ::
  "nat \<Rightarrow> 'h hdlc_link \<Rightarrow> 'h hdlc_link \<Rightarrow> hdlc_engine \<Rightarrow> u8 list list \<Rightarrow> bool" where
  "brings d l m rx ps \<longleftrightarrow> chan_up d m \<and> (\<exists>outs taken e ps'. dev_queue d m = dev_queue d l @ outs \<and>
     tx_q (prot l) = taken @ tx_q (prot m) \<and> hdlc_eng (prot m) = Some e \<and>
     in_step ps' e m (decode_all outs rx) \<and>
     packets_up (decoder (decode_all outs rx)) @ ps' = packets_up (decoder rx) @ ps @ concat (map up_packet taken))"

lemma idle_brings:
  assumes "chan_up d l" "in_step ps e l rx"
  shows "brings d l (wp_lip_tx_idle len tx_out (upd_prot (\<lambda>p. p\<lparr>hdlc_eng := Some e\<rparr>) l)) rx ps"
proof -
  let ?l = "upd_prot (\<lambda>p. p\<lparr>hdlc_eng := Some e\<rparr>) l"
  let ?buf = "replicate len (tx_flag_idle (encoder e))"
  obtain v where v: "devs ?l d = Some v" using assms(1) by (auto simp: chan_up_def)
  have c: "hp_dev (prot ?l) = Some d" "carrier_state ?l = WAN_CONNECTED" "next_idle (prot ?l) = tx_flag_idle (encoder e)"
    "\<not> lineidle_mark (prot ?l)" using assms by (simp_all add: chan_up_def in_step_def)
  note r = chan_down_result [OF c(1) v c(2), of ?buf]
  have w: "wire_inv ps (e, rx)" "length ps \<le> 1" using assms(2) by (simp_all add: in_step_def)
  have q: "dev_queue d ?l = dev_queue d l" by (simp add: dev_queue_def)
  show ?thesis
  proof (cases "tx_out > len \<or> fst (chan_down ?buf ?l) \<noteq> 0")
    case True
    then have "dev_queue d (wp_lip_tx_idle len tx_out ?l) = dev_queue d l @ []"
      "chan_up d (wp_lip_tx_idle len tx_out ?l)" "prot (wp_lip_tx_idle len tx_out ?l) = prot ?l"
      using r c v q by (auto simp: wp_lip_tx_idle_def chan_up_def)
    with assms(2) show ?thesis
      unfolding brings_def by (intro conjI exI [of _ "[]"] exI [of _ e] exI [of _ ps]) (simp_all add: in_step_def)
  next
    case False
    then have "dev_queue d (wp_lip_tx_idle len tx_out ?l) = dev_queue d l @ [?buf]"
      "chan_up d (wp_lip_tx_idle len tx_out ?l)" "prot (wp_lip_tx_idle len tx_out ?l) = prot ?l"
      using r c v q by (auto simp: wp_lip_tx_idle_def chan_up_def)
    moreover from wire_idle_octets [OF w, of len] obtain ps' where
      "wire_inv ps' (e, decode_all [?buf] rx)" "length ps' \<le> 1"
      "packets_up (decoder (decode_all [?buf] rx)) @ ps' = packets_up (decoder rx) @ ps" by auto
    ultimately show ?thesis
      unfolding brings_def using c(3)
      by (intro conjI exI [of _ "[?buf]"] exI [of _ "[]"] exI [of _ e] exI [of _ ps']) (simp_all add: in_step_def)
  qed
qed

lemma brings_first:
  assumes "brings d l2 m rx1 ps1" "dev_queue d l2 = dev_queue d l @ [out]" "tx_q (prot l) = skb # tx_q (prot l2)"
    and "rx1 = decode_all [out] rx"
    and "packets_up (decoder rx1) @ ps1 = packets_up (decoder rx) @ ps @ up_packet skb"
  shows "brings d l m rx ps"
proof -
  from assms(1) obtain outs taken e ps' where b: "chan_up d m" "dev_queue d m = dev_queue d l2 @ outs"
    "tx_q (prot l2) = taken @ tx_q (prot m)" "hdlc_eng (prot m) = Some e" "in_step ps' e m (decode_all outs rx1)"
    "packets_up (decoder (decode_all outs rx1)) @ ps' = packets_up (decoder rx1) @ ps1 @ concat (map up_packet taken)"
    unfolding brings_def by blast
  have "packets_up (decoder (decode_all outs rx1)) @ ps' =
      packets_up (decoder rx) @ ps @ concat (map up_packet (skb # taken))"
    using b(6) assms(5) by (simp only: append_assoc [symmetric] list.map concat.simps)
  with b assms(2-4) show ?thesis
    unfolding brings_def by (intro conjI exI [of _ "out # outs"] exI [of _ "skb # taken"] exI [of _ e] exI [of _ ps'])
      simp_all
qed

lemma tx_loop_brings:
  assumes "\<forall>n. alloc n" "chan_up d l" "in_step ps e l rx" "\<forall>skb \<in> set (tx_q (prot l)). length skb \<le> 8000"
  shows "brings d l (hdlc_tx_loop alloc len tx_out e l) rx ps"
  using assms
proof (induction alloc len tx_out e l arbitrary: ps rx rule: hdlc_tx_loop.induct)
  case (1 alloc len tx_out e l)
  show ?case
  proof (cases "tx_q (prot l)")
    case Nil
    then show ?thesis
      using idle_brings [OF "1.prems"(2,3)] by (simp add: hdlc_tx_loop.simps [of alloc len tx_out e l])
  next
    case (Cons skb q)
    let ?m = "upd_prot (\<lambda>p. p\<lparr>tx_q := q\<rparr>) l"
    obtain mem l1 where a: "take_alloc alloc ?m = (mem, l1)" by (cases "take_alloc alloc ?m")
    obtain out nxt e1 where o: "wanpipe_hdlc_encode skb (wanpipe_hdlc_bkp e) = (out, nxt, e1)"
      by (cases "wanpipe_hdlc_encode skb (wanpipe_hdlc_bkp e)")
    let ?n = "upd_prot (\<lambda>p. p\<lparr>next_idle := nxt,
                short_buf := (short_buf p \<or> length out > 2 * length skb)\<rparr>) l1"
    obtain err l2 where c: "chan_down out ?n = (err, l2)" by (cases "chan_down out ?n")
    have l1: mem "devs l1 = devs l" "carrier_state l1 = carrier_state l"
      "prot l1 = (prot l)\<lparr>tx_q := q, allocs := Suc (allocs (prot l))\<rparr>"
      using a "1.prems"(1) by (auto simp: take_alloc_def)
    have p2: "prot l2 = prot ?n" using prot_chan_down [of out ?n] unfolding c by simp
    obtain v where v: "devs ?n d = Some v" using "1.prems"(2) l1 by (auto simp: chan_up_def)
    have n: "hp_dev (prot ?n) = Some d" "carrier_state ?n = WAN_CONNECTED"
      using "1.prems"(2) l1 by (simp_all add: chan_up_def)
    have qn: "dev_queue d ?n = dev_queue d l" using l1 by (simp add: dev_queue_def)
    note r = chan_down_result [OF n(1) v n(2), of out, unfolded c fst_conv snd_conv qn]
    have up2: "chan_up d l2" using r n "1.prems"(2) l1 p2 by (simp add: chan_up_def)
    have len: "length skb \<le> 8000" using "1.prems"(4) Cons by simp
    have w: "wire_inv ps (e, rx)" using "1.prems"(3) by (simp add: in_step_def)
    show ?thesis
    proof (cases "err = 0")
      case True
      from wire_packet [OF w len o] obtain ps1 where ps1: "wire_inv ps1 (e1, decode_all [out] rx)"
        "packets_up (decoder (decode_all [out] rx)) @ ps1 = packets_up (decoder rx) @ ps @ up_packet skb"
        "length ps1 \<le> 1" by auto
      have s: "in_step ps1 e1 l2 (decode_all [out] rx)"
        using ps1 p2 encode_next_idle [OF o] by (simp add: in_step_def)
      have t: "tx_q (prot l2) = q" using p2 l1 by simp
      have f: "\<forall>skb \<in> set (tx_q (prot l2)). length skb \<le> 8000" using "1.prems"(4) Cons t by simp
      note IH = "1.IH" [OF refl Cons a [symmetric] _ o [symmetric] refl c [symmetric] _ "1.prems"(1) up2 s f]
      have "brings d l2 (hdlc_tx_loop alloc len (tx_out + length out) e1 l2) (decode_all [out] rx) ps1"
        using IH l1(1) True by simp
      moreover have "hdlc_tx_loop alloc len tx_out e l = hdlc_tx_loop alloc len (tx_out + length out) e1 l2"
        using True l1(1) by (simp add: hdlc_tx_loop.simps [of alloc len tx_out e l] Cons a o c)
      ultimately show ?thesis
        using r True ps1(2) t Cons by (intro brings_first [of d l2 _ "decode_all [out] rx" ps1 l out skb]) simp_all
    next
      case False
      let ?e = "wanpipe_hdlc_restore e1"
      let ?f = "upd_prot (\<lambda>p. p\<lparr>next_idle := tx_flag_idle (encoder ?e), tx_q := skb # tx_q p, hdlc_eng := Some ?e\<rparr>) l2"
      have "hdlc_tx_loop alloc len tx_out e l = ?f"
        using False l1(1) by (simp add: hdlc_tx_loop.simps [of alloc len tx_out e l] Cons a o c Let_def)
      moreover have "in_step ps ?e ?f rx"
        using wire_restore [OF w len o] "1.prems"(3) by (simp add: in_step_def)
      moreover have "chan_up d ?f" using up2 by (simp add: chan_up_def)
      moreover have "dev_queue d ?f = dev_queue d l @ []" using r False by (simp add: dev_queue_def)
      moreover have "tx_q (prot l) = [] @ tx_q (prot ?f)" using p2 l1 Cons by simp
      ultimately show ?thesis
        unfolding brings_def by (intro conjI exI [of _ "[]"] exI [of _ ?e] exI [of _ ps]) simp_all
    qed
  qed
qed

text \<open>Packets that go up leave the queue of the device and the channel alone.\<close>

lemma rx_up_same:
  assumes "devs l d \<noteq> None"
  shows "prot (wplip_prot_rx_up E d skb ty l) = prot l \<and>
    carrier_state (wplip_prot_rx_up E d skb ty l) = carrier_state l \<and>
    devs (wplip_prot_rx_up E d skb ty l) d \<noteq> None \<and> dev_queue d (wplip_prot_rx_up E d skb ty l) = dev_queue d l"
proof -
  obtain v where v: "devs l d = Some v" using assms by blast
  show ?thesis
    by (simp add: wplip_prot_rx_up_def wplip_data_rx_up_def rx_taken_def rx_drop_def upd_dev_def v dev_queue_def)
qed

lemma data_available_same:
  assumes "chan_up d l"
  shows "chan_up d (hdlc_data_available E alloc data l) \<and>
    dev_queue d (hdlc_data_available E alloc data l) = dev_queue d l \<and>
    tx_q (prot (hdlc_data_available E alloc data l)) = tx_q (prot l) \<and>
    next_idle (prot (hdlc_data_available E alloc data l)) = next_idle (prot l)"
proof -
  define m where "m = upd_prot (\<lambda>p. p\<lparr>allocs := Suc (allocs p)\<rparr>) l"
  have m: "devs m d \<noteq> None" "hp_dev (prot m) = Some d" "carrier_state m = WAN_CONNECTED" "\<not> lineidle_mark (prot m)"
    "dev_queue d m = dev_queue d l" "tx_q (prot m) = tx_q (prot l)" "next_idle (prot m) = next_idle (prot l)"
    using assms by (simp_all add: m_def chan_up_def dev_queue_def)
  have "hdlc_data_available E alloc data l \<in> {l, m} \<union> range (\<lambda>skb. wplip_prot_rx_up E d skb (hp_type (prot m)) m)"
    using m(2) by (simp add: hdlc_data_available_def take_alloc_def m_def [symmetric] wp_lip_hdlc_data_indication_def Let_def)
  with m assms rx_up_same [OF m(1), of E] show ?thesis by (auto simp: chan_up_def)
qed

lemma data_available_all:
  assumes "chan_up d l"
  shows "chan_up d (fold (hdlc_data_available E alloc) ups l) \<and>
    dev_queue d (fold (hdlc_data_available E alloc) ups l) = dev_queue d l \<and>
    tx_q (prot (fold (hdlc_data_available E alloc) ups l)) = tx_q (prot l) \<and>
    next_idle (prot (fold (hdlc_data_available E alloc) ups l)) = next_idle (prot l)"
  using assms
proof (induction ups arbitrary: l)
  case (Cons u ups)
  note 1 = data_available_same [OF Cons.prems, of E alloc u]
  from Cons.IH [of "hdlc_data_available E alloc u l"] 1 show ?case by simp
qed simp

lemma rx_brings:
  assumes "\<forall>n. alloc n" "chan_up d l" "hdlc_eng (prot l) = Some e" "in_step ps e l rx"
    and "\<forall>skb \<in> set (tx_q (prot l)). length skb \<le> 8000"
  shows "brings d l (snd (wp_lip_hdlc_rx E alloc l buf)) rx ps"
proof -
  define e1 where "e1 = snd (wanpipe_hdlc_decode buf e)"
  define l1 where "l1 = fold (hdlc_data_available E alloc)
      (drop (length (packets_up (decoder e))) (packets_up (decoder e1))) l"
  have l1: "chan_up d l1" "dev_queue d l1 = dev_queue d l" "tx_q (prot l1) = tx_q (prot l)"
    "next_idle (prot l1) = next_idle (prot l)"
    unfolding l1_def using data_available_all [OF assms(2)] by blast+
  have "wire_inv ps (e1, rx)"
    using assms(4) wire_inv_tx [of ps e rx e1] by (simp add: in_step_def e1_def decode_encoder)
  then have "in_step ps e1 l1 rx" using assms(4) l1(4) by (simp add: in_step_def e1_def decode_encoder)
  from tx_loop_brings [OF assms(1) l1(1) this, of "length buf" 0] assms(5) l1(3)
  have "brings d l1 (hdlc_tx_loop alloc (length buf) 0 e1 l1) rx ps" by simp
  then have "brings d l (hdlc_tx_loop alloc (length buf) 0 e1 l1) rx ps"
    using l1 by (simp add: brings_def)
  then show ?thesis by (simp add: wp_lip_hdlc_rx_def assms(3) Let_def e1_def [symmetric] l1_def [symmetric])
qed

section \<open>The session\<close>

definition session_ok :: "nat \<Rightarrow> hdlc_engine \<Rightarrow> 'h hdlc_session \<Rightarrow> bool" where
  "session_ok d rx s \<longleftrightarrow> chan_up d (se_link s) \<and> (\<forall>skb \<in> set (se_accepted s). length skb \<le> 8000) \<and>
     (\<exists>e ps taken. hdlc_eng (prot (se_link s)) = Some e \<and>
       in_step ps e (se_link s) (decode_all (se_handed s) rx) \<and>
       se_accepted s = taken @ tx_q (prot (se_link s)) \<and>
       packets_up (decoder (decode_all (se_handed s) rx)) @ ps = concat (map up_packet taken))"

lemma session_step:
  assumes "\<forall>n. alloc n" "session_ok d rx s" "\<forall>skb. a = Queue skb \<longrightarrow> length skb \<le> 8000"
  shows "session_ok d rx (hdlc_act1 E alloc d a s)"
proof -
  let ?l = "se_link s"
  obtain e ps taken where s: "chan_up d ?l" "\<forall>skb \<in> set (se_accepted s). length skb \<le> 8000"
    "hdlc_eng (prot ?l) = Some e" "in_step ps e ?l (decode_all (se_handed s) rx)"
    "se_accepted s = taken @ tx_q (prot ?l)"
    "packets_up (decoder (decode_all (se_handed s) rx)) @ ps = concat (map up_packet taken)"
    using assms(2) unfolding session_ok_def by blast
  show ?thesis
  proof (cases a)
    case (Queue skb)
    with assms(3) s show ?thesis
      by (auto simp: session_ok_def wp_lip_hdlc_tx_def chan_up_def in_step_def)
  next
    case (Lower n)
    have "\<exists>v. devs ?l d = Some v" using s(1) by (auto simp: chan_up_def)
    with Lower s show ?thesis
      unfolding session_ok_def by (auto simp: chan_up_def in_step_def upd_dev_def)
  next
    case (Receive buf)
    let ?m = "snd (wp_lip_hdlc_rx E alloc ?l buf)"
    have "\<forall>skb \<in> set (tx_q (prot ?l)). length skb \<le> 8000" using s(2,5) by simp
    from rx_brings [OF assms(1) s(1,3,4) this, of E buf] obtain outs taken' e' ps' where
      b: "chan_up d ?m" "dev_queue d ?m = dev_queue d ?l @ outs"
      "tx_q (prot ?l) = taken' @ tx_q (prot ?m)" "hdlc_eng (prot ?m) = Some e'"
      "in_step ps' e' ?m (decode_all outs (decode_all (se_handed s) rx))"
      "packets_up (decoder (decode_all outs (decode_all (se_handed s) rx))) @ ps' =
        packets_up (decoder (decode_all (se_handed s) rx)) @ ps @ concat (map up_packet taken')"
      unfolding brings_def by blast
    have "packets_up (decoder (decode_all outs (decode_all (se_handed s) rx))) @ ps' =
        concat (map up_packet (taken @ taken'))"
      using b(6) s(6) by (metis append_assoc concat_append map_append)
    with b s(2,5) show ?thesis
      unfolding session_ok_def Receive by (auto simp: Let_def)
  qed
qed

text \<open>
  C4. The HDLC channel delivers: whatever frames it is given, whatever it receives, and however
  often the queue of its device is full, the far end of the line gets the accepted frames
  with their check sequence, each once and in order; a frame that is not taken yet is still
  on the queue of the channel, and at most the last one taken waits for the octets that
  follow it. A refused buffer is encoded again after the restored state.
\<close>

theorem hdlc_channel_delivers:
  assumes "wp_register_lip_hdlc_chan True True d name (False, crc, False) ty p = Some q"
    and "prot l = q" "devs l d \<noteq> None" "carrier_state l = WAN_CONNECTED" "\<forall>n. alloc n"
    and "wanpipe_reg_hdlc_engine True False = Some rx" "\<forall>skb. Queue skb \<in> set acts \<longrightarrow> length skb \<le> 8000"
    and "s = run_session E alloc d acts l"
  shows "\<exists>taken ps. se_accepted s = taken @ tx_q (prot (se_link s)) \<and> length ps \<le> 1 \<and>
    packets_up (decoder (decode_all (se_handed s) (rx\<lparr>has_hdlc_data := True\<rparr>))) @ ps = concat (map up_packet taken)"
proof -
  let ?rx = "rx\<lparr>has_hdlc_data := True\<rparr>"
  have q: "q = p\<lparr>hp_name := name, seven_bit_cfg := False, rx_crc_bytes := crc, lineidle_mark := False,
      hdlc_eng := Some (ex_engine\<lparr>has_hdlc_data := True\<rparr>), tx_q := [], next_idle := 0x7E,
      hp_dev := Some d, hp_type := ty\<rparr>"
    using assms(1) by (simp add: wp_register_lip_hdlc_chan_def ex_engine_registered)
  have "wire_inv [] (ex_engine, ?rx)" using wire_start [OF ex_engine_registered assms(6)] .
  then have "wire_inv [] (ex_engine\<lparr>has_hdlc_data := True\<rparr>, ?rx)" by (rule wire_inv_tx) simp_all
  moreover have "tx_flag_idle (encoder ex_engine) = 0x7E" by (simp add: ex_engine_def init_hdlc_encoder_def)
  moreover have "packets_up (decoder rx) = []"
    using registered_engine [OF assms(6)] by (simp add: ex_engine_def init_hdlc_decoder_def zero_decoder_def)
  ultimately have "session_ok d ?rx \<lparr>se_link = l, se_accepted = [], se_handed = []\<rparr>"
    using assms(2-4) unfolding session_ok_def
    by (simp add: q chan_up_def in_step_def)
  then have "session_ok d ?rx s" unfolding assms(8) run_session_def using assms(7)
  proof (induction acts rule: rev_induct)
    case (snoc a acts)
    then show ?case by (auto intro!: session_step [OF assms(5)])
  qed simp
  then show ?thesis unfolding session_ok_def in_step_def by blast
qed

definition lip_ex_chan :: lip_hdlc where
  "lip_ex_chan = the (wp_register_lip_hdlc_chan True True 7 ''w1'' (False, 0, False) WPLIP_RAW zero_hdlc)"

definition lip_ex_acts :: "hdlc_act list" where
  "lip_ex_acts = [Queue [1, 2, 3], Receive (replicate 16 0x7E), Lower 1, Queue [4], Receive [0x7E]]"

theorem hdlc_channel_delivers_witness:
  "\<exists>taken ps. se_accepted (run_session (lip_ex_env (\<lambda>_. 0)) (\<lambda>_. True) 7 lip_ex_acts (lip_ex_link\<lparr>prot := lip_ex_chan\<rparr>)) =
      taken @ tx_q (prot (se_link (run_session (lip_ex_env (\<lambda>_. 0)) (\<lambda>_. True) 7 lip_ex_acts (lip_ex_link\<lparr>prot := lip_ex_chan\<rparr>)))) \<and>
    length ps \<le> 1 \<and>
    packets_up (decoder (decode_all (se_handed (run_session (lip_ex_env (\<lambda>_. 0)) (\<lambda>_. True) 7 lip_ex_acts (lip_ex_link\<lparr>prot := lip_ex_chan\<rparr>)))
      (ex_engine\<lparr>has_hdlc_data := True\<rparr>))) @ ps = concat (map up_packet taken)"
proof (rule hdlc_channel_delivers)
  show "wp_register_lip_hdlc_chan True True 7 ''w1'' (False, 0, False) WPLIP_RAW zero_hdlc = Some lip_ex_chan"
    by (simp add: lip_ex_chan_def wp_register_lip_hdlc_chan_def ex_engine_registered)
  show "wanpipe_reg_hdlc_engine True False = Some ex_engine" by (rule ex_engine_registered)
qed (simp_all add: lip_ex_link_def lip_ex_acts_def)

end
