(* ===== verification/Codec_Law.thy ===== *)
theory Codec_Law
  imports Prelude
begin

unbundle bit_operations_syntax

text \<open>
  The companding of wanpipe_codec_law.c, the registry of codecs of wanpipe_codec.c, and
  the detector of wanpipe_tdm_api.c that listens to an idle line. A \<open>short\<close> is a 16 bit
  word read with \<open>sint\<close>, an \<open>int\<close> of an intermediate result an integer. The two copy
  routines of the kernel are parameters; an access outside an array, and the division by
  zero, are \<open>None\<close>.
\<close>

type_synonym s16 = "16 word"

section \<open>The tables of absolute values\<close>

definition u2s :: "u16 list" where
  "u2s =
  [0x7D7C, 0x797C, 0x757C, 0x717C, 0x6D7C, 0x697C, 0x657C, 0x617C,
   0x5D7C, 0x597C, 0x557C, 0x517C, 0x4D7C, 0x497C, 0x457C, 0x417C,
   0x3E7C, 0x3C7C, 0x3A7C, 0x387C, 0x367C, 0x347C, 0x327C, 0x307C,
   0x2E7C, 0x2C7C, 0x2A7C, 0x287C, 0x267C, 0x247C, 0x227C, 0x207C,
   0x1EFC, 0x1DFC, 0x1CFC, 0x1BFC, 0x1AFC, 0x19FC, 0x18FC, 0x17FC,
   0x16FC, 0x15FC, 0x14FC, 0x13FC, 0x12FC, 0x11FC, 0x10FC, 0x0FFC,
   0x0F3C, 0x0EBC, 0x0E3C, 0x0DBC, 0x0D3C, 0x0CBC, 0x0C3C, 0x0BBC,
   0x0B3C, 0x0ABC, 0x0A3C, 0x09BC, 0x093C, 0x08BC, 0x083C, 0x07BC,
   0x075C, 0x071C, 0x06DC, 0x069C, 0x065C, 0x061C, 0x05DC, 0x059C,
   0x055C, 0x051C, 0x04DC, 0x049C, 0x045C, 0x041C, 0x03DC, 0x039C,
   0x036C, 0x034C, 0x032C, 0x030C, 0x02EC, 0x02CC, 0x02AC, 0x028C,
   0x026C, 0x024C, 0x022C, 0x020C, 0x01EC, 0x01CC, 0x01AC, 0x018C,
   0x0174, 0x0164, 0x0154, 0x0144, 0x0134, 0x0124, 0x0114, 0x0104,
   0x00F4, 0x00E4, 0x00D4, 0x00C4, 0x00B4, 0x00A4, 0x0094, 0x0084,
   0x0078, 0x0070, 0x0068, 0x0060, 0x0058, 0x0050, 0x0048, 0x0040,
   0x0038, 0x0030, 0x0028, 0x0020, 0x0018, 0x0010, 0x0008, 0x0000,
   0x8284, 0x8684, 0x8A84, 0x8E84, 0x9284, 0x9684, 0x9A84, 0x9E84,
   0xA284, 0xA684, 0xAA84, 0xAE84, 0xB284, 0xB684, 0xBA84, 0xBE84,
   0xC184, 0xC384, 0xC584, 0xC784, 0xC984, 0xCB84, 0xCD84, 0xCF84,
   0xD184, 0xD384, 0xD584, 0xD784, 0xD984, 0xDB84, 0xDD84, 0xDF84,
   0xE104, 0xE204, 0xE304, 0xE404, 0xE504, 0xE604, 0xE704, 0xE804,
   0xE904, 0xEA04, 0xEB04, 0xEC04, 0xED04, 0xEE04, 0xEF04, 0xF004,
   0xF0C4, 0xF144, 0xF1C4, 0xF244, 0xF2C4, 0xF344, 0xF3C4, 0xF444,
   0xF4C4, 0xF544, 0xF5C4, 0xF644, 0xF6C4, 0xF744, 0xF7C4, 0xF844,
   0xF8A4, 0xF8E4, 0xF924, 0xF964, 0xF9A4, 0xF9E4, 0xFA24, 0xFA64,
   0xFAA4, 0xFAE4, 0xFB24, 0xFB64, 0xFBA4, 0xFBE4, 0xFC24, 0xFC64,
   0xFC94, 0xFCB4, 0xFCD4, 0xFCF4, 0xFD14, 0xFD34, 0xFD54, 0xFD74,
   0xFD94, 0xFDB4, 0xFDD4, 0xFDF4, 0xFE14, 0xFE34, 0xFE54, 0xFE74,
   0xFE8C, 0xFE9C, 0xFEAC, 0xFEBC, 0xFECC, 0xFEDC, 0xFEEC, 0xFEFC,
   0xFF0C, 0xFF1C, 0xFF2C, 0xFF3C, 0xFF4C, 0xFF5C, 0xFF6C, 0xFF7C,
   0xFF88, 0xFF90, 0xFF98, 0xFFA0, 0xFFA8, 0xFFB0, 0xFFB8, 0xFFC0,
   0xFFC8, 0xFFD0, 0xFFD8, 0xFFE0, 0xFFE8, 0xFFF0, 0xFFF8, 0x0000]"

definition a2s :: "u16 list" where
  "a2s =
  [0x1500, 0x1400, 0x1700, 0x1600, 0x1100, 0x1000, 0x1300, 0x1200,
   0x1D00, 0x1C00, 0x1F00, 0x1E00, 0x1900, 0x1800, 0x1B00, 0x1A00,
   0x0A80, 0x0A00, 0x0B80, 0x0B00, 0x0880, 0x0800, 0x0980, 0x0900,
   0x0E80, 0x0E00, 0x0F80, 0x0F00, 0x0C80, 0x0C00, 0x0D80, 0x0D00,
   0x5400, 0x5000, 0x5C00, 0x5800, 0x4400, 0x4000, 0x4C00, 0x4800,
   0x7400, 0x7000, 0x7C00, 0x7800, 0x6400, 0x6000, 0x6C00, 0x6800,
   0x2A00, 0x2800, 0x2E00, 0x2C00, 0x2200, 0x2000, 0x2600, 0x2400,
   0x3A00, 0x3800, 0x3E00, 0x3C00, 0x3200, 0x3000, 0x3600, 0x3400,
   0x0150, 0x0140, 0x0170, 0x0160, 0x0110, 0x0100, 0x0130, 0x0120,
   0x01D0, 0x01C0, 0x01F0, 0x01E0, 0x0190, 0x0180, 0x01B0, 0x01A0,
   0x0050, 0x0040, 0x0070, 0x0060, 0x0010, 0x0000, 0x0030, 0x0020,
   0x00D0, 0x00C0, 0x00F0, 0x00E0, 0x0090, 0x0080, 0x00B0, 0x00A0,
   0x0540, 0x0500, 0x05C0, 0x0580, 0x0440, 0x0400, 0x04C0, 0x0480,
   0x0740, 0x0700, 0x07C0, 0x0780, 0x0640, 0x0600, 0x06C0, 0x0680,
   0x02A0, 0x0280, 0x02E0, 0x02C0, 0x0220, 0x0200, 0x0260, 0x0240,
   0x03A0, 0x0380, 0x03E0, 0x03C0, 0x0320, 0x0300, 0x0360, 0x0340,
   0xEB00, 0xEC00, 0xE900, 0xEA00, 0xEF00, 0xF000, 0xED00, 0xEE00,
   0xE300, 0xE400, 0xE100, 0xE200, 0xE700, 0xE800, 0xE500, 0xE600,
   0xF580, 0xF600, 0xF480, 0xF500, 0xF780, 0xF800, 0xF680, 0xF700,
   0xF180, 0xF200, 0xF080, 0xF100, 0xF380, 0xF400, 0xF280, 0xF300,
   0xAC00, 0xB000, 0xA400, 0xA800, 0xBC00, 0xC000, 0xB400, 0xB800,
   0x8C00, 0x9000, 0x8400, 0x8800, 0x9C00, 0xA000, 0x9400, 0x9800,
   0xD600, 0xD800, 0xD200, 0xD400, 0xDE00, 0xE000, 0xDA00, 0xDC00,
   0xC600, 0xC800, 0xC200, 0xC400, 0xCE00, 0xD000, 0xCA00, 0xCC00,
   0xFEB0, 0xFEC0, 0xFE90, 0xFEA0, 0xFEF0, 0xFF00, 0xFED0, 0xFEE0,
   0xFE30, 0xFE40, 0xFE10, 0xFE20, 0xFE70, 0xFE80, 0xFE50, 0xFE60,
   0xFFB0, 0xFFC0, 0xFF90, 0xFFA0, 0xFFF0, 0x0000, 0xFFD0, 0xFFE0,
   0xFF30, 0xFF40, 0xFF10, 0xFF20, 0xFF70, 0xFF80, 0xFF50, 0xFF60,
   0xFAC0, 0xFB00, 0xFA40, 0xFA80, 0xFBC0, 0xFC00, 0xFB40, 0xFB80,
   0xF8C0, 0xF900, 0xF840, 0xF880, 0xF9C0, 0xFA00, 0xF940, 0xF980,
   0xFD60, 0xFD80, 0xFD20, 0xFD40, 0xFDE0, 0xFE00, 0xFDA0, 0xFDC0,
   0xFC60, 0xFC80, 0xFC20, 0xFC40, 0xFCE0, 0xFD00, 0xFCA0, 0xFCC0]"

section \<open>One sample\<close>

definition BIAS :: s16 where "BIAS = 0x84"
definition CLIP :: s16 where "CLIP = 32635"
definition AMI_MASK :: u8 where "AMI_MASK = 0x55"

definition exp_lut :: "nat list" where
  "exp_lut = [0, 0, 1, 1] @ replicate 4 2 @ replicate 8 3 @ replicate 16 4 @
     replicate 32 5 @ replicate 64 6 @ replicate 128 7"

definition wp_lineartoulaw :: "s16 \<Rightarrow> u8" where
  "wp_lineartoulaw sample =
     (let sign = drop_bit 8 (sint sample) AND 0x80;
          sample = (if sign \<noteq> 0 then - sample else sample);
          sample = (if sint sample > sint CLIP then CLIP else sample);
          sample = sample + BIAS;
          exponent = exp_lut ! nat (drop_bit 7 (sint sample) AND 0xFF);
          mantissa = drop_bit (exponent + 3) (sint sample) AND 0x0F;
          ulawbyte = word_of_int (NOT (sign OR push_bit 4 (int exponent) OR mantissa)) :: u8;
          ulawbyte = (if ulawbyte = 0 then 0x02 else ulawbyte)
      in if ulawbyte = 0xff then 0x7f else ulawbyte)"

definition seg_end :: "int list" where
  "seg_end = [0xFF, 0x1FF, 0x3FF, 0x7FF, 0xFFF, 0x1FFF, 0x3FFF, 0x7FFF]"

text \<open>The search for the segment: 8 when there is none.\<close>

definition alaw_seg :: "int \<Rightarrow> nat" where
  "alaw_seg pcm_val = length (takeWhile (\<lambda>e. \<not> pcm_val \<le> e) seg_end)"

definition wp_lineartoalaw :: "s16 \<Rightarrow> u8" where
  "wp_lineartoalaw linear =
     (let (mask, pcm_val) =
            (if sint linear \<ge> 0 then (AMI_MASK OR 0x80, sint linear) else (AMI_MASK, - sint linear));
          seg = alaw_seg pcm_val
      in word_of_int (push_bit 4 (int seg) OR
             (drop_bit (if seg \<noteq> 0 then seg + 3 else 4) pcm_val AND 0x0F)) XOR mask)"

definition wp_alaw2linear :: "u8 \<Rightarrow> s16" where
  "wp_alaw2linear alaw =
     (let alaw = alaw XOR AMI_MASK;
          i = push_bit 4 (uint (alaw AND 0x0F));
          seg = unat (drop_bit 4 (alaw AND 0x70));
          i = (if seg \<noteq> 0 then push_bit (seg - 1) (i + 0x100) else i)
      in word_of_int (if alaw AND 0x80 \<noteq> 0 then i else - i))"

text \<open>The entry \<open>i\<close> of \<open>__wp_mulaw\<close>.\<close>

definition etab :: "int list" where
  "etab = [0, 132, 396, 924, 1980, 4092, 8316, 16764]"

definition mulaw_entry :: "nat \<Rightarrow> s16" where
  "mulaw_entry i =
     (let mu = 255 - int i;
          e = nat ((mu AND 0x70) div 16);
          f = mu AND 0x0f;
          y = f * push_bit (e + 3) 1 + etab ! e
      in word_of_int (if mu AND 0x80 \<noteq> 0 then - y else y))"

section \<open>The conversion tables\<close>

record codec_tables =
  wp_lin2mu :: "u8 arr"
  wp_lin2a :: "u8 arr"
  wp_mulaw :: "s16 arr"
  wp_alaw :: "s16 arr"

text \<open>The index of a sample in the tables of 16384 entries: its two low bits do not count.\<close>

definition lin_index :: "u16 \<Rightarrow> nat" where
  "lin_index s = unat (drop_bit 2 s)"

definition lin_sample :: "nat \<Rightarrow> s16" where
  "lin_sample k = word_of_int (- 32768 + 4 * int k)"

definition law_init_lin :: "nat \<Rightarrow> codec_tables \<Rightarrow> codec_tables" where
  "law_init_lin k t =
     (let i = lin_sample k
      in t\<lparr>wp_lin2mu := (wp_lin2mu t)(lin_index i := wp_lineartoulaw i),
           wp_lin2a := (wp_lin2a t)(lin_index i := wp_lineartoalaw i)\<rparr>)"

definition law_init_code :: "nat \<Rightarrow> codec_tables \<Rightarrow> codec_tables" where
  "law_init_code i t =
     t\<lparr>wp_mulaw := (wp_mulaw t)(i := mulaw_entry i), wp_alaw := (wp_alaw t)(i := wp_alaw2linear (of_nat i))\<rparr>"

definition wanpipe_codec_law_init :: "codec_tables \<Rightarrow> codec_tables" where
  "wanpipe_codec_law_init t = fold law_init_code [0..<256] (fold law_init_lin [0..<16384] t)"

section \<open>Buffers\<close>

text \<open>
  What \<open>copy_to_user\<close> leaves in the user's memory, from the old and the new value, and what
  \<open>copy_from_user\<close> gives for a value there; the results of the calls are not looked at.
\<close>

record user_copy =
  copy_to_user :: "nat \<Rightarrow> u16 \<Rightarrow> u16 \<Rightarrow> u16"
  copy_from_user :: "nat \<Rightarrow> u16 \<Rightarrow> u16"

datatype codec_law = WP_MULAW | WP_ALAW

text \<open>The loop of \<open>law2s\<close> over the indices \<open>is\<close>; \<open>data\<close> is changed by the gain table.\<close>

fun law2s_loop ::
    "user_copy \<Rightarrow> s16 arr \<Rightarrow> u16 list \<Rightarrow> (u8 \<Rightarrow> u8) option \<Rightarrow> bool \<Rightarrow> nat list \<Rightarrow>
     u8 list \<Rightarrow> u16 list \<Rightarrow> u16 \<Rightarrow> (u8 list \<times> u16 list \<times> u16) option" where
  "law2s_loop u codec pcodec gain usr [] data buf pow = Some (data, buf, pow)"
| "law2s_loop u codec pcodec gain usr (i # is) data buf pow =
     (if i \<ge> length data \<or> i \<ge> length buf then None
      else
        let data = (case gain of Some g \<Rightarrow> data[i := g (data ! i)] | None \<Rightarrow> data);
            v = codec (unat (data ! i));
            buf = buf[i := if usr then copy_to_user u i (buf ! i) v else v];
            pow = pow + pcodec ! unat (data ! i AND 0x7F)
        in law2s_loop u codec pcodec gain usr is data buf pow)"

text \<open>
  The result: the value returned, the data after the gain, the samples and the power that
  is stored where \<open>power_ptr\<close> is not null.
\<close>

definition wanpipe_codec_convert_law2s ::
    "user_copy \<Rightarrow> codec_tables \<Rightarrow> u8 list \<Rightarrow> int \<Rightarrow> u16 list \<Rightarrow> codec_law \<Rightarrow> (u8 \<Rightarrow> u8) option \<Rightarrow> bool \<Rightarrow>
     (int \<times> u8 list \<times> u16 list \<times> u32) option" where
  "wanpipe_codec_convert_law2s u t data len buf src_codec gain usr =
     (let len = len * 2;
          (codec, pcodec) = (case src_codec of WP_MULAW \<Rightarrow> (wp_mulaw t, u2s) | WP_ALAW \<Rightarrow> (wp_alaw t, a2s))
      in case law2s_loop u codec pcodec gain usr [0..<nat len] data buf 0 of
           None \<Rightarrow> None
         | Some (data, buf, pow) \<Rightarrow>
             if len = 0 then None else Some (len, data, buf, word_of_int (uint pow div len)))"

fun s2law_loop ::
    "user_copy \<Rightarrow> u8 arr \<Rightarrow> (u8 \<Rightarrow> u8) option \<Rightarrow> bool \<Rightarrow> nat list \<Rightarrow> u16 list \<Rightarrow> u8 list \<Rightarrow> u8 list option" where
  "s2law_loop u codec gain usr [] data buf = Some buf"
| "s2law_loop u codec gain usr (i # is) data buf =
     (if i \<ge> length data \<or> i \<ge> length buf then None
      else
        let kdata = (if usr then copy_from_user u i (data ! i) else data ! i);
            v = codec (lin_index kdata);
            v = (case gain of Some g \<Rightarrow> g v | None \<Rightarrow> v)
        in s2law_loop u codec gain usr is data (buf[i := v]))"

definition wanpipe_codec_convert_s2law ::
    "user_copy \<Rightarrow> codec_tables \<Rightarrow> u16 list \<Rightarrow> int \<Rightarrow> u8 list \<Rightarrow> codec_law \<Rightarrow> (u8 \<Rightarrow> u8) option \<Rightarrow> bool \<Rightarrow>
     (int \<times> u8 list) option" where
  "wanpipe_codec_convert_s2law u t data len buf src_codec gain usr =
     (let len = (if len < 0 then - (- len div 2) else len div 2);
          codec = (case src_codec of WP_MULAW \<Rightarrow> wp_lin2mu t | WP_ALAW \<Rightarrow> wp_lin2a t)
      in map_option (Pair len) (s2law_loop u codec gain usr [0..<nat len] data buf))"

definition wanpipe_codec_convert_ulaw_2_s where
  "wanpipe_codec_convert_ulaw_2_s u t data len buf gain usr =
     wanpipe_codec_convert_law2s u t data len buf WP_MULAW gain usr"

definition wanpipe_codec_convert_alaw_2_s where
  "wanpipe_codec_convert_alaw_2_s u t data len buf gain usr =
     wanpipe_codec_convert_law2s u t data len buf WP_ALAW gain usr"

definition wanpipe_codec_convert_s_2_ulaw where
  "wanpipe_codec_convert_s_2_ulaw u t data len buf gain usr =
     wanpipe_codec_convert_s2law u t data len buf WP_MULAW gain usr"

definition wanpipe_codec_convert_s_2_alaw where
  "wanpipe_codec_convert_s_2_alaw u t data len buf gain usr =
     wanpipe_codec_convert_s2law u t data len buf WP_ALAW gain usr"

section \<open>The registry of codecs\<close>

text \<open>
  \<open>WANPIPE_CODEC_OPS\<close> by hardware coding and codec. An entry stands for the two functions
  it holds: those of the law, through \<open>wanpipe_codec_convert_ulaw_2_s\<close> and its three
  siblings. \<open>mem\<close> says which allocations succeed.
\<close>

type_synonym codec_registry = "nat \<Rightarrow> nat \<Rightarrow> codec_law option"

definition WP_SLINEAR :: nat where "WP_SLINEAR = 1"

fun law_code :: "codec_law \<Rightarrow> nat" where
  "law_code WP_MULAW = 0"
| "law_code WP_ALAW = 1"

definition codec_register :: "codec_law \<Rightarrow> codec_registry \<Rightarrow> codec_registry" where
  "codec_register c r = (\<lambda>i j. if i = law_code c \<and> j = WP_SLINEAR then Some c else r i j)"

definition wanpipe_codec_init :: "(nat \<Rightarrow> bool) \<Rightarrow> codec_tables \<Rightarrow> bool \<times> codec_tables \<times> codec_registry" where
  "wanpipe_codec_init mem t =
     (let t = wanpipe_codec_law_init t; r = (\<lambda>_ _. None) in
      if \<not> mem 0 then (False, t, r)
      else
        let r = codec_register WP_MULAW r in
        if \<not> mem 1 then (False, t, r) else (True, t, codec_register WP_ALAW r))"

definition wanpipe_codec_free :: "codec_registry \<Rightarrow> codec_registry" where
  "wanpipe_codec_free r = (\<lambda>i j. if i < 4 \<and> j < 10 then None else r i j)"

definition wanpipe_codec_calc_new_mtu :: "u32 \<Rightarrow> u32 \<Rightarrow> u32" where
  "wanpipe_codec_calc_new_mtu codec mtu =
     (if codec \<ge> 10 then mtu else if unat codec = WP_SLINEAR then mtu * 2 else mtu)"

section \<open>Single codes\<close>

definition wanpipe_codec_get_ulaw_to_linear :: "u8 \<Rightarrow> int" where
  "wanpipe_codec_get_ulaw_to_linear ulaw =
     (let ulaw = NOT ulaw;
          t = push_bit (unat (drop_bit 4 (ulaw AND 0x70))) (push_bit 3 (uint (ulaw AND 0x0F)) + 0x84)
      in sint (word_of_int (if ulaw AND 0x80 \<noteq> 0 then 0x84 - t else t - 0x84) :: s16))"

definition wanpipe_codec_get_alaw_to_linear :: "u8 \<Rightarrow> int" where
  "wanpipe_codec_get_alaw_to_linear alaw =
     (let alaw = alaw XOR 0x55;
          i = push_bit 4 (uint (alaw AND 0x0F));
          seg = unat (drop_bit 4 (alaw AND 0x70));
          i = (if seg \<noteq> 0 then push_bit (seg - 1) (i + 0x108) else i + 8)
      in if alaw AND 0x80 \<noteq> 0 then i else - i)"

definition wanpipe_codec_convert_to_linear :: "u8 \<Rightarrow> u8 \<Rightarrow> int" where
  "wanpipe_codec_convert_to_linear pcm_value codec_type =
     (if codec_type = 1 then wanpipe_codec_get_alaw_to_linear pcm_value
      else if codec_type = 0 then wanpipe_codec_get_ulaw_to_linear pcm_value
      else 0)"

section \<open>Sound on an idle line\<close>

text \<open>
  \<open>wp_tdmapi_check_fakepolarity\<close>: a loud sample on an on-hook FXO module may be the caller's
  number and is reported as a reversal of the polarity, at most once per ring. \<open>reports\<close>
  counts the events.
\<close>

record fxo =
  is_fxo :: bool
  offhook :: bool
  cidtimer :: u32
  readcid :: bool
  wasringing :: bool
  reports :: nat

record fake_cfg =
  fake_polarity :: bool
  fake_polarity_thres :: int
  hw_tdm_coding :: u8

definition wp_tdmapi_check_fakepolarity ::
    "fake_cfg \<Rightarrow> u32 \<Rightarrow> u8 list \<Rightarrow> fxo \<Rightarrow> int \<times> fxo" where
  "wp_tdmapi_check_fakepolarity c intcount buf f =
     (if buf = [] then (0, f)
      else if \<not> fake_polarity c then (0, f)
      else if \<not> is_fxo f then (0, f)
      else if offhook f then (0, f\<lparr>cidtimer := intcount\<rparr>)
      else if \<not> readcid f \<and> \<not> wasringing f \<and> intcount > cidtimer f + 400 then
        let thres = (if fake_polarity_thres c = 0 then 16000 else fake_polarity_thres c);
            loud = (\<lambda>b. let v = wanpipe_codec_convert_to_linear b (hw_tdm_coding c)
                        in v > thres \<or> v < - thres)
        in if list_ex loud buf
           then (1, f\<lparr>readcid := True, cidtimer := intcount, reports := reports f + 1\<rparr>)
           else (0, f)
      else if readcid f \<and> intcount > cidtimer f + 2000
      then (0, f\<lparr>cidtimer := intcount, readcid := False\<rparr>)
      else (0, f))"

end
