(* ===== verification/Codec_Table.thy ===== *)
theory Codec_Table
  imports Codec_Law
begin

unbundle bit_operations_syntax

text \<open>
  What the companding routines compute: the conversion tables after their initialisation, the
  encoder and decoder of each law by segments, and the loops over buffers. The reference is
  \<open>g711\<close>, which gives the value of a code by the arithmetic of ITU-T G.711.
\<close>

lemma fold_upd_at:
  assumes "inj_on x {..<n}" "k < n"
  shows "fold (\<lambda>k f. f(x k := v k)) [0..<n] f (x k) = v k"
  using assms
proof (induction n)
  case (Suc n)
  show ?case
  proof (cases "k = n")
    case False
    then have "k < n" "x k \<noteq> x n" using Suc.prems by (auto simp: inj_on_def)
    then show ?thesis using Suc by (auto simp: inj_on_def)
  qed simp
qed simp

lemma sint_range16: "- 32768 \<le> sint (s :: s16)" "sint s < 32768"
  using sint_range_size [of s] by (simp_all add: word_size)

lemma sint_word16: "- 32768 \<le> y \<Longrightarrow> y < 32768 \<Longrightarrow> sint (word_of_int y :: s16) = y"
  by (simp add: sint_sbintrunc' signed_take_bit_int_eq_self)

lemma uint_sint16: "uint (s :: s16) = (if sint s < 0 then sint s + 65536 else sint s)"
proof -
  have r: "- 32768 \<le> sint s" "sint s < 32768" by (rule sint_range16)+
  have "uint s = sint s mod 65536"
    using uint_word_of_int [of "sint s", where 'a = 16] by simp
  also have "\<dots> = (if sint s < 0 then sint s + 65536 else sint s)"
  proof (cases "sint s < 0")
    case True
    then have "(sint s + 65536) mod 65536 = sint s + 65536" using r by (intro mod_pos_pos_trivial) simp_all
    then show ?thesis using True by simp
  next
    case False
    then have "sint s mod 65536 = sint s" using r by (intro mod_pos_pos_trivial) simp_all
    then show ?thesis using False by simp
  qed
  finally show ?thesis .
qed

lemma lin_index_eq: "lin_index s = nat (uint s div 4)"
proof -
  have "lin_index s = unat s div 4" unfolding lin_index_def unat_drop_bit_eq by (simp only: drop_bit_eq_div) simp
  then show ?thesis by (simp add: nat_div_distrib)
qed

lemma u8_less [simp]: "unat (b :: u8) < 256"
  using unsigned_less [of b, where ?'a = nat] by simp


lemma lin_index_div: "lin_index s = nat (if sint s div 4 < 0 then sint s div 4 + 16384 else sint s div 4)"
  unfolding lin_index_eq uint_sint16 by auto

definition low4 :: "s16 \<Rightarrow> int" where
  "low4 s = 4 * (sint s div 4)"

lemma low4_range: "- 32768 \<le> low4 s" "low4 s \<le> sint s" "sint s < low4 s + 4" "low4 s < 32768"
  using sint_range16 [of s] by (simp_all add: low4_def)

lemma sint_sample: "k < 16384 \<Longrightarrow> sint (lin_sample k) = - 32768 + 4 * int k"
  unfolding lin_sample_def by (rule sint_word16) simp_all

lemma lin_index_sample: "k < 16384 \<Longrightarrow> lin_index (lin_sample k) = (if k < 8192 then k + 8192 else k - 8192)"
  unfolding lin_index_div by (subst sint_sample, assumption)+ (simp add: nat_eq_iff)

lemma lin_index_inj: "inj_on (\<lambda>k. lin_index (lin_sample k)) {..<16384}"
proof (rule inj_onI)
  fix a b :: nat
  assume "a \<in> {..<16384}" "b \<in> {..<16384}" "lin_index (lin_sample a) = lin_index (lin_sample b)"
  then show "a = b" by (simp add: lin_index_sample split: if_splits)
qed

lemma init_lin:
  "fold law_init_lin ks t = t
    \<lparr>wp_lin2mu := fold (\<lambda>k f. f(lin_index (lin_sample k) := wp_lineartoulaw (lin_sample k))) ks (wp_lin2mu t),
     wp_lin2a := fold (\<lambda>k f. f(lin_index (lin_sample k) := wp_lineartoalaw (lin_sample k))) ks (wp_lin2a t)\<rparr>"
  by (induction ks arbitrary: t) (simp_all add: law_init_lin_def Let_def)

lemma init_code:
  "fold law_init_code ks t = t
    \<lparr>wp_mulaw := fold (\<lambda>k f. f(k := mulaw_entry k)) ks (wp_mulaw t),
     wp_alaw := fold (\<lambda>k f. f(k := wp_alaw2linear (of_nat k))) ks (wp_alaw t)\<rparr>"
  by (induction ks arbitrary: t) (simp_all add: law_init_code_def)

lemma init_tables:
  "wp_lin2mu (wanpipe_codec_law_init t) (lin_index s) = wp_lineartoulaw (word_of_int (low4 s))"
  "wp_lin2a (wanpipe_codec_law_init t) (lin_index s) = wp_lineartoalaw (word_of_int (low4 s))"
  "wp_mulaw (wanpipe_codec_law_init t) (unat b) = mulaw_entry (unat b)"
  "wp_alaw (wanpipe_codec_law_init t) (unat b) = wp_alaw2linear b" for b :: u8
proof -
  define k where "k = nat (sint s div 4 + 8192)"
  have k: "k < 16384" "int k = sint s div 4 + 8192"
    using low4_range [of s] by (simp_all add: k_def low4_def)
  then have s: "lin_sample k = word_of_int (low4 s)" by (simp only: lin_sample_def low4_def) simp
  have i: "lin_index s = lin_index (lin_sample k)"
    using k by (simp only: lin_index_sample) (auto simp: lin_index_div)
  show "wp_lin2mu (wanpipe_codec_law_init t) (lin_index s) = wp_lineartoulaw (word_of_int (low4 s))"
    "wp_lin2a (wanpipe_codec_law_init t) (lin_index s) = wp_lineartoalaw (word_of_int (low4 s))"
    unfolding i s [symmetric] wanpipe_codec_law_init_def init_lin init_code
    by (simp_all add: fold_upd_at [OF lin_index_inj k(1)])
  show "wp_mulaw (wanpipe_codec_law_init t) (unat b) = mulaw_entry (unat b)"
    "wp_alaw (wanpipe_codec_law_init t) (unat b) = wp_alaw2linear b"
    using fold_upd_at [of "\<lambda>k. k" 256 "unat b" mulaw_entry]
      fold_upd_at [of "\<lambda>k. k" 256 "unat b" "\<lambda>k. wp_alaw2linear (of_nat k)"]
    by (simp_all add: wanpipe_codec_law_init_def init_code)
qed

lemma code_bits_all: "\<forall>e \<in> set [0..<8]. \<forall>m \<in> set [0..<16].
    push_bit 4 (int e) OR int m = int (16 * e + m) \<and> 128 OR int (16 * e + m) = int (128 + 16 * e + m)"
  by code_simp

lemma code_bits:
  assumes "e < 8" "m < 16"
  shows "push_bit 4 (int e) OR int m = 16 * int e + int m"
    "128 OR (16 * int e + int m) = 128 + 16 * int e + int m"
  using code_bits_all [THEN bspec, of e, THEN bspec, of m] assms by simp_all

lemma exp_lut_all: "\<forall>k \<in> set [1..<256]. 2 ^ (exp_lut ! k) \<le> k \<and> k < 2 * 2 ^ (exp_lut ! k)"
  by code_simp

lemma exp_lut_eq:
  assumes "2 ^ e \<le> k" "k < 2 * 2 ^ e" "e < 8"
  shows "exp_lut ! k = e"
proof -
  have "k < 2 * 2 ^ 7" using assms(2,3) power_increasing [of e 7 "2 :: nat"] by simp
  moreover have "0 < k" using assms(1) by (cases k) auto
  ultimately have "k \<in> set [1..<256]" by simp
  then have l: "2 ^ (exp_lut ! k) \<le> k" "k < 2 ^ Suc (exp_lut ! k)" using exp_lut_all by auto
  have "(2 :: nat) ^ e < 2 ^ Suc (exp_lut ! k)" "(2 :: nat) ^ (exp_lut ! k) < 2 ^ Suc e"
    using l assms(1,2) unfolding power_Suc by linarith+
  then show ?thesis using power_strict_increasing_iff [of "2 :: nat"] by (metis less_antisym not_less_eq one_less_numeral_iff semiring_norm(76))
qed

definition seg_of :: "int \<Rightarrow> nat \<Rightarrow> bool" where
  "seg_of x e \<longleftrightarrow> e < 8 \<and> 128 * 2 ^ e \<le> x \<and> x < 256 * 2 ^ e"

lemma seg_ex:
  assumes "128 \<le> x" "x < 32768"
  obtains e where "seg_of x e"
proof -
  have "seg_of x 0 \<or> seg_of x 1 \<or> seg_of x 2 \<or> seg_of x 3 \<or> seg_of x 4 \<or> seg_of x 5 \<or> seg_of x 6 \<or> seg_of x 7"
    using assms unfolding seg_of_def by (simp add: power_numeral_reduce) linarith
  then show ?thesis using that by blast
qed

lemma seg_mant:
  assumes "seg_of x e"
  shows "exp_lut ! nat (drop_bit 7 x AND 0xFF) = e"
    "drop_bit (e + 3) x AND 0x0F = x div 2 ^ (e + 3) - 16"
    "16 \<le> x div 2 ^ (e + 3)" "x div 2 ^ (e + 3) < 32"
proof -
  have e: "e < 8" and x: "128 * 2 ^ e \<le> x" "x < 256 * 2 ^ e" using assms by (simp_all add: seg_of_def)
  have c: "e = 0 \<or> e = 1 \<or> e = 2 \<or> e = 3 \<or> e = 4 \<or> e = 5 \<or> e = 6 \<or> e = 7" using e by arith
  have m: "y AND 0xFF = y mod 256" "y AND 0x0F = y mod 16" for y :: int
    using take_bit_eq_mask [of 8 y] take_bit_eq_mask [of 4 y]
    by (simp_all add: mask_eq_exp_minus_1 take_bit_eq_mod)
  have mod16: "16 \<le> y \<Longrightarrow> y < 32 \<Longrightarrow> y mod 16 = y - 16" for y :: int by presburger
  show q: "16 \<le> x div 2 ^ (e + 3)" "x div 2 ^ (e + 3) < 32"
    using c x by auto
  show "drop_bit (e + 3) x AND 0x0F = x div 2 ^ (e + 3) - 16"
    using q mod16 [of "x div 2 ^ (e + 3)"] unfolding m drop_bit_eq_div by blast
  have d: "2 ^ e \<le> x div 128" "x div 128 < 2 * 2 ^ e" "x div 128 < 256" using c x by auto
  then have a: "drop_bit 7 x AND 0xFF = x div 128"
    by (simp add: drop_bit_eq_div m mod_pos_pos_trivial order_trans [of 0 "2 ^ e"])
  show "exp_lut ! nat (drop_bit 7 x AND 0xFF) = e"
    unfolding a
  proof (rule exp_lut_eq)
    have "int (2 ^ e) \<le> x div 128" "x div 128 < int (2 * 2 ^ e)" using d by simp_all
    then show "2 ^ e \<le> nat (x div 128)" "nat (x div 128) < 2 * 2 ^ e" by linarith+
  qed (rule e)
qed

definition sign_bit :: "int \<Rightarrow> int" where
  "sign_bit x = (if x < 0 then 128 else 0)"

lemma sign_of: "drop_bit 8 (sint (s :: s16)) AND 0x80 = sign_bit (sint s)"
proof -
  have r: "- 32768 \<le> sint s" "sint s < 32768" by (rule sint_range16)+
  define q where "q = sint s div 256"
  have q: "- 128 \<le> q" "q < 128" "q < 0 \<longleftrightarrow> sint s < 0" using r by (auto simp: q_def)
  have all: "\<forall>n \<in> set [0..<128]. int n AND 0x80 = 0 \<and> (int n - 128) AND 0x80 = 128" by code_simp
  have "q AND 0x80 = (if q < 0 then 128 else 0)"
    using q(1,2) all [THEN bspec, of "nat q"] all [THEN bspec, of "nat (q + 128)"] by (cases "q < 0") simp_all
  then show ?thesis using q(3) by (simp add: sign_bit_def drop_bit_eq_div q_def)
qed

definition ulaw_trap :: "u8 \<Rightarrow> u8" where
  "ulaw_trap b = (if b = 0 then 0x02 else if b = 0xff then 0x7f else b)"

lemma ulaw_encode:
  assumes "- 32768 < sint s" and seg: "seg_of (min \<bar>sint s\<bar> 32635 + 132) e"
  shows "wp_lineartoulaw s = ulaw_trap (word_of_int (255 -
    (sign_bit (sint s) + 16 * int e + ((min \<bar>sint s\<bar> 32635 + 132) div 2 ^ (e + 3) - 16))))"
proof -
  define x where "x = sint s"
  define X where "X = min \<bar>x\<bar> 32635 + 132"
  define m where "m = nat (X div 2 ^ (e + 3) - 16)"
  have xr: "- 32768 < x" "x < 32768" using assms(1) sint_range16 [of s] by (simp_all add: x_def)
  note sm = seg_mant [OF seg [folded x_def, folded X_def]]
  have m: "m < 16" "int m = X div 2 ^ (e + 3) - 16" using sm(3,4) by (simp_all add: m_def)
  have mag: "sint (if sign_bit x \<noteq> 0 then - s else s) = \<bar>x\<bar>"
    using xr by (auto simp: sign_bit_def x_def sint_word_minus signed_take_bit_int_eq_self)
  define a where "a = (if sign_bit x \<noteq> 0 then - s else s)"
  have clip: "sint (if sint a > sint CLIP then CLIP else a) = min \<bar>x\<bar> 32635"
    using mag by (simp add: CLIP_def a_def min_def)
  define b where "b = (if sint a > sint CLIP then CLIP else a)"
  have bias: "sint (b + BIAS) = X"
    using clip xr by (simp add: b_def X_def BIAS_def sint_word_add signed_take_bit_int_eq_self min_def)
  have e: "e < 8" using seg by (simp add: seg_of_def)
  have or: "sign_bit x OR (push_bit 4 (int e) OR int m) = sign_bit x + 16 * int e + int m"
    using code_bits [OF e m(1)] by (simp add: sign_bit_def)
  have "wp_lineartoulaw s = ulaw_trap (word_of_int (NOT (sign_bit x OR (push_bit 4 (int e) OR int m))))"
    unfolding wp_lineartoulaw_def sign_of Let_def
    unfolding x_def [symmetric]
    unfolding a_def [symmetric]
    unfolding b_def [symmetric]
    unfolding bias
    unfolding sm(1) sm(2) m(2) [symmetric] ulaw_trap_def
    by (rule refl | (split if_split, simp))+
  also have "word_of_int (NOT (sign_bit x OR (push_bit 4 (int e) OR int m))) =
      (word_of_int (255 - (sign_bit x + 16 * int e + int m)) :: u8)"
    unfolding or by (simp add: not_eq_complement word_of_int_eq_iff take_bit_eq_mod)
  finally show ?thesis unfolding m X_def x_def .
qed

lemma mu_decode_all: "\<forall>e \<in> set [0..<8]. \<forall>m \<in> set [0..<16].
   sint (mulaw_entry (255 - (16 * e + m))) = 2 ^ (e + 3) * (int m + 16) + 2 ^ (e + 2) - 132 \<and>
   sint (mulaw_entry (255 - (128 + 16 * e + m))) = - (2 ^ (e + 3) * (int m + 16) + 2 ^ (e + 2) - 132)"
  by code_simp


text \<open>The segment of a magnitude by the A-law: segments 0 and 1 are of the same step.\<close>

lemma alaw_seg_small: "0 \<le> x \<Longrightarrow> x < 256 \<Longrightarrow> alaw_seg x = 0"
  by (simp add: alaw_seg_def seg_end_def)

lemma alaw_seg_large:
  assumes "seg_of x e" "0 < e"
  shows "alaw_seg x = e"
proof -
  have "e = 1 \<or> e = 2 \<or> e = 3 \<or> e = 4 \<or> e = 5 \<or> e = 6 \<or> e = 7" using assms by (auto simp: seg_of_def)
  then show ?thesis using assms(1) by (auto simp: seg_of_def alaw_seg_def seg_end_def)
qed

definition alaw_step :: "nat \<Rightarrow> int" where
  "alaw_step e = (if e = 0 then 16 else 2 ^ (e + 3))"

definition alaw_low :: "nat \<Rightarrow> int" where
  "alaw_low e = (if e = 0 then 0 else 16)"

text \<open>The magnitudes of segment \<open>e\<close>.\<close>

definition aseg_of :: "int \<Rightarrow> nat \<Rightarrow> bool" where
  "aseg_of x e \<longleftrightarrow> e < 8 \<and> alaw_low e * alaw_step e \<le> x \<and> x < (alaw_low e + 16) * alaw_step e"

lemma aseg_ex:
  assumes "0 \<le> x" "x < 32768"
  obtains e where "aseg_of x e"
proof (cases "x < 256")
  case True
  then have "aseg_of x 0" using assms by (simp add: aseg_of_def alaw_low_def alaw_step_def)
  then show ?thesis using that by blast
next
  case False
  then obtain e where e: "seg_of x e" using seg_ex [of x] assms by auto
  have "e \<noteq> 0"
  proof
    assume "e = 0"
    with e False show False by (simp add: seg_of_def)
  qed
  then have "aseg_of x e" using e by (simp add: aseg_of_def seg_of_def alaw_low_def alaw_step_def power_add)
  then show ?thesis using that by blast
qed

lemma aseg_mant:
  assumes "aseg_of x e"
  shows "alaw_seg x = e"
    "drop_bit (if e \<noteq> 0 then e + 3 else 4) x AND 0x0F = x div alaw_step e - alaw_low e"
    "alaw_low e \<le> x div alaw_step e" "x div alaw_step e < alaw_low e + 16"
proof -
  have m: "y AND 0x0F = y mod 16" for y :: int
    using take_bit_eq_mask [of 4 y] by (simp add: mask_eq_exp_minus_1 take_bit_eq_mod)
  show "alaw_seg x = e"
    using assms alaw_seg_small [of x] alaw_seg_large [of x e]
    by (cases "e = 0") (auto simp: aseg_of_def seg_of_def alaw_low_def alaw_step_def power_add)
  show b: "alaw_low e \<le> x div alaw_step e" "x div alaw_step e < alaw_low e + 16"
    using assms seg_mant [of x e]
    by (cases "e = 0"; auto simp: aseg_of_def seg_of_def alaw_low_def alaw_step_def power_add)+
  show "drop_bit (if e \<noteq> 0 then e + 3 else 4) x AND 0x0F = x div alaw_step e - alaw_low e"
  proof (cases "e = 0")
    case True
    then show ?thesis using b by (simp add: m drop_bit_eq_div alaw_step_def alaw_low_def mod_pos_pos_trivial)
  next
    case False
    then show ?thesis using seg_mant(2) [of x e] assms
      by (simp add: aseg_of_def seg_of_def alaw_low_def alaw_step_def power_add)
  qed
qed

lemma alaw_sign_all: "\<forall>n \<in> set [0..<128]. (word_of_int (int n) :: u8) XOR (AMI_MASK OR 0x80) =
    word_of_int (128 + int n) XOR AMI_MASK"
  by code_simp

lemma alaw_encode:
  assumes "- 32768 < sint s" and seg: "aseg_of \<bar>sint s\<bar> e"
  shows "wp_lineartoalaw s =
    word_of_int ((if sint s < 0 then 0 else 128) + (16 * int e + (\<bar>sint s\<bar> div alaw_step e - alaw_low e))) XOR AMI_MASK"
proof -
  define x where "x = sint s"
  define m where "m = nat (\<bar>x\<bar> div alaw_step e - alaw_low e)"
  note sm = aseg_mant [OF seg [folded x_def]]
  have m: "m < 16" "int m = \<bar>x\<bar> div alaw_step e - alaw_low e" using sm(3,4) by (simp_all add: m_def)
  have e: "e < 8" using seg by (simp add: aseg_of_def)
  have split: "(case (if x \<ge> 0 then (AMI_MASK OR 0x80, x) else (AMI_MASK, - x)) of (a, b) \<Rightarrow> f a b) = f (if x < 0 then AMI_MASK else AMI_MASK OR 0x80) \<bar>x\<bar>" for f :: "u8 \<Rightarrow> int \<Rightarrow> u8"
    by simp
  have k: "16 * int e + int m < 128" using e m(1) by simp
  have "(word_of_int (16 * int e + int m) :: u8) XOR (if x < 0 then AMI_MASK else AMI_MASK OR 0x80) =
      word_of_int ((if x < 0 then 0 else 128) + (16 * int e + int m)) XOR AMI_MASK"
    using alaw_sign_all [THEN bspec, of "16 * e + m"] e m(1) by simp
  then show ?thesis
    unfolding wp_lineartoalaw_def Let_def x_def [symmetric]
    unfolding split
    unfolding sm(1) sm(2) m(2) [symmetric] code_bits(1) [OF e m(1)] .
qed


lemma alaw_decode_all: "\<forall>e \<in> set [0..<8]. \<forall>m \<in> set [0..<16].
   sint (wp_alaw2linear (word_of_int (int (16 * e + m)) XOR AMI_MASK)) = - (alaw_step e * (alaw_low e + int m)) \<and>
   sint (wp_alaw2linear (word_of_int (int (128 + 16 * e + m)) XOR AMI_MASK)) = alaw_step e * (alaw_low e + int m)"
  by code_simp

lemma unat_of_int8: "0 \<le> n \<Longrightarrow> n < 256 \<Longrightarrow> unat (word_of_int n :: u8) = nat n"
  by (simp add: unsigned_of_int take_bit_int_eq_self)

lemma unat_of_nat8: "n < 256 \<Longrightarrow> unat (word_of_nat n :: u8) = n"
  by (simp add: unsigned_of_nat take_bit_nat_eq_self)

lemma seg_bounds:
  assumes "seg_of X e" "q = X div 2 ^ (e + 3)"
  shows "2 ^ (e + 3) * q \<le> X" "X < 2 ^ (e + 3) * q + 2 ^ (e + 3)" "32 * 2 ^ (e + 2) \<le> X"
proof -
  have "X = 2 ^ (e + 3) * q + X mod 2 ^ (e + 3)" using assms(2) by simp
  moreover have "0 \<le> X mod 2 ^ (e + 3)" "X mod 2 ^ (e + 3) < 2 ^ (e + 3)" by simp_all
  ultimately show "2 ^ (e + 3) * q \<le> X" "X < 2 ^ (e + 3) * q + 2 ^ (e + 3)" by linarith+
  show "32 * 2 ^ (e + 2) \<le> X" using assms(1) by (simp add: seg_of_def power_add)
qed

lemma ulaw_step_all:
  assumes "e < 8" "m < 16"
  shows "sint (mulaw_entry (255 - (16 * e + m))) = 2 ^ (e + 3) * (int m + 16) + 2 ^ (e + 2) - 132"
    "sint (mulaw_entry (255 - (128 + 16 * e + m))) = - (2 ^ (e + 3) * (int m + 16) + 2 ^ (e + 2) - 132)"
  using mu_decode_all [THEN bspec, of e, THEN bspec, of m] assms by simp_all

lemma ulaw_value:
  assumes "- 32768 < x" "x < 32768"
  defines "y \<equiv> sint (mulaw_entry (unat (wp_lineartoulaw (word_of_int x))))"
    and "c \<equiv> min \<bar>x\<bar> 32635"
  shows "if x \<le> - 31612 then y = - 30076 else 32 * \<bar>\<bar>y\<bar> - c\<bar> \<le> c + 132 \<and> (x < 0 \<longrightarrow> y \<le> 0) \<and> (0 \<le> x \<longrightarrow> 0 \<le> y)"
proof -
  have sx: "sint (word_of_int x :: s16) = x" using assms by (intro sint_word16) simp_all
  define X where "X = c + 132"
  have "128 \<le> X" "X < 32768" using assms by (auto simp: X_def c_def)
  then obtain e where seg: "seg_of X e" by (rule seg_ex)
  then have e: "e < 8" by (simp add: seg_of_def)
  define m where "m = nat (X div 2 ^ (e + 3) - 16)"
  note sm = seg_mant [OF seg]
  have m: "m < 16" "int m = X div 2 ^ (e + 3) - 16" using sm(3,4) by (simp_all add: m_def)
  define n where "n = (if x < 0 then 128 else 0) + 16 * e + m"
  have n: "n < 256" using e m(1) by (simp add: n_def)
  have enc: "wp_lineartoulaw (word_of_int x) = ulaw_trap (word_of_int (255 - int n))"
    using ulaw_encode [of "word_of_int x" e] assms(1) seg
    unfolding sx X_def c_def m(2) [symmetric, unfolded X_def c_def] by (simp add: n_def sign_bit_def)
  define v where "v = 2 ^ (e + 3) * (int m + 16) + 2 ^ (e + 2) - 132"
  have v: "sint (mulaw_entry (255 - n)) = (if x < 0 then - v else v)"
    using ulaw_step_all [OF e m(1)] by (simp add: n_def v_def)
  define p :: int where "p = 2 ^ e"
  have p: "1 \<le> p" "p \<le> 128"
    using e power_increasing [of e 7 "2 :: int"] by (simp_all add: p_def)
  define q where "q = p * (int m + 16)"
  have X: "8 * q \<le> X" "X < 8 * q + 8 * p" "128 * p \<le> X" "v = 8 * q + 4 * p - 132" "16 * p \<le> q"
    using seg_bounds [OF seg refl] p m
    by (simp_all add: q_def p_def v_def power_add)
  have v0: "0 \<le> v" using X p by linarith
  then have b: "32 * \<bar>v - c\<bar> \<le> c + 132" "0 \<le> v" using X(1-4) unfolding X_def by (simp_all add: abs_if)
  have byte: "wp_lineartoulaw (word_of_int x) = ulaw_trap (word_of_nat (255 - n))"
    using n by (simp add: enc of_nat_diff)
  have low: "x \<le> - 31612 \<longleftrightarrow> n = 255"
  proof
    assume "x \<le> - 31612"
    then have x: "31744 \<le> X" "x < 0" by (auto simp: X_def c_def)
    then have "p * 256 > 31744" using seg by (simp add: seg_of_def p_def)
    then have "\<not> p \<le> 64" by simp
    then have "e = 7" using e power_increasing [of e 6 "2 :: int"] by (cases "e = 7") (simp_all add: p_def)
    then show "n = 255" using x m by (simp add: n_def)
  next
    assume "n = 255"
    then have "x < 0" "16 * e + m = 127" using e m(1) by (auto simp: n_def split: if_splits)
    moreover from this have "e = 7" "m = 15" using m(1) by presburger+
    ultimately have "x < 0" "e = 7" "m = 15" by simp_all
    then show "x \<le> - 31612" using X by (auto simp: p_def q_def X_def c_def)
  qed
  show ?thesis
  proof (cases "n = 255")
    case True
    then have "y = sint (mulaw_entry 2)" by (simp add: y_def byte ulaw_trap_def)
    moreover have "sint (mulaw_entry 2) = - 30076" by code_simp
    ultimately show ?thesis using True low by simp
  next
    case False
    have "y = (if x < 0 then - v else v)"
    proof (cases "n = 0")
      case True
      then have "e = 0" "m = 0" "\<not> x < 0" by (auto simp: n_def split: if_splits)
      moreover have "sint (mulaw_entry 127) = 0" by code_simp
      ultimately show ?thesis using True by (simp add: y_def byte ulaw_trap_def v_def)
    next
      case n0: False
      define w :: u8 where "w = word_of_nat (255 - n)"
      have w: "unat w = 255 - n" unfolding w_def by (rule unat_of_nat8) simp
      have "w \<noteq> 0" "w \<noteq> 0xff" using w False n0 n by auto
      then have "ulaw_trap w = w" by (simp add: ulaw_trap_def)
      then show ?thesis unfolding y_def byte w_def [symmetric] using v w by simp
    qed
    moreover from this have "\<bar>y\<bar> = v" using v0 by simp
    ultimately show ?thesis using b low False by auto
  qed
qed


lemma alaw_step_all:
  assumes "e < 8" "m < 16"
  shows "sint (wp_alaw2linear (word_of_int (16 * int e + int m) XOR AMI_MASK)) = - (alaw_step e * (alaw_low e + int m))"
    "sint (wp_alaw2linear (word_of_int (128 + (16 * int e + int m)) XOR AMI_MASK)) = alaw_step e * (alaw_low e + int m)"
  using alaw_decode_all [THEN bspec, of e, THEN bspec, of m] assms by (simp_all add: add.assoc)

lemma alaw_value:
  assumes "- 32768 < x" "x < 32768"
  defines "y \<equiv> sint (wp_alaw2linear (wp_lineartoalaw (word_of_int x)))"
  shows "\<bar>y\<bar> \<le> \<bar>x\<bar> \<and> 16 * (\<bar>x\<bar> - \<bar>y\<bar>) \<le> max 240 \<bar>x\<bar> \<and> (x < 0 \<longrightarrow> y \<le> 0) \<and> (0 \<le> x \<longrightarrow> 0 \<le> y)"
proof -
  have sx: "sint (word_of_int x :: s16) = x" using assms by (intro sint_word16) simp_all
  define c where "c = \<bar>x\<bar>"
  have "0 \<le> c" "c < 32768" using assms by (auto simp: c_def abs_if)
  then obtain e where seg: "aseg_of c e" by (rule aseg_ex)
  then have e: "e < 8" by (simp add: aseg_of_def)
  define m where "m = nat (c div alaw_step e - alaw_low e)"
  note sm = aseg_mant [OF seg]
  have m: "m < 16" "int m = c div alaw_step e - alaw_low e" using sm(3,4) by (simp_all add: m_def)
  define v where "v = alaw_step e * (alaw_low e + int m)"
  have y: "y = (if x < 0 then - v else v)"
    using alaw_encode [of "word_of_int x" e] assms(1) seg alaw_step_all [OF e m(1)]
    unfolding y_def sx c_def [symmetric] m(2) [symmetric] v_def by simp
  have step: "0 < alaw_step e" by (simp add: alaw_step_def)
  have "c = v + c mod alaw_step e" using m(2) by (simp add: v_def)
  moreover have "0 \<le> c mod alaw_step e" "c mod alaw_step e < alaw_step e" using step by simp_all
  ultimately have r: "v \<le> c" "c - v \<le> alaw_step e - 1" by linarith+
  have v0: "0 \<le> v" using step by (simp add: v_def alaw_low_def)
  have big: "16 * (alaw_step e - 1) \<le> max 240 c"
  proof (cases "e = 0")
    case False
    then have "16 * alaw_step e \<le> c" using seg by (simp add: aseg_of_def alaw_low_def)
    then show ?thesis by simp
  qed (simp add: alaw_step_def)
  have "16 * (c - v) \<le> max 240 c" using r(2) by (intro order_trans [OF _ big]) simp
  moreover have "\<bar>y\<bar> = v" using y v0 by simp
  ultimately show ?thesis using y v0 r(1) unfolding c_def [symmetric] by auto
qed

text \<open>Codes: what is decoded and encoded again.\<close>

lemma byte_parts:
  obtains sg e m where "sg = 0 \<or> sg = (128 :: nat)" "e < 8" "m < 16" "unat (b :: u8) = sg + 16 * e + m"
proof -
  define n where "n = unat b"
  have "n < 256" by (simp add: n_def)
  then have "n div 128 < 2" by (simp add: less_mult_imp_div_less)
  then have "128 * (n div 128) = 0 \<or> 128 * (n div 128) = 128" by (auto simp: less_2_cases_iff)
  moreover have "n mod 128 div 16 < 8" by (simp add: less_mult_imp_div_less)
  moreover have "n mod 128 mod 16 < 16" "n = 128 * (n div 128) + 16 * (n mod 128 div 16) + n mod 128 mod 16"
    using mult_div_mod_eq [of 128 n] mult_div_mod_eq [of 16 "n mod 128"] by simp_all
  ultimately show ?thesis using that unfolding n_def by blast
qed

lemma unat_not8:
  assumes "unat (NOT b) = n"
  shows "unat (b :: u8) = 255 - n"
proof -
  have "int (unat (NOT b)) = 255 - int (unat b)"
    using take_bit_int_eq_self [of "uint b" 8] unsigned_less [of b, where ?'a = int]
    by (simp add: unsigned_not_eq take_bit_not_eq_mask_diff mask_eq_exp_minus_1)
  then have "int (unat b + n) = 255" using assms by simp
  then show ?thesis by linarith
qed

lemma ulaw_again: "wp_lineartoulaw (mulaw_entry (unat b)) = ulaw_trap b" "sint (mulaw_entry (unat b)) mod 4 = 0"
proof -
  obtain sg e m where sg: "sg = 0 \<or> sg = 128" and e: "e < 8" and m: "m < 16" and n: "unat (NOT b) = sg + 16 * e + m"
    by (rule byte_parts)
  have b: "unat b = 255 - (sg + 16 * e + m)" by (rule unat_not8 [OF n])
  define p :: int where "p = 2 ^ e"
  have p: "1 \<le> p" "p \<le> 128"
    using e power_increasing [of e 7 "2 :: int"] by (simp_all add: p_def)
  define q where "q = p * (int m + 16)"
  define v where "v = 8 * q + 4 * p - 132"
  define s where "s = mulaw_entry (unat b)"
  have s: "sint s = (if sg = 128 then - v else v)"
    using sg ulaw_step_all [OF e m] by (auto simp: s_def b v_def q_def p_def power_add algebra_simps)
  have q: "16 * p \<le> q" "q \<le> 31 * p" using p m by (simp_all add: q_def mult.commute [of p] mult_right_mono)
  then have v: "0 \<le> v" "v \<le> 32124" using p by (simp_all add: v_def)
  have seg: "seg_of (v + 132) e" using q p e by (simp add: seg_of_def v_def p_def [symmetric])
  have "v + 132 = (int m + 16) * (8 * p) + 4 * p" by (simp add: v_def q_def)
  then have d: "(v + 132) div 2 ^ (e + 3) = int m + 16"
    using p by (simp add: p_def [symmetric] power_add mult.commute [of _ 8]) 
  have "\<bar>sint s\<bar> = v" using s v by auto
  then have mag: "min \<bar>sint s\<bar> 32635 = v" using v by simp
  have enc: "wp_lineartoulaw s = ulaw_trap (word_of_int (255 - (sign_bit (sint s) + 16 * int e + int m)))"
    using ulaw_encode [of s e] seg v s unfolding mag d by (simp split: if_splits)
  show "wp_lineartoulaw (mulaw_entry (unat b)) = ulaw_trap b"
  proof (cases "v = 0 \<and> sg = 128")
    case True
    then have "p = 1" "q = 16" using p q by (simp_all add: v_def)
    then have "e = 0" "m = 0" using power_inject_exp [of "2 :: int" e 0] by (auto simp: q_def p_def)
    then have "unat b = 127" "sint s = 0" using b s True by simp_all
    then have "b = 0x7f" by (simp add: word_eq_iff_unsigned [where ?'a = nat])
    then show ?thesis using enc \<open>e = 0\<close> \<open>m = 0\<close> \<open>sint s = 0\<close> by (simp add: s_def sign_bit_def ulaw_trap_def)
  next
    case False
    then have "sign_bit (sint s) = int sg" using s v sg by (auto simp: sign_bit_def)
    moreover have "word_of_int (255 - (int sg + 16 * int e + int m)) = b"
    proof -
      have "255 - (int sg + 16 * int e + int m) = int (unat b)" using b sg e m by (auto simp: of_nat_diff)
      then show ?thesis by (simp only:) simp
    qed
    ultimately show ?thesis using enc by (simp add: s_def)
  qed
  have "v = 4 * (2 * q + p - 33)" by (simp add: v_def)
  then show "sint (mulaw_entry (unat b)) mod 4 = 0" using s by (simp add: s_def)
qed

lemma alaw_again:
  "wp_lineartoalaw (wp_alaw2linear b) = (if b = 0x55 then 0xD5 else b)" "sint (wp_alaw2linear b) mod 4 = 0"
proof -
  obtain sg e m where sg: "sg = 0 \<or> sg = 128" and e: "e < 8" and m: "m < 16"
    and n: "unat (b XOR AMI_MASK) = sg + 16 * e + m"
    by (rule byte_parts)
  have "b XOR AMI_MASK = word_of_nat (sg + 16 * e + m)" unfolding n [symmetric] by simp
  then have "b = word_of_nat (sg + 16 * e + m) XOR AMI_MASK"
    by (metis xor.assoc xor.right_neutral xor_self_eq)
  then have b: "b = word_of_int (int sg + (16 * int e + int m)) XOR AMI_MASK" by (simp add: add.assoc)
  define v where "v = alaw_step e * (alaw_low e + int m)"
  define s where "s = wp_alaw2linear b"
  have s: "sint s = (if sg = 128 then v else - v)"
    using sg alaw_step_all [OF e m] by (auto simp: s_def b v_def)
  have st: "16 \<le> alaw_step e" "alaw_step e \<le> 1024"
    using e power_increasing [of 1 e "2 :: int"] power_increasing [of e 7 "2 :: int"]
    by (auto simp: alaw_step_def power_add)
  have v0: "0 \<le> v" using st by (simp add: v_def alaw_low_def)
  have "v < alaw_step e * 32" unfolding v_def using st m by (intro mult_strict_left_mono) (simp_all add: alaw_low_def)
  then have v: "v < 32768" using st by simp
  have d: "v div alaw_step e = alaw_low e + int m" using st by (simp add: v_def)
  have seg: "aseg_of v e"
    using e m st unfolding aseg_of_def v_def by (simp add: mult.commute [of "alaw_step e"])
  have "\<bar>sint s\<bar> = v" using s v0 by auto
  then have enc: "wp_lineartoalaw s = word_of_int ((if sint s < 0 then 0 else 128) + (16 * int e + int m)) XOR AMI_MASK"
    using alaw_encode [of s e] seg s v v0 by (simp add: d split: if_splits)
  show "wp_lineartoalaw (wp_alaw2linear b) = (if b = 0x55 then 0xD5 else b)"
  proof (cases "v = 0 \<and> sg = 0")
    case True
    then have "alaw_low e = 0" "m = 0" using st m by (auto simp: v_def alaw_low_def split: if_splits)
    then have em: "e = 0" "m = 0" by (auto simp: alaw_low_def split: if_splits)
    then have "b = 0x55" using True by (simp add: b AMI_MASK_def)
    moreover have "wp_lineartoalaw s = 0xD5" using enc True s em by (simp add: AMI_MASK_def)
    ultimately show ?thesis by (simp add: s_def)
  next
    case False
    then have sb: "(if sint s < 0 then 0 else 128) = int sg" using sg s v0 by auto
    have "b \<noteq> 0x55"
    proof
      assume "b = 0x55"
      then have "sg = 0" "e = 0" "m = 0" using n by (simp_all add: AMI_MASK_def)
      then show False using False by (simp add: v_def alaw_low_def)
    qed
    then show ?thesis using enc unfolding sb s_def [symmetric] by (simp add: b)
  qed
  have "4 dvd alaw_step e" by (simp add: alaw_step_def power_add)
  then have "4 dvd v" by (simp add: v_def)
  then show "sint (wp_alaw2linear b) mod 4 = 0" using s by (auto simp: s_def dvd_eq_mod_eq_0 [symmetric])
qed

section \<open>Reference\<close>

text \<open>G.711 in arithmetic: segment, step and sign of a code.\<close>

definition g711 :: "codec_law \<Rightarrow> u8 \<Rightarrow> int" where
  "g711 c b =
     (case c of
        WP_MULAW \<Rightarrow>
          let n = 255 - unat b; e = n mod 128 div 16; m = n mod 16;
              v = 2 ^ (e + 3) * (int m + 16) + 2 ^ (e + 2) - 132
          in if n < 128 then v else - v
      | WP_ALAW \<Rightarrow>
          let n = unat (b XOR 0x55); e = n mod 128 div 16; m = n mod 16;
              v = (if e = 0 then 16 * int m else 2 ^ (e + 3) * (int m + 16))
          in if n < 128 then - v else v)"

definition law_table :: "codec_law \<Rightarrow> codec_tables \<Rightarrow> s16 arr" where
  "law_table c t = (case c of WP_MULAW \<Rightarrow> wp_mulaw t | WP_ALAW \<Rightarrow> wp_alaw t)"

definition abs_table :: "codec_law \<Rightarrow> u16 list" where
  "abs_table c = (case c of WP_MULAW \<Rightarrow> u2s | WP_ALAW \<Rightarrow> a2s)"

lemma parts_eq:
  assumes "sg = 0 \<or> sg = (128 :: nat)" "e < 8" "m < 16" "n = sg + 16 * e + m"
  shows "n mod 128 div 16 = e" "n mod 16 = m" "n < 128 \<longleftrightarrow> sg = 0" "n mod 128 = 16 * e + m"
proof -
  have "16 * e + m < 128" using assms(2,3) by simp
  then show n: "n mod 128 = 16 * e + m" using assms by (auto simp: add.assoc)
  show "n mod 128 div 16 = e" unfolding n using assms(2,3) by simp
  show "n < 128 \<longleftrightarrow> sg = 0" using assms by auto
  have "n mod 16 = n mod 128 mod 16" by (simp add: mod_mod_cancel)
  also have "\<dots> = m" unfolding n using assms(3) by simp
  finally show "n mod 16 = m" .
qed

lemma g711_ulaw:
  assumes "sg = 0 \<or> sg = 128" "e < 8" "m < 16" "unat (NOT b) = sg + 16 * e + m"
  shows "sint (mulaw_entry (unat b)) = g711 WP_MULAW b"
    "g711 WP_MULAW b = (if sg = 0 then 1 else - 1) * (2 ^ (e + 3) * (int m + 16) + 2 ^ (e + 2) - 132)"
proof -
  have b: "unat b = 255 - (sg + 16 * e + m)" by (rule unat_not8 [OF assms(4)])
  have "sg + 16 * e + m < 256" using assms by auto
  then have n: "255 - unat b = sg + 16 * e + m" using b by simp
  show g: "g711 WP_MULAW b = (if sg = 0 then 1 else - 1) * (2 ^ (e + 3) * (int m + 16) + 2 ^ (e + 2) - 132)"
    unfolding g711_def Let_def n using parts_eq [OF assms(1-3) refl] by simp
  show "sint (mulaw_entry (unat b)) = g711 WP_MULAW b"
    unfolding g b using ulaw_step_all [OF assms(2,3)] assms(1) by auto
qed

lemma g711_alaw:
  assumes "sg = 0 \<or> sg = 128" "e < 8" "m < 16" "unat (b XOR AMI_MASK) = sg + 16 * e + m"
  shows "sint (wp_alaw2linear b) = g711 WP_ALAW b"
    "g711 WP_ALAW b = (if sg = 0 then - 1 else 1) * (alaw_step e * (alaw_low e + int m))"
proof -
  define k where "k = 16 * e + m"
  have x: "b XOR AMI_MASK = word_of_nat (sg + k)" unfolding k_def add.assoc [symmetric] assms(4) [symmetric] by simp
  then have b: "b = word_of_int (int sg + (16 * int e + int m)) XOR AMI_MASK"
    by (simp add: k_def) (metis xor.assoc xor.right_neutral xor_self_eq)
  show g: "g711 WP_ALAW b = (if sg = 0 then - 1 else 1) * (alaw_step e * (alaw_low e + int m))"
    unfolding g711_def Let_def assms(4) [unfolded AMI_MASK_def]
    unfolding codec_law.case parts_eq [OF assms(1-3) refl] using assms(3) by (simp add: alaw_step_def alaw_low_def)
  have "sint (wp_alaw2linear b) = (if sg = 0 then - 1 else 1) * (alaw_step e * (alaw_low e + int m))"
    by (subst b) (use alaw_step_all [OF assms(2,3)] assms(1) in auto)
  then show "sint (wp_alaw2linear b) = g711 WP_ALAW b" unfolding g .
qed

text \<open>The conversion tables are those of G.711, the tables of absolute values fit them.\<close>

lemma law_table_init: "law_table c (wanpipe_codec_law_init t) (unat b) = word_of_int (g711 c b)" for b :: u8
proof -
  have "sint (law_table c (wanpipe_codec_law_init t) (unat b)) = g711 c b"
  proof (cases c)
    case WP_MULAW
    show ?thesis by (rule byte_parts [of "NOT b"]) (simp add: law_table_def init_tables WP_MULAW g711_ulaw(1))
  next
    case WP_ALAW
    show ?thesis by (rule byte_parts [of "b XOR AMI_MASK"]) (simp add: law_table_def init_tables WP_ALAW g711_alaw(1))
  qed
  then have "word_of_int (sint (law_table c (wanpipe_codec_law_init t) (unat b))) = (word_of_int (g711 c b) :: s16)"
    by (rule arg_cong)
  then show ?thesis by simp
qed


lemma u2s_all: "\<forall>e \<in> set [0..<8]. \<forall>m \<in> set [0..<16].
   uint (u2s ! (127 - (16 * e + m))) = 2 ^ (e + 3) * (int m + 16) + 2 ^ (e + 2) - 132"
  by code_simp

lemma a2s_all: "\<forall>e \<in> set [0..<8]. \<forall>m \<in> set [0..<16].
   uint (a2s ! unat ((word_of_nat (16 * e + m) :: u8) XOR AMI_MASK)) = alaw_step e * (alaw_low e + int m)"
  by code_simp

lemma alaw_low_all: "\<forall>k \<in> set [0..<128]. ((word_of_nat k :: u8) XOR AMI_MASK) AND 0x7F = word_of_nat k XOR AMI_MASK \<and>
   ((word_of_nat (128 + k) :: u8) XOR AMI_MASK) AND 0x7F = word_of_nat k XOR AMI_MASK"
  by code_simp

lemma and_7f: "unat (b AND 0x7F :: u8) = unat b mod 128"
proof -
  have "b AND 0x7F = take_bit 7 b" by (simp add: take_bit_eq_mask mask_eq_exp_minus_1)
  then have "unat (b AND 0x7F) = take_bit 7 (unat b)" by (simp only: unsigned_take_bit_eq)
  then show ?thesis by (simp only: take_bit_eq_mod) simp
qed

lemma abs_table_g711: "uint (abs_table c ! unat (b AND 0x7F)) = \<bar>g711 c b\<bar>"
proof (cases c)
  case WP_MULAW
  obtain sg e m where s: "sg = 0 \<or> sg = 128" "e < 8" "m < 16" "unat (NOT b) = sg + 16 * e + m" by (rule byte_parts)
  have b: "unat b = 255 - (sg + 16 * e + m)" by (rule unat_not8 [OF s(4)])
  have "16 * e + m < 128" using s by simp
  then have "unat b mod 128 = 127 - (16 * e + m)"
    using s(1) unfolding b by (auto simp: mod_if)
  then have u: "uint (u2s ! unat (b AND 0x7F)) = 2 ^ (e + 3) * (int m + 16) + 2 ^ (e + 2) - 132"
    using u2s_all [THEN bspec, of e, THEN bspec, of m] s by (simp only: and_7f) simp
  then have "0 \<le> 2 ^ (e + 3) * (int m + 16) + 2 ^ (e + 2) - (132 :: int)" by (metis uint_nonnegative)
  then show ?thesis
    unfolding abs_table_def WP_MULAW codec_law.case u g711_ulaw(2) [OF s] by (auto split: if_split)
next
  case WP_ALAW
  obtain sg e m where s: "sg = 0 \<or> sg = 128" "e < 8" "m < 16" "unat (b XOR AMI_MASK) = sg + 16 * e + m"
    by (rule byte_parts)
  define k where "k = 16 * e + m"
  have k: "k < 128" using s by (simp add: k_def)
  have "b XOR AMI_MASK = word_of_nat (sg + k)" unfolding k_def add.assoc [symmetric] s(4) [symmetric] by simp
  then have b: "b = word_of_nat (sg + k) XOR AMI_MASK" by (metis xor.assoc xor.right_neutral xor_self_eq)
  have low: "b AND 0x7F = word_of_nat k XOR AMI_MASK"
    using s(1) alaw_low_all [THEN bspec, of k] k unfolding b by auto
  have u: "uint (a2s ! unat (b AND 0x7F)) = alaw_step e * (alaw_low e + int m)"
    using a2s_all [THEN bspec, of e, THEN bspec, of m] s unfolding low k_def by simp
  have "0 \<le> alaw_step e * (alaw_low e + int m)" by (simp add: alaw_step_def alaw_low_def)
  then show ?thesis
    unfolding abs_table_def WP_ALAW codec_law.case u g711_alaw(2) [OF s] by (auto split: if_split)
qed

section \<open>Buffers\<close>

definition gained :: "(u8 \<Rightarrow> u8) option \<Rightarrow> u8 \<Rightarrow> u8" where
  "gained gain b = (case gain of Some g \<Rightarrow> g b | None \<Rightarrow> b)"

definition stored :: "user_copy \<Rightarrow> bool \<Rightarrow> nat \<Rightarrow> u16 \<Rightarrow> u16 \<Rightarrow> u16" where
  "stored u usr i old v = (if usr then copy_to_user u i old v else v)"

definition spliced :: "nat \<Rightarrow> nat \<Rightarrow> (nat \<Rightarrow> 'a) \<Rightarrow> 'a list \<Rightarrow> 'a list" where
  "spliced k n f xs = take k xs @ map f [k..<n] @ drop n xs"

lemma spliced_step:
  assumes "k < n" "k < length xs" "\<And>i. k < i \<Longrightarrow> i < n \<Longrightarrow> f' i = f i"
  shows "spliced (Suc k) n f' (xs[k := f k]) = spliced k n f xs"
  using assms by (simp add: spliced_def upt_conv_Cons take_Suc_conv_app_nth)

lemma spliced_empty [simp]: "spliced n n f xs = xs"
  by (simp add: spliced_def)

lemma law2s_loop_eq:
  assumes "k \<le> n"
  shows "law2s_loop u codec pcodec gain usr [k..<n] data buf pw =
    (if k < n \<and> (length data < n \<or> length buf < n) then None
     else Some (spliced k n (\<lambda>i. gained gain (data ! i)) data,
       spliced k n (\<lambda>i. stored u usr i (buf ! i) (codec (unat (gained gain (data ! i))))) buf,
       pw + (\<Sum>i \<leftarrow> [k..<n]. pcodec ! unat (gained gain (data ! i) AND 0x7F))))"
  using assms
proof (induction "n - k" arbitrary: k data buf pw)
  case 0
  then show ?case by simp
next
  case (Suc j)
  then have k: "k < n" and j: "j = n - Suc k" "Suc k \<le> n" by simp_all
  show ?case
  proof (cases "k < length data \<and> k < length buf")
    case False
    then show ?thesis using k by (auto simp: upt_conv_Cons)
  next
    case in_k: True
    define d where "d = gained gain (data ! k)"
    define v where "v = stored u usr k (buf ! k) (codec (unat d))"
    have "law2s_loop u codec pcodec gain usr [k..<n] data buf pw =
        law2s_loop u codec pcodec gain usr [Suc k..<n] (data[k := d]) (buf[k := v]) (pw + pcodec ! unat (d AND 0x7F))"
      using in_k k by (auto simp: upt_conv_Cons Let_def d_def v_def gained_def stored_def split: option.split)
    also have "\<dots> = (if k < n \<and> (length data < n \<or> length buf < n) then None
     else Some (spliced k n (\<lambda>i. gained gain (data ! i)) data,
       spliced k n (\<lambda>i. stored u usr i (buf ! i) (codec (unat (gained gain (data ! i))))) buf,
       pw + (\<Sum>i \<leftarrow> [k..<n]. pcodec ! unat (gained gain (data ! i) AND 0x7F))))"
    proof (cases "length data < n \<or> length buf < n")
      case True
      then have "Suc k < n" using in_k by auto
      then show ?thesis using True k Suc.hyps(1) [OF j] by simp
    next
      case False
      have s: "(\<Sum>i \<leftarrow> [Suc k..<n]. pcodec ! unat (gained gain (data[k := d] ! i) AND 0x7F)) =
          (\<Sum>i \<leftarrow> [Suc k..<n]. pcodec ! unat (gained gain (data ! i) AND 0x7F))"
        by (intro arg_cong [of _ _ sum_list] map_cong) simp_all
      show ?thesis
        using False in_k k Suc.hyps(1) [OF j] spliced_step [of k n data _ "\<lambda>i. gained gain (data ! i)"]
          spliced_step [of k n buf _ "\<lambda>i. stored u usr i (buf ! i) (codec (unat (gained gain (data ! i))))"]
        by (simp add: d_def [symmetric] v_def [symmetric] upt_conv_Cons add.assoc s)
    qed
    finally show ?thesis .
  qed
qed

lemma s2law_loop_eq:
  assumes "k \<le> n"
  shows "s2law_loop u codec gain usr [k..<n] data buf =
    (if k < n \<and> (length data < n \<or> length buf < n) then None
     else Some (spliced k n (\<lambda>i. gained gain (codec (lin_index
       (if usr then copy_from_user u i (data ! i) else data ! i)))) buf))"
  using assms
proof (induction "n - k" arbitrary: k buf)
  case 0
  then show ?case by simp
next
  case (Suc j)
  then have k: "k < n" and j: "j = n - Suc k" "Suc k \<le> n" by simp_all
  show ?case
  proof (cases "k < length data \<and> k < length buf")
    case False
    then show ?thesis using k by (auto simp: upt_conv_Cons)
  next
    case True
    then show ?thesis
      using k Suc.hyps(1) [OF j] spliced_step [of k n buf _ "\<lambda>i. gained gain (codec (lin_index
       (if usr then copy_from_user u i (data ! i) else data ! i)))"]
      by (auto simp: upt_conv_Cons Let_def gained_def [symmetric] split: option.split)
  qed
qed

end
