(* ===== verification/Codec_Props.thy ===== *)
theory Codec_Props
  imports Codec_Table
begin

unbundle bit_operations_syntax

text \<open>
  The properties of the companding code: the conversion of a buffer to samples, codes that
  come back, the error of the quantisation, single codes, and the detector on idle lines.
\<close>

section \<open>Encoding after decoding\<close>


















text \<open>Single codes.\<close>

definition half_step :: "u8 \<Rightarrow> int" where
  "half_step b = (let e = unat (b XOR 0x55) mod 128 div 16 in if e = 0 then 8 else 2 ^ (e + 2))"

lemma single_ulaw_all: "\<forall>e \<in> set [0..<8]. \<forall>m \<in> set [0..<16].
   wanpipe_codec_get_ulaw_to_linear (NOT (word_of_nat (16 * e + m))) = 2 ^ (e + 3) * (int m + 16) + 2 ^ (e + 2) - 132 \<and>
   wanpipe_codec_get_ulaw_to_linear (NOT (word_of_nat (128 + (16 * e + m)))) = - (2 ^ (e + 3) * (int m + 16) + 2 ^ (e + 2) - 132)"
  by code_simp

lemma single_alaw_all: "\<forall>e \<in> set [0..<8]. \<forall>m \<in> set [0..<16].
   wanpipe_codec_get_alaw_to_linear (word_of_nat (16 * e + m) XOR AMI_MASK) = - (alaw_step e * (alaw_low e + int m) + alaw_step e div 2) \<and>
   wanpipe_codec_get_alaw_to_linear (word_of_nat (128 + (16 * e + m)) XOR AMI_MASK) = alaw_step e * (alaw_low e + int m) + alaw_step e div 2"
  by code_simp

text \<open>
  The decoder of single codes agrees with the conversion tables for the mu-law. For the A-law
  it gives the middle of the interval of a code, where the tables give its lower end: the two
  differ for every code, by half a step of its segment.
\<close>

theorem codec_single_codes:
  "wanpipe_codec_convert_to_linear b 0 = g711 WP_MULAW b \<and>
   wanpipe_codec_convert_to_linear b 1 =
     (if unat (b XOR 0x55) < 128 then g711 WP_ALAW b - half_step b else g711 WP_ALAW b + half_step b)"
proof
  obtain sg e m where s: "sg = 0 \<or> sg = 128" "e < 8" "m < 16" "unat (NOT b) = sg + 16 * e + m" by (rule byte_parts)
  have n: "NOT b = word_of_nat (sg + 16 * e + m)" unfolding s(4) [symmetric] by simp
  have "wanpipe_codec_get_ulaw_to_linear (NOT (NOT b)) = g711 WP_MULAW b"
    unfolding n g711_ulaw(2) [OF s] using s(1) single_ulaw_all [THEN bspec, of e, THEN bspec, of m] s(2,3)
    by (auto simp: add.assoc)
  then show "wanpipe_codec_convert_to_linear b 0 = g711 WP_MULAW b"
    by (simp add: wanpipe_codec_convert_to_linear_def)
next
  obtain sg e m where s: "sg = 0 \<or> sg = 128" "e < 8" "m < 16" "unat (b XOR AMI_MASK) = sg + 16 * e + m" by (rule byte_parts)
  have n: "b XOR AMI_MASK = word_of_nat (sg + 16 * e + m)" unfolding s(4) [symmetric] by simp
  then have b: "b = word_of_nat (sg + 16 * e + m) XOR AMI_MASK" by (metis xor.assoc xor.right_neutral xor_self_eq)
  show "wanpipe_codec_convert_to_linear b 1 =
     (if unat (b XOR 0x55) < 128 then g711 WP_ALAW b - half_step b else g711 WP_ALAW b + half_step b)"
  proof -
    have "half_step b = alaw_step e div 2"
      unfolding half_step_def s(4) [unfolded AMI_MASK_def] Let_def parts_eq [OF s(1-3) refl]
      using s(3) by (simp add: alaw_step_def power_add)
    moreover have "unat (b XOR 0x55) < 128 \<longleftrightarrow> sg = 0"
      using parts_eq(3) [OF s(1-3) refl] s(4) by (simp add: AMI_MASK_def)
    moreover have "wanpipe_codec_convert_to_linear b 1 =
        (if sg = 0 then - 1 else 1) * (alaw_step e * (alaw_low e + int m) + alaw_step e div 2)"
      by (subst b) (use s single_alaw_all [THEN bspec, of e, THEN bspec, of m] in
        \<open>auto simp: wanpipe_codec_convert_to_linear_def add.assoc\<close>)
    ultimately show ?thesis unfolding g711_alaw(2) [OF s] by (auto simp: algebra_simps)
  qed
qed


section \<open>The detector\<close>

text \<open>
  An idle line: calls of the detector at times that do not go back, while the interrupt
  handler changes the hook and the ringing. \<open>ts\<close> are the times of the reports, the latest first.
\<close>

inductive listens :: "fake_cfg \<Rightarrow> nat list \<Rightarrow> nat \<Rightarrow> fxo \<Rightarrow> bool" for c where
  start: "unat (cidtimer f) \<le> now \<Longrightarrow> now + 2000 < 4294967296 \<Longrightarrow> listens c [] now f"
| samples: "listens c ts now f \<Longrightarrow> now \<le> unat w \<Longrightarrow> unat w + 2000 < 4294967296 \<Longrightarrow>
    wp_tdmapi_check_fakepolarity c w buf f = (r, f') \<Longrightarrow>
    listens c (if r = 1 then unat w # ts else ts) (unat w) f'"
| hook: "listens c ts now f \<Longrightarrow> listens c ts now (f\<lparr>offhook := b\<rparr>)"
| ringing: "listens c ts now f \<Longrightarrow> listens c ts now (f\<lparr>wasringing := b\<rparr>)"

definition quiet :: "nat list \<Rightarrow> nat \<Rightarrow> fxo \<Rightarrow> bool" where
  "quiet ts now f \<longleftrightarrow> now + 2000 < 4294967296 \<and> unat (cidtimer f) \<le> now \<and>
     (ts \<noteq> [] \<longrightarrow> (if readcid f then hd ts \<le> unat (cidtimer f) else hd ts + 2000 < unat (cidtimer f))) \<and>
     sorted_wrt (\<lambda>a b. b + 2400 < a) ts"

lemma check_quiet:
  assumes q: "quiet ts now f" and w: "now \<le> unat w" "unat w + 2000 < 4294967296"
    and c: "wp_tdmapi_check_fakepolarity c w buf f = (r, f')"
  shows "quiet (if r = 1 then unat w # ts else ts) (unat w) f'"
proof -
  have ct: "unat (cidtimer f + 400) = unat (cidtimer f) + 400" "unat (cidtimer f + 2000) = unat (cidtimer f) + 2000"
    using q w by (simp_all add: quiet_def unat_word_ariths)
  have rel: "w > cidtimer f + 400 \<longleftrightarrow> unat (cidtimer f) + 400 < unat w"
      "w > cidtimer f + 2000 \<longleftrightarrow> unat (cidtimer f) + 2000 < unat w"
    unfolding word_less_nat_alt ct by simp_all
  have far: "sorted_wrt (\<lambda>a b. b + 2400 < a) (unat w # ts)"
    if "ts \<noteq> [] \<longrightarrow> hd ts + 2000 < unat (cidtimer f)" "unat (cidtimer f) + 400 < unat w"
    using q that by (cases ts) (force simp: quiet_def)+
  show ?thesis
    using c q w far unfolding wp_tdmapi_check_fakepolarity_def Let_def rel
    by (auto simp: quiet_def split: if_splits)
qed

text \<open>
  C39. However loud the line, two reports of a reversed polarity are more than 2400 interrupts
  apart, as long as the counter of interrupts does not wrap around.
\<close>

theorem fake_reports_apart:
  assumes "listens c ts now f"
  shows "sorted_wrt (\<lambda>a b. b + 2400 < a) ts"
proof -
  from assms have "quiet ts now f"
  proof (induction rule: listens.induct)
    case (samples ts now f w buf r f')
    then show ?case using check_quiet by blast
  qed (auto simp: quiet_def)
  then show ?thesis by (simp add: quiet_def)
qed

definition ex_fake :: fake_cfg where
  "ex_fake = \<lparr>fake_polarity = True, fake_polarity_thres = 0, hw_tdm_coding = 0\<rparr>"

definition ex_fxo :: fxo where
  "ex_fxo = \<lparr>is_fxo = True, offhook = False, cidtimer = 0, readcid = False, wasringing = False, reports = 0\<rparr>"

lemma ex_steps:
  "wp_tdmapi_check_fakepolarity ex_fake 500 [0x80] ex_fxo = (1, ex_fxo\<lparr>readcid := True, cidtimer := 500, reports := 1\<rparr>)"
  "wp_tdmapi_check_fakepolarity ex_fake 2600 [0x80] (ex_fxo\<lparr>readcid := True, cidtimer := 500, reports := 1\<rparr>) =
     (0, ex_fxo\<lparr>cidtimer := 2600, reports := 1\<rparr>)"
  "wp_tdmapi_check_fakepolarity ex_fake 3202 [0x80] (ex_fxo\<lparr>cidtimer := 2600, reports := 1\<rparr>) =
     (1, ex_fxo\<lparr>readcid := True, cidtimer := 3202, reports := 2\<rparr>)"
  by code_simp+

lemma ex_listens: "listens ex_fake [3202, 500] 3202 (ex_fxo\<lparr>readcid := True, cidtimer := 3202, reports := 2\<rparr>)"
proof -
  have "listens ex_fake [] 0 ex_fxo" by (rule start) (simp_all add: ex_fxo_def)
  from samples [OF this _ _ ex_steps(1)]
  have "listens ex_fake [500] 500 (ex_fxo\<lparr>readcid := True, cidtimer := 500, reports := 1\<rparr>)"
    by simp
  from samples [OF this _ _ ex_steps(2)]
  have "listens ex_fake [500] 2600 (ex_fxo\<lparr>cidtimer := 2600, reports := 1\<rparr>)" by simp
  from samples [OF this _ _ ex_steps(3)]
  show ?thesis by simp
qed

theorem fake_reports_apart_witness: "sorted_wrt (\<lambda>a b. b + 2400 < a) [3202, 500 :: nat]"
  by (rule fake_reports_apart [OF ex_listens])

end
