(* ===== verification/Sppp_State.thy ===== *)
theory Sppp_State
  imports Prelude
begin

unbundle bit_operations_syntax

text \<open>
  The state of the synchronous PPP and Cisco HDLC code (wanpipe_syncppp.c and .h), and
  the routines all its parts use: the restart timer, the sending of a control packet,
  the memory of a received packet. The code is read for a 64 bit little-endian machine
  and a kernel where timers are set up with \<open>init_timer\<close> and \<open>add_timer\<close>; messages to the
  log are left out. Memory behind a received packet has a content, so that a read past
  its end has a value; two ghost fields remember that there was one, or a store past the
  end of a packet or buffer.
\<close>

section \<open>Constants\<close>

abbreviation (input) PPP_ALLSTATIONS :: u8 where "PPP_ALLSTATIONS \<equiv> 0xff"
abbreviation (input) PPP_UI :: u8 where "PPP_UI \<equiv> 0x03"
abbreviation (input) PPP_IP :: u16 where "PPP_IP \<equiv> 0x0021"
abbreviation (input) PPP_IPX :: u16 where "PPP_IPX \<equiv> 0x002b"
abbreviation (input) PPP_LCP :: u16 where "PPP_LCP \<equiv> 0xc021"
abbreviation (input) PPP_IPCP :: u16 where "PPP_IPCP \<equiv> 0x8021"
abbreviation (input) PPP_PAP :: u16 where "PPP_PAP \<equiv> 0xc023"
abbreviation (input) PPP_CHAP :: u16 where "PPP_CHAP \<equiv> 0xc223"

abbreviation (input) IDX_LCP :: nat where "IDX_LCP \<equiv> 0"
abbreviation (input) IDX_PAP :: nat where "IDX_PAP \<equiv> 3"
abbreviation (input) IDX_CHAP :: nat where "IDX_CHAP \<equiv> 4"

abbreviation (input) AUTHNAMELEN :: nat where "AUTHNAMELEN \<equiv> 64"
abbreviation (input) AUTHKEYLEN :: nat where "AUTHKEYLEN \<equiv> 16"
abbreviation (input) AUTHFLAG_NORECHALLENGE :: u16 where "AUTHFLAG_NORECHALLENGE \<equiv> 2"

abbreviation (input) PP_KEEPALIVE :: u32 where "PP_KEEPALIVE \<equiv> 0x01"
abbreviation (input) PP_CISCO :: u32 where "PP_CISCO \<equiv> 0x02"
abbreviation (input) PP_TIMO :: u32 where "PP_TIMO \<equiv> 0x04"
abbreviation (input) PP_DEBUG :: u32 where "PP_DEBUG \<equiv> 0x08"
abbreviation (input) PP_NEEDAUTH :: u32 where "PP_NEEDAUTH \<equiv> 0x10"

abbreviation (input) ETH_P_IP :: u16 where "ETH_P_IP \<equiv> 0x0800"
abbreviation (input) ETH_P_IPX :: u16 where "ETH_P_IPX \<equiv> 0x8137"

text \<open>Codes of LCP and IPCP packets, options of LCP, packets of PAP and CHAP.\<close>

abbreviation (input) CONF_REQ :: u8 where "CONF_REQ \<equiv> 1"
abbreviation (input) CONF_ACK :: u8 where "CONF_ACK \<equiv> 2"
abbreviation (input) CONF_NAK :: u8 where "CONF_NAK \<equiv> 3"
abbreviation (input) CONF_REJ :: u8 where "CONF_REJ \<equiv> 4"
abbreviation (input) TERM_REQ :: u8 where "TERM_REQ \<equiv> 5"
abbreviation (input) TERM_ACK :: u8 where "TERM_ACK \<equiv> 6"
abbreviation (input) CODE_REJ :: u8 where "CODE_REJ \<equiv> 7"
abbreviation (input) PROTO_REJ :: u8 where "PROTO_REJ \<equiv> 8"
abbreviation (input) ECHO_REQ :: u8 where "ECHO_REQ \<equiv> 9"
abbreviation (input) ECHO_REPLY :: u8 where "ECHO_REPLY \<equiv> 10"
abbreviation (input) DISC_REQ :: u8 where "DISC_REQ \<equiv> 11"

abbreviation (input) OPT_MRU :: u8 where "OPT_MRU \<equiv> 1"
abbreviation (input) OPT_ASYNC_MAP :: u8 where "OPT_ASYNC_MAP \<equiv> 2"
abbreviation (input) OPT_AUTH_PROTO :: u8 where "OPT_AUTH_PROTO \<equiv> 3"
abbreviation (input) OPT_MAGIC :: u8 where "OPT_MAGIC \<equiv> 5"

abbreviation (input) PAP_REQ :: u8 where "PAP_REQ \<equiv> 1"
abbreviation (input) PAP_ACK :: u8 where "PAP_ACK \<equiv> 2"
abbreviation (input) PAP_NAK :: u8 where "PAP_NAK \<equiv> 3"
abbreviation (input) CHAP_CHALLENGE :: u8 where "CHAP_CHALLENGE \<equiv> 1"
abbreviation (input) CHAP_RESPONSE :: u8 where "CHAP_RESPONSE \<equiv> 2"
abbreviation (input) CHAP_SUCCESS :: u8 where "CHAP_SUCCESS \<equiv> 3"
abbreviation (input) CHAP_MD5 :: u8 where "CHAP_MD5 \<equiv> 5"

abbreviation (input) CISCO_MULTICAST :: u8 where "CISCO_MULTICAST \<equiv> 0x8f"
abbreviation (input) CISCO_UNICAST :: u8 where "CISCO_UNICAST \<equiv> 0x0f"
abbreviation (input) CISCO_KEEPALIVE :: u16 where "CISCO_KEEPALIVE \<equiv> 0x8035"
abbreviation (input) CISCO_ADDR_REQ :: u32 where "CISCO_ADDR_REQ \<equiv> 0"
abbreviation (input) CISCO_ADDR_REPLY :: u32 where "CISCO_ADDR_REPLY \<equiv> 1"
abbreviation (input) CISCO_KEEPALIVE_REQ :: u32 where "CISCO_KEEPALIVE_REQ \<equiv> 2"

section \<open>State\<close>

text \<open>\<open>LCP_STATE_*\<close> and \<open>IPCP_STATE_*\<close>; the states of RFC 1661, used for CHAP; the phases.\<close>

datatype cp_state = CP_CLOSED | CP_ACK_RCVD | CP_ACK_SENT | CP_OPENED

datatype rfc_state =
  STATE_INITIAL | STATE_STARTING | STATE_CLOSED | STATE_STOPPED | STATE_CLOSING
  | STATE_STOPPING | STATE_REQ_SENT | STATE_ACK_RCVD | STATE_ACK_SENT | STATE_OPENED

datatype ppp_phase =
  PHASE_DEAD | PHASE_ESTABLISH | PHASE_TERMINATE | PHASE_AUTHENTICATE | PHASE_NETWORK

datatype link_state = SPPP_LINK_DOWN | SPPP_LINK_UP

record slcp =
  lcp_state :: cp_state
  lcp_magic :: u32
  lcp_echoid :: u8
  lcp_confid :: u8
  lcp_opts :: u32
  lcp_protos :: u32
  lcp_max_configure :: int

record sipcp =
  ipcp_state :: cp_state
  ipcp_confid :: u8

record sauth =
  auth_proto :: u16
  auth_flags :: u16
  auth_name :: "u8 list"
  auth_secret :: "u8 list"
  auth_challenge :: "u8 list"

text \<open>
  What the kernel is asked to do: frames to the device queue, packets to the protocol
  stack with their type, work for the bottom half, and the calls the bottom half makes.
\<close>

datatype host_call = Set_local_ip u64 | Set_p2p_ip u64 | Add_gateway | Run_script

text \<open>
  \<open>struct sppp\<close> with the fields of its network device and, from \<open>xmit\<close> on, the requests
  to the kernel and the ghosts. The timer is the time at which it expires, when armed.
\<close>

record sppp =
  pp_flags :: u32
  pp_alivecnt :: u16
  pp_loopcnt :: u16
  lcp :: slcp
  ipcp :: sipcp
  ibytes :: u32
  obytes :: u32
  ipkts :: u32
  pp_timer :: "u64 option"
  pp_link_state :: link_state
  pp_seq :: "u32 arr"
  pp_rseq :: "u32 arr"
  pp_phase :: ppp_phase
  cp_states :: "rfc_state arr"
  confid :: "u8 arr"
  rst_counter :: "int arr"
  fail_counter :: "int arr"
  myauth :: sauth
  hisauth :: sauth
  dynamic_ip :: bool
  local_ip :: u64
  remote_ip :: u64
  gateway :: bool
  task_working :: bool
  dynamic_failures :: int
  dev_up :: bool
  dev_running :: bool
  dev_mtu :: int
  dev_hdlc :: bool
  xmit :: "u8 list list"
  rx_up :: "(u16 \<times> u8 list) list"
  tasks :: nat
  host :: "host_call list"
  allocs :: nat
  over_read :: bool
  over_write :: bool

text \<open>
  What a call finds in its environment: the clock, random octets, the answers of
  \<open>wan_get_ip_address\<close>, the address and mask of the interface in network order, whether
  the n-th allocation succeeds, and the module's \<open>sppp_max_keepalive_count\<close>.
\<close>

record env =
  jiffies :: u64
  hz :: u64
  rnd :: u32
  env_local_ip :: u64
  env_p2p_ip :: u64
  env_ifa :: "(u32 \<times> u32) option"
  alloc_ok :: "nat \<Rightarrow> bool"
  max_keepalive :: u32

section \<open>Flags and fields\<close>

definition pp_has :: "u32 \<Rightarrow> sppp \<Rightarrow> bool" where
  "pp_has f s \<longleftrightarrow> pp_flags s AND f \<noteq> 0"

definition pp_raise :: "u32 \<Rightarrow> sppp \<Rightarrow> sppp" where
  "pp_raise f s = s\<lparr>pp_flags := pp_flags s OR f\<rparr>"

definition pp_drop :: "u32 \<Rightarrow> sppp \<Rightarrow> sppp" where
  "pp_drop f s = s\<lparr>pp_flags := pp_flags s AND NOT f\<rparr>"

definition set_lcp :: "cp_state \<Rightarrow> sppp \<Rightarrow> sppp" where
  "set_lcp st s = s\<lparr>lcp := (lcp s)\<lparr>lcp_state := st\<rparr>\<rparr>"

definition set_ipcp :: "cp_state \<Rightarrow> sppp \<Rightarrow> sppp" where
  "set_ipcp st s = s\<lparr>ipcp := (ipcp s)\<lparr>ipcp_state := st\<rparr>\<rparr>"

definition set_magic :: "u32 \<Rightarrow> sppp \<Rightarrow> sppp" where
  "set_magic m s = s\<lparr>lcp := (lcp s)\<lparr>lcp_magic := m\<rparr>\<rparr>"

text \<open>\<open>++sp->pp_seq[i]\<close>: the new value is read from the new state.\<close>

definition inc_seq :: "nat \<Rightarrow> sppp \<Rightarrow> sppp" where
  "inc_seq i s = s\<lparr>pp_seq := (pp_seq s)(i := pp_seq s i + 1)\<rparr>"

abbreviation lcp_st :: "sppp \<Rightarrow> cp_state" where "lcp_st s \<equiv> lcp_state (lcp s)"
abbreviation ipcp_st :: "sppp \<Rightarrow> cp_state" where "ipcp_st s \<equiv> ipcp_state (ipcp s)"
abbreviation magic :: "sppp \<Rightarrow> u32" where "magic s \<equiv> lcp_magic (lcp s)"

section \<open>Octets\<close>

definition be16 :: "u16 \<Rightarrow> u8 list" where
  "be16 w = [ucast (drop_bit 8 w), ucast w]"

definition be32 :: "u32 \<Rightarrow> u8 list" where
  "be32 w = [ucast (drop_bit 24 w), ucast (drop_bit 16 w), ucast (drop_bit 8 w), ucast w]"

text \<open>A received packet: the octets from \<open>skb->data\<close> on, of which the first \<open>skb_len\<close> are its own.\<close>

record skb =
  skb_len :: nat
  skb_at :: "u8 arr"

definition skb_of :: "u8 list \<Rightarrow> skb" where
  "skb_of os = \<lparr>skb_len = length os, skb_at = (\<lambda>i. if i < length os then os ! i else 0)\<rparr>"

definition skb_pull :: "nat \<Rightarrow> skb \<Rightarrow> skb" where
  "skb_pull n k =
     (if n \<le> skb_len k then \<lparr>skb_len = skb_len k - n, skb_at = (\<lambda>i. skb_at k (i + n))\<rparr> else k)"

definition octets :: "skb \<Rightarrow> nat \<Rightarrow> nat \<Rightarrow> u8 list" where
  "octets k i n = map (\<lambda>j. skb_at k (i + j)) [0..<n]"

definition ntohs_at :: "skb \<Rightarrow> nat \<Rightarrow> u16" where
  "ntohs_at k i = push_bit 8 (ucast (skb_at k i)) OR ucast (skb_at k (i + 1))"

definition ntohl_at :: "skb \<Rightarrow> nat \<Rightarrow> u32" where
  "ntohl_at k i =
     push_bit 24 (ucast (skb_at k i)) OR push_bit 16 (ucast (skb_at k (i + 1))) OR
     push_bit 8 (ucast (skb_at k (i + 2))) OR ucast (skb_at k (i + 3))"

text \<open>\<open>*(unsigned long *)p\<close>: eight octets, low octet first.\<close>

definition long_at :: "skb \<Rightarrow> nat \<Rightarrow> u64" where
  "long_at k i = horner_sum ucast 256 (octets k i 8)"

definition reads :: "skb \<Rightarrow> nat \<Rightarrow> nat \<Rightarrow> sppp \<Rightarrow> sppp" where
  "reads k i n s = s\<lparr>over_read := over_read s \<or> (n \<noteq> 0 \<and> skb_len k < i + n)\<rparr>"

section \<open>The interface goes down, and the restart timer\<close>

definition if_down :: "sppp \<Rightarrow> sppp" where
  "if_down s = s\<lparr>pp_link_state := SPPP_LINK_DOWN\<rparr>"

definition sppp_set_timeout :: "env \<Rightarrow> u64 \<Rightarrow> sppp \<Rightarrow> sppp" where
  "sppp_set_timeout e sec s =
     (if pp_has PP_TIMO s then s
      else (pp_raise PP_TIMO s)\<lparr>pp_timer := Some (jiffies e + sec * hz e)\<rparr>)"

definition sppp_clear_timeout :: "sppp \<Rightarrow> sppp" where
  "sppp_clear_timeout s =
     (if pp_has PP_TIMO s then (pp_drop PP_TIMO s)\<lparr>pp_timer := None\<rparr> else s)"

section \<open>Sending a control packet\<close>

text \<open>
  \<open>sppp_cp_send\<close>: a frame with the PPP header, the header of the control packet and \<open>len\<close>
  octets copied from \<open>data\<close>, here from position \<open>i\<close> of the packet \<open>k\<close>.
\<close>

definition cp_frame :: "u16 \<Rightarrow> u8 \<Rightarrow> u8 \<Rightarrow> u16 \<Rightarrow> u8 list \<Rightarrow> u8 list" where
  "cp_frame proto ty ident len os =
     [PPP_ALLSTATIONS, PPP_UI] @ be16 proto @ [ty, ident] @ be16 (4 + len) @ os"

definition sppp_cp_send ::
    "env \<Rightarrow> u16 \<Rightarrow> u8 \<Rightarrow> u8 \<Rightarrow> u16 \<Rightarrow> skb \<Rightarrow> nat \<Rightarrow> sppp \<Rightarrow> sppp" where
  "sppp_cp_send e proto ty ident len k i s =
     (let s1 = s\<lparr>allocs := allocs s + 1\<rparr> in
      if alloc_ok e (allocs s) then
        let os = octets k i (unat len) in
        (reads k i (unat len) s1)
          \<lparr>obytes := obytes s + of_nat (8 + unat len), xmit := xmit s @ [cp_frame proto ty ident len os]\<rparr>
      else s1)"

text \<open>The same from a buffer of the code, and with no data.\<close>

definition cp_send_buf :: "env \<Rightarrow> u16 \<Rightarrow> u8 \<Rightarrow> u8 \<Rightarrow> u8 list \<Rightarrow> sppp \<Rightarrow> sppp" where
  "cp_send_buf e proto ty ident os s =
     sppp_cp_send e proto ty ident (of_nat (length os)) (skb_of os) 0 s"

end
