(* ===== verification/Md5.thy ===== *)
theory Md5
  imports Prelude
begin

unbundle bit_operations_syntax

text \<open>
  The MD5 routines of wanpipe_syncppp.c on a little-endian machine, where \<open>byteSwap\<close> is
  empty. The words \<open>in[16]\<close> of the context are kept as the 64 octets they are copied
  from. Theory \<open>Md5_Equiv\<close> compares these routines with two references.
\<close>

section \<open>The context\<close>

record md5_ctx =
  md5_buf :: "u32 list"
  md5_bytes :: "u32 \<times> u32"
  md5_in :: "u8 list"

definition wp_MD5Init :: "md5_ctx \<Rightarrow> md5_ctx" where
  "wp_MD5Init c =
     c\<lparr>md5_buf := [0x67452301, 0xefcdab89, 0x98badcfe, 0x10325476], md5_bytes := (0, 0)\<rparr>"

text \<open>Words in memory, low octet first.\<close>

definition word_le :: "u8 list \<Rightarrow> u32" where
  "word_le os = horner_sum ucast 256 os"

definition le_word :: "u32 \<Rightarrow> u8 list" where
  "le_word w = [ucast w, ucast (drop_bit 8 w), ucast (drop_bit 16 w), ucast (drop_bit 24 w)]"

definition words_le :: "u8 list \<Rightarrow> nat \<Rightarrow> u32" where
  "words_le os i = word_le (take 4 (drop (4 * i) os))"

section \<open>The compression function\<close>

definition F1 :: "u32 \<Rightarrow> u32 \<Rightarrow> u32 \<Rightarrow> u32" where "F1 x y z = z XOR (x AND (y XOR z))"
definition F2 :: "u32 \<Rightarrow> u32 \<Rightarrow> u32 \<Rightarrow> u32" where "F2 x y z = F1 z x y"
definition F3 :: "u32 \<Rightarrow> u32 \<Rightarrow> u32 \<Rightarrow> u32" where "F3 x y z = x XOR y XOR z"
definition F4 :: "u32 \<Rightarrow> u32 \<Rightarrow> u32 \<Rightarrow> u32" where "F4 x y z = y XOR (x OR NOT z)"

definition wp_MD5STEP ::
    "(u32 \<Rightarrow> u32 \<Rightarrow> u32 \<Rightarrow> u32) \<Rightarrow> u32 \<Rightarrow> u32 \<Rightarrow> u32 \<Rightarrow> u32 \<Rightarrow> u32 \<Rightarrow> nat \<Rightarrow> u32" where
  "wp_MD5STEP f w x y z v s =
     (let w1 = w + (f x y z + v) in (push_bit s w1 OR drop_bit (32 - s) w1) + x)"

text \<open>
  Four steps of a round: the code writes the registers a, d, c and b in turn. The four
  rounds of \<open>wp_MD5Transform\<close> follow, with the indices and constants of the code.
\<close>

type_synonym md5_regs = "u32 \<times> u32 \<times> u32 \<times> u32"

definition md5_quad ::
    "(u32 \<Rightarrow> u32 \<Rightarrow> u32 \<Rightarrow> u32) \<Rightarrow> u32 \<times> nat \<Rightarrow> u32 \<times> nat \<Rightarrow> u32 \<times> nat \<Rightarrow> u32 \<times> nat \<Rightarrow> md5_regs \<Rightarrow> md5_regs" where
  "md5_quad f v1 v2 v3 v4 r =
     (case r of (a, b, c, d) \<Rightarrow>
        let a = wp_MD5STEP f a b c d (fst v1) (snd v1);
            d = wp_MD5STEP f d a b c (fst v2) (snd v2);
            c = wp_MD5STEP f c d a b (fst v3) (snd v3);
            b = wp_MD5STEP f b c d a (fst v4) (snd v4)
        in (a, b, c, d))"

definition md5_round1 :: "(nat \<Rightarrow> u32) \<Rightarrow> md5_regs \<Rightarrow> md5_regs" where
  "md5_round1 m r =
     md5_quad F1 (m 12 + 0x6b901122, 7) (m 13 + 0xfd987193, 12) (m 14 + 0xa679438e, 17) (m 15 + 0x49b40821, 22)
    (md5_quad F1 (m 8 + 0x698098d8, 7) (m 9 + 0x8b44f7af, 12) (m 10 + 0xffff5bb1, 17) (m 11 + 0x895cd7be, 22)
    (md5_quad F1 (m 4 + 0xf57c0faf, 7) (m 5 + 0x4787c62a, 12) (m 6 + 0xa8304613, 17) (m 7 + 0xfd469501, 22)
    (md5_quad F1 (m 0 + 0xd76aa478, 7) (m 1 + 0xe8c7b756, 12) (m 2 + 0x242070db, 17) (m 3 + 0xc1bdceee, 22) r)))"

definition md5_round2 :: "(nat \<Rightarrow> u32) \<Rightarrow> md5_regs \<Rightarrow> md5_regs" where
  "md5_round2 m r =
     md5_quad F2 (m 13 + 0xa9e3e905, 5) (m 2 + 0xfcefa3f8, 9) (m 7 + 0x676f02d9, 14) (m 12 + 0x8d2a4c8a, 20)
    (md5_quad F2 (m 9 + 0x21e1cde6, 5) (m 14 + 0xc33707d6, 9) (m 3 + 0xf4d50d87, 14) (m 8 + 0x455a14ed, 20)
    (md5_quad F2 (m 5 + 0xd62f105d, 5) (m 10 + 0x02441453, 9) (m 15 + 0xd8a1e681, 14) (m 4 + 0xe7d3fbc8, 20)
    (md5_quad F2 (m 1 + 0xf61e2562, 5) (m 6 + 0xc040b340, 9) (m 11 + 0x265e5a51, 14) (m 0 + 0xe9b6c7aa, 20) r)))"

definition md5_round3 :: "(nat \<Rightarrow> u32) \<Rightarrow> md5_regs \<Rightarrow> md5_regs" where
  "md5_round3 m r =
     md5_quad F3 (m 9 + 0xd9d4d039, 4) (m 12 + 0xe6db99e5, 11) (m 15 + 0x1fa27cf8, 16) (m 2 + 0xc4ac5665, 23)
    (md5_quad F3 (m 13 + 0x289b7ec6, 4) (m 0 + 0xeaa127fa, 11) (m 3 + 0xd4ef3085, 16) (m 6 + 0x04881d05, 23)
    (md5_quad F3 (m 1 + 0xa4beea44, 4) (m 4 + 0x4bdecfa9, 11) (m 7 + 0xf6bb4b60, 16) (m 10 + 0xbebfbc70, 23)
    (md5_quad F3 (m 5 + 0xfffa3942, 4) (m 8 + 0x8771f681, 11) (m 11 + 0x6d9d6122, 16) (m 14 + 0xfde5380c, 23) r)))"

definition md5_round4 :: "(nat \<Rightarrow> u32) \<Rightarrow> md5_regs \<Rightarrow> md5_regs" where
  "md5_round4 m r =
     md5_quad F4 (m 4 + 0xf7537e82, 6) (m 11 + 0xbd3af235, 10) (m 2 + 0x2ad7d2bb, 15) (m 9 + 0xeb86d391, 21)
    (md5_quad F4 (m 8 + 0x6fa87e4f, 6) (m 15 + 0xfe2ce6e0, 10) (m 6 + 0xa3014314, 15) (m 13 + 0x4e0811a1, 21)
    (md5_quad F4 (m 12 + 0x655b59c3, 6) (m 3 + 0x8f0ccc92, 10) (m 10 + 0xffeff47d, 15) (m 1 + 0x85845dd1, 21)
    (md5_quad F4 (m 0 + 0xf4292244, 6) (m 7 + 0x432aff97, 10) (m 14 + 0xab9423a7, 15) (m 5 + 0xfc93a039, 21) r)))"

definition wp_MD5Transform :: "u32 list \<Rightarrow> u8 list \<Rightarrow> u32 list" where
  "wp_MD5Transform buf os =
     (let m = words_le os;
          (a, b, c, d) = md5_round4 m (md5_round3 m (md5_round2 m (md5_round1 m
            (buf ! 0, buf ! 1, buf ! 2, buf ! 3))))
      in [buf ! 0 + a, buf ! 1 + b, buf ! 2 + c, buf ! 3 + d])"

section \<open>Octets of a message\<close>

text \<open>\<open>memcpy\<close> into the words of the context, at an octet offset.\<close>

definition mem_put :: "nat \<Rightarrow> u8 list \<Rightarrow> u8 list \<Rightarrow> u8 list" where
  "mem_put i xs os = take i os @ xs @ drop (i + length xs) os"

text \<open>The loop over whole blocks, and the rest that stays in the context.\<close>

function md5_chunks :: "u8 list \<Rightarrow> md5_ctx \<Rightarrow> md5_ctx" where
  "md5_chunks os c =
     (if length os \<ge> 64 then
        md5_chunks (drop 64 os)
          (c\<lparr>md5_in := mem_put 0 (take 64 os) (md5_in c),
             md5_buf := wp_MD5Transform (md5_buf c) (mem_put 0 (take 64 os) (md5_in c))\<rparr>)
      else c\<lparr>md5_in := mem_put 0 os (md5_in c)\<rparr>)"
  by auto
termination by (relation "measure (\<lambda>(os, c). length os)") auto

declare md5_chunks.simps [simp del]

definition wp_MD5Update :: "u8 list \<Rightarrow> md5_ctx \<Rightarrow> md5_ctx" where
  "wp_MD5Update os c =
     (let (lo, hi) = md5_bytes c;
          len = of_nat (length os) :: u32;
          c1 = c\<lparr>md5_bytes := (lo + len, if lo + len < lo then hi + 1 else hi)\<rparr>;
          t = 64 - (lo AND 0x3f)
      in if t > len then c1\<lparr>md5_in := mem_put (64 - unat t) os (md5_in c1)\<rparr>
         else
           let blk = mem_put (64 - unat t) (take (unat t) os) (md5_in c1)
           in md5_chunks (drop (unat t) os)
                (c1\<lparr>md5_in := blk, md5_buf := wp_MD5Transform (md5_buf c1) blk\<rparr>))"

text \<open>The digest; the context is cleared afterwards.\<close>

definition wp_MD5Final :: "md5_ctx \<Rightarrow> u8 list" where
  "wp_MD5Final c =
     (let (lo, hi) = md5_bytes c;
          count = unat (lo AND 0x3f);
          in1 = mem_put count [0x80] (md5_in c);
          left = 56 - 1 - int count;
          (buf, in2) =
            (if left < 0 then
               let blk = mem_put (count + 1) (replicate (nat (left + 8)) 0) in1
               in (wp_MD5Transform (md5_buf c) blk, mem_put 0 (replicate 56 0) blk)
             else (md5_buf c, mem_put (count + 1) (replicate (nat left) 0) in1));
          in3 = mem_put 60 (le_word (push_bit 3 hi OR drop_bit 29 lo)) (mem_put 56 (le_word (push_bit 3 lo)) in2)
      in concat (map le_word (wp_MD5Transform buf in3)))"

end
