(* ===== verification/Sppp_Auth.thy ===== *)
theory Sppp_Auth
  imports Sppp_State Md5
begin

unbundle bit_operations_syntax

text \<open>
  The start of a negotiation (\<open>sppp_lcp_open\<close>, \<open>sppp_ipcp_open\<close>), the timeout that repeats
  it, and the authentication protocols PAP and CHAP.
\<close>

section \<open>The start of a negotiation\<close>

definition schedule_task :: "sppp \<Rightarrow> sppp" where
  "schedule_task s = s\<lparr>tasks := tasks s + 1\<rparr>"

definition magic_option :: "u32 \<Rightarrow> u8 list" where
  "magic_option m = [OPT_MAGIC, 6] @ be32 m"

definition sppp_lcp_open :: "env \<Rightarrow> sppp \<Rightarrow> sppp" where
  "sppp_lcp_open e s =
     (let s = (if dynamic_ip s
               then let s = s\<lparr>local_ip := 0, remote_ip := 0\<rparr>
                    in if env_local_ip e \<noteq> 0 then schedule_task s else s
               else s);
          s = (if magic s = 0 then set_magic (ucast (jiffies e)) s else s);
          opt = magic_option (magic s);
          s = inc_seq IDX_LCP s;
          s = s\<lparr>lcp := (lcp s)\<lparr>lcp_confid := ucast (pp_seq s IDX_LCP)\<rparr>\<rparr>;
          s = cp_send_buf e PPP_LCP CONF_REQ (lcp_confid (lcp s)) opt s
      in sppp_set_timeout e 2 s)"

definition sppp_ipcp_open :: "env \<Rightarrow> sppp \<Rightarrow> sppp" where
  "sppp_ipcp_open e s =
     (let data = (if dynamic_ip s then [3, 6, 0, 0, 0, 0] else []);
          s = inc_seq IDX_LCP s;
          s = s\<lparr>ipcp := (ipcp s)\<lparr>ipcp_confid := ucast (pp_seq s IDX_LCP)\<rparr>\<rparr>;
          s = cp_send_buf e PPP_IPCP CONF_REQ (ipcp_confid (ipcp s)) data s
      in sppp_set_timeout e 2 s)"

text \<open>\<open>sppp_cp_timeout\<close>: the kernel has taken the timer off its list before the call.\<close>

definition sppp_cp_timeout :: "env \<Rightarrow> sppp \<Rightarrow> sppp" where
  "sppp_cp_timeout e s =
     (let s = (pp_drop PP_TIMO s)\<lparr>pp_timer := None\<rparr> in
      if \<not> dev_up s \<or> pp_has PP_CISCO s then s
      else case lcp_st s of
        CP_CLOSED \<Rightarrow> sppp_lcp_open e s
      | CP_ACK_RCVD \<Rightarrow> set_lcp CP_CLOSED (sppp_lcp_open e s)
      | CP_ACK_SENT \<Rightarrow> sppp_lcp_open e s
      | CP_OPENED \<Rightarrow>
          (case ipcp_st s of
             CP_CLOSED \<Rightarrow> sppp_ipcp_open e s
           | CP_ACK_RCVD \<Rightarrow> set_ipcp CP_CLOSED (sppp_ipcp_open e s)
           | CP_ACK_SENT \<Rightarrow> sppp_ipcp_open e s
           | CP_OPENED \<Rightarrow> s))"

section \<open>Authentication packets\<close>

fun sppp_strnlen :: "u8 list \<Rightarrow> nat \<Rightarrow> nat" where
  "sppp_strnlen (p # ps) (Suc m) = (if p \<noteq> 0 then Suc (sppp_strnlen ps m) else 0)"
| "sppp_strnlen _ _ = 0"

text \<open>
  \<open>sppp_auth_send\<close>: the pieces are copied one behind the other. A piece of no octets ends
  the list of arguments; more than 256 octets make the packet not be sent.
\<close>

fun auth_gather :: "u8 list list \<Rightarrow> u8 list \<Rightarrow> u8 list option" where
  "auth_gather [] acc = Some acc"
| "auth_gather (m # ms) acc =
     (if m = [] then Some acc
      else if length acc + length m > 256 then None
      else auth_gather ms (acc @ m))"

definition sppp_auth_send :: "env \<Rightarrow> u16 \<Rightarrow> u8 \<Rightarrow> u8 \<Rightarrow> u8 list list \<Rightarrow> sppp \<Rightarrow> sppp" where
  "sppp_auth_send e proto ty ident ms s =
     (let s1 = s\<lparr>allocs := allocs s + 1\<rparr> in
      if \<not> alloc_ok e (allocs s) then s1
      else case auth_gather ms [] of
        None \<Rightarrow> s1
      | Some os \<Rightarrow> cp_send_buf e proto ty ident os s1)"

definition auth_cstr :: "u8 list \<Rightarrow> nat \<Rightarrow> u8 list" where
  "auth_cstr os n = take (sppp_strnlen os n) os"

section \<open>PAP\<close>

definition sppp_pap_scr :: "env \<Rightarrow> sppp \<Rightarrow> sppp" where
  "sppp_pap_scr e s =
     (let pwdlen = of_nat (sppp_strnlen (auth_secret (myauth s)) AUTHKEYLEN) :: u8;
          idlen = of_nat (sppp_strnlen (auth_name (myauth s)) AUTHNAMELEN) :: u8
      in sppp_auth_send e PPP_PAP PAP_REQ (confid s IDX_PAP)
           [[idlen], take (unat idlen) (auth_name (myauth s)),
            [pwdlen], take (unat pwdlen) (auth_secret (myauth s))] s)"

text \<open>
  The \<open>PPP_PAP\<close> case of \<open>wp_sppp_input\<close>. For the log the code ends the message of the
  peer with a zero octet, which it stores behind the packet.
\<close>

definition pap_input :: "env \<Rightarrow> skb \<Rightarrow> sppp \<Rightarrow> sppp" where
  "pap_input e k s =
     (let ty = skb_at k 0 in
      if ty = PAP_ACK then
        sppp_ipcp_open e (set_lcp CP_OPENED (s\<lparr>over_write := True\<rparr>))
      else if ty = PAP_NAK then s\<lparr>over_write := True\<rparr>
      else s)"

section \<open>CHAP, as the peer that is authenticated\<close>

text \<open>
  \<open>sppp_chap_input\<close>. What stands behind the \<open>break\<close> of \<open>CHAP_RESPONSE\<close> is not reached.
\<close>

definition chap_challenge :: "env \<Rightarrow> skb \<Rightarrow> nat \<Rightarrow> sppp \<Rightarrow> sppp" where
  "chap_challenge e k len s =
     (let value_len = unat (skb_at k 4);
          s = reads k 4 1 s;
          name_len = int len - int value_len - 5
      in if name_len < 0 then s
         else
           let ctx = wp_MD5Init (md5_ctx.make [] (0, 0) (replicate 64 0));
               ctx = wp_MD5Update [skb_at k 1] ctx;
               ctx = wp_MD5Update (auth_cstr (auth_secret (myauth s)) AUTHKEYLEN) ctx;
               ctx = wp_MD5Update (octets k 5 value_len) ctx;
               digest = wp_MD5Final ctx;
               s = reads k 5 value_len s
           in sppp_auth_send e PPP_CHAP CHAP_RESPONSE (skb_at k 1)
                [[of_nat (length digest)], digest, auth_cstr (auth_name (myauth s)) AUTHNAMELEN] s)"

definition sppp_chap_input :: "env \<Rightarrow> skb \<Rightarrow> sppp \<Rightarrow> sppp" where
  "sppp_chap_input e k s =
     (if skb_len k < 4 then s
      else
        let len = min (skb_len k) (unat (ntohs_at k 2));
            ty = skb_at k 0
        in if ty = CHAP_CHALLENGE then chap_challenge e k len s
           else if ty = CHAP_SUCCESS then
             sppp_ipcp_open e (set_lcp CP_OPENED (pp_drop PP_NEEDAUTH s))
           else s)"

section \<open>CHAP, as authenticator\<close>

text \<open>
  The other side of CHAP is there but nothing starts it: \<open>sppp_chap_open\<close> stands only in the
  table \<open>chap\<close>, and \<open>auth_timeout\<close> returns before it arms a timer.
\<close>

definition auth_timeout :: "u32 \<Rightarrow> sppp \<Rightarrow> sppp" where "auth_timeout sec s = s"
definition auth_clear_timeout :: "sppp \<Rightarrow> sppp" where "auth_clear_timeout s = s"

definition sppp_chap_init :: "sppp \<Rightarrow> sppp" where
  "sppp_chap_init s =
     s\<lparr>cp_states := (cp_states s)(IDX_CHAP := STATE_CLOSED), fail_counter := (fail_counter s)(IDX_CHAP := 0),
       pp_seq := (pp_seq s)(IDX_CHAP := 0), pp_rseq := (pp_rseq s)(IDX_CHAP := 0)\<rparr>"

definition chap_change_state :: "rfc_state \<Rightarrow> sppp \<Rightarrow> sppp" where
  "chap_change_state st s =
     (let s = auth_clear_timeout (s\<lparr>cp_states := (cp_states s)(IDX_CHAP := st)\<rparr>)
      in if st \<in> {STATE_CLOSING, STATE_STOPPING, STATE_REQ_SENT, STATE_ACK_RCVD, STATE_ACK_SENT}
         then auth_timeout 0 s else s)"

text \<open>
  \<open>sppp_chap_scr\<close> stores four \<open>u_long\<close> into the 16 octets of the challenge: the last two
  land in the \<open>hisauth\<close> that follows it, on its protocol, its flags and the first twelve
  octets of its name.
\<close>

definition le64 :: "u64 \<Rightarrow> u8 list" where
  "le64 w = map (\<lambda>i. ucast (drop_bit (8 * i) w)) [0..<8]"

definition sppp_chap_scr :: "env \<Rightarrow> sppp \<Rightarrow> sppp" where
  "sppp_chap_scr e s =
     (let m = concat (map (\<lambda>f. le64 (jiffies e AND f)) [0x000000ff, 0x0000ff00, 0x00ff0000, 0xff000000]);
          s = s\<lparr>myauth := (myauth s)\<lparr>auth_challenge := take 16 m\<rparr>,
                hisauth := (hisauth s)
                  \<lparr>auth_proto := ucast (m ! 16) OR push_bit 8 (ucast (m ! 17)),
                   auth_flags := ucast (m ! 18) OR push_bit 8 (ucast (m ! 19)),
                   auth_name := drop 20 m @ drop 12 (auth_name (hisauth s))\<rparr>,
                over_write := True\<rparr>;
          s = inc_seq IDX_CHAP s;
          s = s\<lparr>confid := (confid s)(IDX_CHAP := ucast (pp_seq s IDX_CHAP))\<rparr>
      in sppp_auth_send e PPP_CHAP CHAP_CHALLENGE (confid s IDX_CHAP)
           [[of_nat AUTHKEYLEN], auth_challenge (myauth s), auth_cstr (auth_name (myauth s)) AUTHNAMELEN] s)"

definition sppp_chap_open :: "env \<Rightarrow> sppp \<Rightarrow> sppp" where
  "sppp_chap_open e s =
     (if auth_proto (myauth s) = PPP_CHAP \<and> bit (lcp_opts (lcp s)) (unat OPT_AUTH_PROTO) then
        let s = sppp_chap_scr e s;
            s = s\<lparr>rst_counter := (rst_counter s)(IDX_CHAP := lcp_max_configure (lcp s))\<rparr>
        in chap_change_state STATE_REQ_SENT s
      else s)"

definition sppp_chap_close :: "sppp \<Rightarrow> sppp" where
  "sppp_chap_close s =
     (if cp_states s IDX_CHAP \<noteq> STATE_CLOSED then chap_change_state STATE_CLOSED s else s)"

definition sppp_phase_network :: "env \<Rightarrow> sppp \<Rightarrow> sppp" where
  "sppp_phase_network e s = sppp_ipcp_open e (set_ipcp CP_CLOSED (s\<lparr>pp_phase := PHASE_NETWORK\<rparr>))"

definition sppp_chap_tlu :: "env \<Rightarrow> sppp \<Rightarrow> sppp" where
  "sppp_chap_tlu e s =
     (let s = s\<lparr>rst_counter := (rst_counter s)(IDX_CHAP := lcp_max_configure (lcp s))\<rparr>;
          s = (if auth_flags (hisauth s) AND AUTHFLAG_NORECHALLENGE = 0 then auth_timeout 300 s else s);
          s = s\<lparr>lcp := (lcp s)\<lparr>lcp_protos := lcp_protos (lcp s) OR push_bit IDX_CHAP 1\<rparr>\<rparr>
      in if pp_has PP_NEEDAUTH s then s
         else if pp_phase s \<noteq> PHASE_NETWORK then sppp_phase_network e s else s)"

definition sppp_chap_tld :: "env \<Rightarrow> sppp \<Rightarrow> sppp" where
  "sppp_chap_tld e s =
     (let s = auth_clear_timeout s;
          s = s\<lparr>lcp := (lcp s)\<lparr>lcp_protos := lcp_protos (lcp s) AND NOT (push_bit IDX_CHAP 1)\<rparr>\<rparr>
      in sppp_lcp_open e (set_ipcp CP_CLOSED (set_lcp CP_CLOSED (set_magic (ucast (jiffies e)) s))))"

definition sppp_chap_TO :: "env \<Rightarrow> sppp \<Rightarrow> sppp" where
  "sppp_chap_TO e s =
     (let s = s\<lparr>rst_counter := (rst_counter s)(IDX_CHAP := rst_counter s IDX_CHAP - 1)\<rparr> in
      if rst_counter s IDX_CHAP < 0 then
        if cp_states s IDX_CHAP = STATE_REQ_SENT
        then chap_change_state STATE_CLOSED (sppp_chap_tld e s) else s
      else
        let again = (\<lambda>s. chap_change_state STATE_REQ_SENT (sppp_chap_scr e s)) in
        case cp_states s IDX_CHAP of
          STATE_OPENED \<Rightarrow> again (s\<lparr>rst_counter := (rst_counter s)(IDX_CHAP := lcp_max_configure (lcp s))\<rparr>)
        | STATE_REQ_SENT \<Rightarrow> again s
        | _ \<Rightarrow> s)"

end
