(* ===== verification/Sppp_Lcp.thy ===== *)
theory Sppp_Lcp
  imports Sppp_Auth
begin

unbundle bit_operations_syntax

text \<open>
  The Link Control Protocol: \<open>sppp_lcp_conf_parse_options\<close> and \<open>sppp_lcp_input\<close>, one
  definition for each type of packet.
\<close>

section \<open>The options of a Configure-Request\<close>

text \<open>
  What the \<open>switch\<close> of the loop does with the option at \<open>p\<close> of which \<open>len\<close> octets are left:
  go on (with the magic number it carries), add it to the rejected ones, or return.
\<close>

datatype lcp_option = Opt_ok | Opt_magic u32 | Opt_reject | Opt_return int

definition lcp_opt_auth :: "skb \<Rightarrow> nat \<Rightarrow> sppp \<Rightarrow> lcp_option \<times> sppp" where
  "lcp_opt_auth k p s =
     (if skb_at k (p + 1) < 4 then (Opt_reject, s)
      else if auth_proto (myauth s) = 0 then (Opt_reject, s)
      else
        let authproto = ntohs_at k (p + 2);
            s = reads k (p + 2) 2 s
        in if auth_proto (myauth s) \<noteq> authproto then (Opt_reject, s)
           else
             let s = pp_raise PP_NEEDAUTH s in
             if authproto = PPP_PAP then (Opt_return (uint PPP_PAP), s)
             else if authproto = PPP_CHAP then
               let s = reads k (p + 4) 1 s in
               if skb_at k (p + 4) = CHAP_MD5 then (Opt_return 1, s) else (Opt_reject, s)
             else (Opt_reject, s))"

definition lcp_opt :: "skb \<Rightarrow> nat \<Rightarrow> int \<Rightarrow> sppp \<Rightarrow> lcp_option \<times> sppp" where
  "lcp_opt k p len s =
     (let ty = skb_at k p; n = skb_at k (p + 1) in
      if ty = OPT_MAGIC then
        if len \<ge> 6 \<and> n = 6 then (Opt_magic (ntohl_at k (p + 2)), s) else (Opt_reject, s)
      else if ty = OPT_ASYNC_MAP then
        if len \<ge> 6 \<and> n = 6 \<and> skb_at k (p + 2) = 0 \<and> skb_at k (p + 3) = 0 \<and>
           skb_at k (p + 4) = 0 \<and> skb_at k (p + 5) = 0
        then (Opt_ok, s) else (Opt_reject, s)
      else if ty = OPT_MRU then (Opt_ok, s)
      else if ty = OPT_AUTH_PROTO then lcp_opt_auth k p s
      else (Opt_reject, s))"

text \<open>
  The loop. The buffer for the rejected options has \<open>cap\<close> octets; \<open>rej\<close> are those copied
  into it, and beyond it. The result is the value returned early, if any.
\<close>

function parse_loop ::
    "skb \<Rightarrow> nat \<Rightarrow> nat \<Rightarrow> int \<Rightarrow> u32 \<Rightarrow> u8 list \<Rightarrow> sppp \<Rightarrow> int option \<times> u32 \<times> u8 list \<times> sppp" where
  "parse_loop k cap p len mg rej s =
     (if len > 1 \<and> skb_at k (p + 1) \<noteq> 0 then
        let n = unat (skb_at k (p + 1)) in
        case lcp_opt k p len s of
          (Opt_ok, s) \<Rightarrow> parse_loop k cap (p + n) (len - int n) mg rej s
        | (Opt_magic m, s) \<Rightarrow> parse_loop k cap (p + n) (len - int n) m rej s
        | (Opt_return r, s) \<Rightarrow> (Some r, mg, rej, s)
        | (Opt_reject, s) \<Rightarrow>
            let rej = rej @ octets k p n;
                s = reads k p n s;
                s = s\<lparr>over_write := over_write s \<or> length rej > cap\<rparr>
            in parse_loop k cap (p + n) (len - int n) mg rej s
      else (None, mg, rej, s))"
  by auto
termination
  by (relation "measure (\<lambda>(k, cap, p, len, mg, rej, s). nat len)") (auto simp: word_neq_0_conv word_less_def)

declare parse_loop.simps [simp del]

definition sppp_lcp_conf_parse_options ::
    "env \<Rightarrow> skb \<Rightarrow> int \<Rightarrow> u32 \<Rightarrow> sppp \<Rightarrow> int \<times> u32 \<times> sppp" where
  "sppp_lcp_conf_parse_options e k len mg s =
     (let s1 = s\<lparr>allocs := allocs s + 1\<rparr> in
      if \<not> alloc_ok e (allocs s) then (0, mg, s1)
      else case parse_loop k (nat (len - 4)) 4 (len - 4) mg [] s1 of
        (Some r, mg, _, s) \<Rightarrow> (r, mg, s)
      | (None, mg, rej, s) \<Rightarrow>
          (if rej = [] then 1 else 0, mg,
           if rej = [] then s else cp_send_buf e PPP_LCP CONF_REJ (skb_at k 1) rej s))"

section \<open>Configure-Request\<close>

text \<open>The code at \<open>badreq\<close>; in state \<open>OPENED\<close> it falls through.\<close>

definition lcp_badreq :: "env \<Rightarrow> sppp \<Rightarrow> sppp" where
  "lcp_badreq e s =
     (case lcp_st s of
        CP_OPENED \<Rightarrow> set_ipcp CP_CLOSED (set_lcp CP_CLOSED (sppp_lcp_open e s))
      | CP_ACK_SENT \<Rightarrow> set_ipcp CP_CLOSED (set_lcp CP_CLOSED s)
      | _ \<Rightarrow> s)"

text \<open>LCP is up: authenticate first when the peer asked for it, else go on with IPCP.\<close>

definition lcp_up :: "env \<Rightarrow> u8 \<Rightarrow> sppp \<Rightarrow> sppp" where
  "lcp_up e ident s =
     (let s = set_lcp CP_OPENED s in
      if pp_has PP_NEEDAUTH s
      then sppp_pap_scr e (s\<lparr>confid := (confid s)(IDX_PAP := ident)\<rparr>)
      else sppp_ipcp_open e s)"

definition lcp_loopback :: "env \<Rightarrow> u8 \<Rightarrow> sppp \<Rightarrow> sppp" where
  "lcp_loopback e ident s =
     (let s = (if ucast (pp_loopcnt s) \<ge> max_keepalive e * 5
               then let s = s\<lparr>pp_loopcnt := 0\<rparr> in if dev_up s then if_down s else s
               else s);
          s = s\<lparr>pp_loopcnt := pp_loopcnt s + 1\<rparr>;
          s = cp_send_buf e PPP_LCP CONF_NAK ident (magic_option (NOT (magic s))) s
      in lcp_badreq e s)"

definition lcp_good_request :: "env \<Rightarrow> skb \<Rightarrow> nat \<Rightarrow> sppp \<Rightarrow> sppp" where
  "lcp_good_request e k len s =
     (let ident = skb_at k 1;
          ack = sppp_cp_send e PPP_LCP CONF_ACK ident (of_nat (len - 4)) k 4;
          s = s\<lparr>pp_loopcnt := 0\<rparr>;
          s = (if lcp_st s \<noteq> CP_OPENED then ack s else s)
      in case lcp_st s of
           CP_CLOSED \<Rightarrow> set_lcp CP_ACK_SENT s
         | CP_ACK_RCVD \<Rightarrow> lcp_up e ident s
         | CP_ACK_SENT \<Rightarrow> s
         | CP_OPENED \<Rightarrow>
             set_lcp CP_ACK_SENT (ack (sppp_lcp_open e (set_ipcp CP_CLOSED (set_lcp CP_CLOSED s)))))"

definition lcp_conf_req :: "env \<Rightarrow> skb \<Rightarrow> nat \<Rightarrow> sppp \<Rightarrow> sppp" where
  "lcp_conf_req e k len s =
     (if len < 4 then s
      else case sppp_lcp_conf_parse_options e k (int len) 0 s of (rc, rmagic, s) \<Rightarrow>
        if len > 4 \<and> rc = 0 then lcp_badreq e s
        else if rmagic = magic s then lcp_loopback e (skb_at k 1) s
        else lcp_good_request e k len s)"

section \<open>The other packets\<close>

definition lcp_conf_ack :: "env \<Rightarrow> u8 \<Rightarrow> sppp \<Rightarrow> sppp" where
  "lcp_conf_ack e ident s =
     (if ident \<noteq> lcp_confid (lcp s) then s
      else
        let s = sppp_clear_timeout s;
            s = (if pp_link_state s \<noteq> SPPP_LINK_UP \<and> dev_up s then s\<lparr>pp_link_state := SPPP_LINK_UP\<rparr> else s)
        in case lcp_st s of
             CP_CLOSED \<Rightarrow> sppp_set_timeout e 5 (set_lcp CP_ACK_RCVD s)
           | CP_ACK_SENT \<Rightarrow> lcp_up e ident s
           | _ \<Rightarrow> s)"

definition lcp_conf_nak :: "env \<Rightarrow> skb \<Rightarrow> nat \<Rightarrow> sppp \<Rightarrow> sppp" where
  "lcp_conf_nak e k len s =
     (if skb_at k 1 \<noteq> lcp_confid (lcp s) then s
      else
        let s = (if len \<ge> 10 \<and> skb_at k 4 = OPT_MAGIC \<and> skb_at k 5 \<ge> 4 then
                   let rmagic = ntohl_at k 6 in
                   if rmagic = NOT (magic s) then set_magic (magic s + rnd e) s else set_magic rmagic s
                 else s);
            s = (if lcp_st s \<noteq> CP_ACK_SENT then set_ipcp CP_CLOSED (set_lcp CP_CLOSED s) else s)
        in sppp_set_timeout e 2 (sppp_clear_timeout s))"

definition lcp_conf_rej :: "env \<Rightarrow> u8 \<Rightarrow> sppp \<Rightarrow> sppp" where
  "lcp_conf_rej e ident s =
     (if ident \<noteq> lcp_confid (lcp s) then s
      else
        let s = sppp_lcp_open e (sppp_clear_timeout s)
        in if lcp_st s \<noteq> CP_ACK_SENT then set_ipcp CP_CLOSED (set_lcp CP_CLOSED s) else s)"

definition lcp_term_req :: "env \<Rightarrow> u8 \<Rightarrow> sppp \<Rightarrow> sppp" where
  "lcp_term_req e ident s =
     (let s = sppp_clear_timeout s;
          s = cp_send_buf e PPP_LCP TERM_ACK ident [] s;
          s = set_ipcp CP_CLOSED (set_lcp CP_CLOSED s);
          s = (if pp_link_state s \<noteq> SPPP_LINK_DOWN then if_down s else s)
      in sppp_lcp_open e s)"

text \<open>
  Echo-Request: the magic number is stored as a \<open>long\<close>, so that eight octets of the packet
  change before it is sent back.
\<close>

definition store_long :: "u64 \<Rightarrow> nat \<Rightarrow> skb \<Rightarrow> skb" where
  "store_long w i k =
     k\<lparr>skb_at := (\<lambda>j. if i \<le> j \<and> j < i + 8 then le64 w ! (j - i) else skb_at k j)\<rparr>"

text \<open>\<open>htonl\<close> on the machine: the word whose octets in memory are those of \<open>be32\<close>.\<close>

definition htonl :: "u32 \<Rightarrow> u32" where
  "htonl w = horner_sum ucast 256 (be32 w)"

definition lcp_echo_req :: "env \<Rightarrow> skb \<Rightarrow> nat \<Rightarrow> sppp \<Rightarrow> sppp" where
  "lcp_echo_req e k len s =
     (if lcp_st s \<noteq> CP_OPENED then s
      else if len < 8 then s
      else if ntohl_at k 4 = magic s then
        sppp_lcp_open e (sppp_clear_timeout (set_ipcp CP_CLOSED (set_lcp CP_CLOSED (if_down s))))
      else
        let k' = store_long (ucast (htonl (magic s))) 4 k;
            s = s\<lparr>over_write := over_write s \<or> skb_len k < 12\<rparr>
        in sppp_cp_send e PPP_LCP ECHO_REPLY (skb_at k 1) (of_nat (len - 4)) k' 4 s)"

definition lcp_echo_reply :: "skb \<Rightarrow> nat \<Rightarrow> sppp \<Rightarrow> sppp" where
  "lcp_echo_reply k len s =
     (if skb_at k 1 \<noteq> lcp_echoid (lcp s) then s
      else if len < 8 then s
      else if ntohl_at k 4 \<noteq> magic s then s\<lparr>pp_alivecnt := 0\<rparr>
      else s)"

section \<open>Dispatch\<close>

text \<open>
  \<open>sppp_lcp_input\<close>. The packet is shortened by the size of a pointer, not of the header, and
  a Code-Reject carries as many octets as are left.
\<close>

definition sppp_lcp_input :: "env \<Rightarrow> skb \<Rightarrow> sppp \<Rightarrow> sppp" where
  "sppp_lcp_input e k s =
     (if skb_len k < 4 then s
      else
        let pulled = skb_len (skb_pull 8 k);
            len = min (skb_len k) (unat (ntohs_at k 2));
            ty = skb_at k 0;
            ident = skb_at k 1
        in if ty = CONF_REQ then lcp_conf_req e k len s
           else if ty = CONF_ACK then lcp_conf_ack e ident s
           else if ty = CONF_NAK then lcp_conf_nak e k len s
           else if ty = CONF_REJ then lcp_conf_rej e ident s
           else if ty = TERM_REQ then lcp_term_req e ident s
           else if ty = TERM_ACK \<or> ty = CODE_REJ \<or> ty = PROTO_REJ \<or> ty = DISC_REQ then s
           else if ty = ECHO_REQ then lcp_echo_req e k len s
           else if ty = ECHO_REPLY then lcp_echo_reply k len s
           else
             let s = inc_seq IDX_LCP s
             in sppp_cp_send e PPP_LCP CODE_REJ (ucast (pp_seq s IDX_LCP)) (of_nat pulled) k 0 s)"

end
