(* ===== verification/Sppp_Ipcp.thy ===== *)
theory Sppp_Ipcp
  imports Sppp_Auth
begin

unbundle bit_operations_syntax

text \<open>
  The Internet Protocol Control Protocol: \<open>sppp_ipcp_input\<close>, one definition for each type of
  packet. \<open>ipcp_h\<close> points behind the header, to type, length and data of the first option;
  the address in the data is read as an \<open>unsigned long\<close>, of eight octets.
\<close>

definition ipcp_address :: "skb \<Rightarrow> u64" where
  "ipcp_address k = long_at k 6"

text \<open>A Configure-Request with options, when the addresses are configured.\<close>

definition ipcp_static_req :: "env \<Rightarrow> skb \<Rightarrow> nat \<Rightarrow> sppp \<Rightarrow> sppp" where
  "ipcp_static_req e k len s =
     (let ident = skb_at k 1;
          remote = ucast (env_p2p_ip e) :: u32;
          s = reads k 6 8 s
      in if ucast remote = ipcp_address k then
           sppp_clear_timeout (sppp_cp_send e PPP_IPCP CONF_ACK ident (of_nat (len - 4)) k 4 s)
         else
           let s = s\<lparr>local_ip := env_local_ip e, remote_ip := env_p2p_ip e,
                     dynamic_failures := dynamic_failures s + 1\<rparr>
           in if dynamic_failures s > 10 then
                let s = cp_send_buf e PPP_IPCP TERM_REQ ident [] s;
                    s = sppp_set_timeout e 5 (set_ipcp CP_CLOSED s)
                in s\<lparr>dynamic_failures := 0\<rparr>
              else
                let s = sppp_cp_send e PPP_IPCP CONF_REJ ident (of_nat (len - 4)) k 4 s
                in case ipcp_st s of
                     CP_OPENED \<Rightarrow> set_ipcp CP_CLOSED (sppp_ipcp_open e s)
                   | CP_ACK_SENT \<Rightarrow> set_ipcp CP_CLOSED s
                   | _ \<Rightarrow> s)"

definition ipcp_conf_req :: "env \<Rightarrow> skb \<Rightarrow> nat \<Rightarrow> sppp \<Rightarrow> sppp" where
  "ipcp_conf_req e k len s =
     (let ident = skb_at k 1 in
      if len < 4 then s
      else if len > 4 then
        if \<not> dynamic_ip s then ipcp_static_req e k len s
        else
          let s = (reads k 6 8 s)\<lparr>remote_ip := ipcp_address k\<rparr>
          in sppp_clear_timeout (sppp_cp_send e PPP_IPCP CONF_ACK ident (of_nat (len - 4)) k 4 s)
      else
        let s = cp_send_buf e PPP_IPCP CONF_ACK ident [] s
        in set_ipcp (if ipcp_st s = CP_ACK_RCVD then CP_OPENED else CP_ACK_SENT) s)"

definition ipcp_conf_ack :: "env \<Rightarrow> u8 \<Rightarrow> sppp \<Rightarrow> sppp" where
  "ipcp_conf_ack e ident s =
     (if ident \<noteq> ipcp_confid (ipcp s) then s
      else
        let s = sppp_clear_timeout s
        in case ipcp_st s of
             CP_CLOSED \<Rightarrow> sppp_set_timeout e 5 (set_ipcp CP_ACK_RCVD s)
           | CP_ACK_SENT \<Rightarrow>
               let s = set_ipcp CP_OPENED s in if dynamic_ip s then schedule_task s else s
           | _ \<Rightarrow> s)"

definition ipcp_conf_rej :: "env \<Rightarrow> u8 \<Rightarrow> sppp \<Rightarrow> sppp" where
  "ipcp_conf_rej e ident s =
     (if ident \<noteq> ipcp_confid (ipcp s) then s
      else
        let s = sppp_ipcp_open e (sppp_clear_timeout s)
        in if ipcp_st s \<noteq> CP_ACK_SENT then set_ipcp CP_CLOSED s else s)"

text \<open>
  Configure-Nak. \<open>len - 4\<close> is converted to 16 bits when it is passed on, also where it is
  negative; a refusal drops down to the code of Configure-Reject.
\<close>

definition ipcp_conf_nak :: "env \<Rightarrow> skb \<Rightarrow> nat \<Rightarrow> sppp \<Rightarrow> sppp" where
  "ipcp_conf_nak e k len s =
     (let ident = skb_at k 1;
          n = word_of_int (int len - 4) :: u16
      in if ident \<noteq> ipcp_confid (ipcp s) then s
         else
           let s = reads k 5 1 s in
           if skb_at k 5 \<ge> 6 then
             let s = reads k 6 8 s in
             if \<not> dynamic_ip s then
               let local = ucast (env_local_ip e) :: u32 in
               if ucast local = ipcp_address k then
                 set_ipcp CP_ACK_SENT (sppp_cp_send e PPP_IPCP CONF_REQ ident n k 4 s)
               else ipcp_conf_rej e ident (sppp_cp_send e PPP_IPCP CONF_REJ ident n k 4 s)
             else
               let s = s\<lparr>local_ip := ipcp_address k\<rparr>
               in set_ipcp CP_ACK_SENT (sppp_cp_send e PPP_IPCP CONF_REQ ident n k 4 s)
           else ipcp_conf_rej e ident s)"

definition ipcp_term_req :: "env \<Rightarrow> u8 \<Rightarrow> sppp \<Rightarrow> sppp" where
  "ipcp_term_req e ident s =
     sppp_ipcp_open e (set_ipcp CP_CLOSED (cp_send_buf e PPP_IPCP TERM_ACK ident [] s))"

definition sppp_ipcp_input :: "env \<Rightarrow> skb \<Rightarrow> sppp \<Rightarrow> sppp" where
  "sppp_ipcp_input e k s =
     (if skb_len k < 4 then s
      else
        let len = min (skb_len k) (unat (ntohs_at k 2));
            ty = skb_at k 0;
            ident = skb_at k 1
        in if ty = CONF_REQ then ipcp_conf_req e k len s
           else if ty = CONF_ACK then ipcp_conf_ack e ident s
           else if ty = CONF_NAK then ipcp_conf_nak e k len s
           else if ty = CONF_REJ then ipcp_conf_rej e ident s
           else if ty = TERM_REQ then ipcp_term_req e ident s
           else if ty = TERM_ACK \<or> ty = CODE_REJ then s
           else
             let s = inc_seq IDX_LCP s
             in sppp_cp_send e PPP_IPCP CODE_REJ (ucast (pp_seq s IDX_LCP)) (of_nat len) k 0 s)"

section \<open>The bottom half\<close>

text \<open>
  \<open>sppp_bh\<close>: sets the negotiated addresses, or takes the address away when IPCP is not open.
\<close>

definition host_does :: "host_call \<Rightarrow> sppp \<Rightarrow> sppp" where
  "host_does c s = s\<lparr>host := host s @ [c]\<rparr>"

definition sppp_bh :: "env \<Rightarrow> sppp \<Rightarrow> sppp" where
  "sppp_bh e s =
     (if \<not> dynamic_ip s then s
      else if task_working s then s
      else
        let s = s\<lparr>task_working := True\<rparr>;
            s = (if ipcp_st s = CP_OPENED then
                   let s = host_does (Set_p2p_ip (remote_ip s)) (host_does (Set_local_ip (local_ip s)) s);
                       s = (if gateway s \<and> dev_up s then host_does Add_gateway s else s)
                   in host_does Run_script s
                 else
                   let s = s\<lparr>local_ip := 0, remote_ip := 0\<rparr>
                   in if env_local_ip e \<noteq> 0 then host_does (Set_local_ip (local_ip s)) s else s)
        in s\<lparr>task_working := False\<rparr>)"

end
