(* ===== verification/Sppp_Input.thy ===== *)
theory Sppp_Input
  imports Sppp_Lcp Sppp_Ipcp
begin

unbundle bit_operations_syntax

text \<open>
  The frames of the line: \<open>wp_sppp_input\<close> and the Cisco keepalive protocol, the header of
  outgoing packets, the keepalive timer of the module, and the operations of an interface:
  attach, detach, open, close, reopen, change of the MTU and ioctl.
\<close>

section \<open>Cisco HDLC\<close>

definition sppp_cisco_send :: "env \<Rightarrow> u32 \<Rightarrow> u32 \<Rightarrow> u32 \<Rightarrow> sppp \<Rightarrow> sppp" where
  "sppp_cisco_send e ty par1 par2 s =
     (let t = ucast (jiffies e * 1000 div hz e) :: u32;
          s1 = s\<lparr>allocs := allocs s + 1\<rparr>
      in if alloc_ok e (allocs s) then
           s1\<lparr>obytes := obytes s + 22,
              xmit := xmit s @
                [[CISCO_MULTICAST, 0] @ be16 CISCO_KEEPALIVE @ be32 ty @ be32 par1 @ be32 par2 @
                 [0xff, 0xff] @ be16 (ucast (drop_bit 16 t)) @ be16 (ucast t)]\<rparr>
         else s1)"

definition cisco_keepalive :: "env \<Rightarrow> skb \<Rightarrow> sppp \<Rightarrow> sppp" where
  "cisco_keepalive e k s =
     (let s = s\<lparr>pp_alivecnt := 0, pp_rseq := (pp_rseq s)(IDX_LCP := ntohl_at k 4)\<rparr> in
      if pp_seq s IDX_LCP = pp_rseq s IDX_LCP then
        let s = (if ucast (pp_loopcnt s) \<ge> max_keepalive e
                 then let s = s\<lparr>pp_loopcnt := 0\<rparr> in if dev_up s then if_down s else s
                 else s)
        in s\<lparr>pp_loopcnt := pp_loopcnt s + 1,
             pp_seq := (pp_seq s)(IDX_LCP := pp_seq s IDX_LCP XOR rnd e)\<rparr>
      else
        let s = s\<lparr>pp_loopcnt := 0\<rparr>
        in if pp_link_state s = SPPP_LINK_DOWN \<and> dev_up s then s\<lparr>pp_link_state := SPPP_LINK_UP\<rparr> else s)"

definition sppp_cisco_input :: "env \<Rightarrow> skb \<Rightarrow> sppp \<Rightarrow> sppp" where
  "sppp_cisco_input e k s =
     (if skb_len k \<noteq> 18 \<and> skb_len k \<noteq> 20 then s
      else
        let ty = ntohl_at k 0
        in if ty = CISCO_KEEPALIVE_REQ then cisco_keepalive e k s
           else if ty = CISCO_ADDR_REQ then
             (case env_ifa e of
                Some (addr, netmask) \<Rightarrow> sppp_cisco_send e CISCO_ADDR_REPLY addr netmask s
              | None \<Rightarrow> sppp_cisco_send e CISCO_ADDR_REPLY 0 (NOT 0) s)
           else s)"

section \<open>Input\<close>

definition netif_rx :: "u16 \<Rightarrow> skb \<Rightarrow> sppp \<Rightarrow> sppp" where
  "netif_rx ty k s = s\<lparr>rx_up := rx_up s @ [(ty, octets k 0 (skb_len k))]\<rparr>"

text \<open>The cases of \<open>PPP_ALLSTATIONS\<close>; \<open>f\<close> is the whole frame, \<open>k\<close> the packet without header.\<close>

definition ppp_input :: "env \<Rightarrow> skb \<Rightarrow> skb \<Rightarrow> sppp \<Rightarrow> sppp" where
  "ppp_input e f k s =
     (let proto = ntohs_at f 2
      in if proto = PPP_LCP then sppp_lcp_input e k s
         else if proto = PPP_IPCP then (if lcp_st s = CP_OPENED then sppp_ipcp_input e k s else s)
         else if proto = PPP_IP then (if ipcp_st s = CP_OPENED then netif_rx ETH_P_IP k s else s)
         else if proto = PPP_PAP then pap_input e k s
         else if proto = PPP_CHAP then sppp_chap_input e k s
         else if lcp_st s = CP_OPENED then
           let s = inc_seq IDX_LCP s
           in sppp_cp_send e PPP_LCP PROTO_REJ (ucast (pp_seq s IDX_LCP)) (of_nat (skb_len k + 2)) f 2 s
         else s)"

definition wp_sppp_input :: "env \<Rightarrow> skb \<Rightarrow> sppp \<Rightarrow> sppp" where
  "wp_sppp_input e f s =
     (let s = (if dev_running s
               then s\<lparr>ibytes := ibytes s + of_nat (skb_len f) + 3, ipkts := ipkts s + 1\<rparr> else s)
      in if skb_len f \<le> 4 then s
         else
           let k = skb_pull 4 f; address = skb_at f 0; control = skb_at f 1 in
           if address = PPP_ALLSTATIONS then
             if control \<noteq> PPP_UI then s
             else if pp_has PP_CISCO s then s
             else ppp_input e f k s
           else if address = CISCO_MULTICAST \<or> address = CISCO_UNICAST then
             if \<not> pp_has PP_CISCO s then s
             else if ntohs_at f 2 = CISCO_KEEPALIVE then sppp_cisco_input e k s
             else if ntohs_at f 2 = ETH_P_IP then netif_rx ETH_P_IP k s
             else s
           else s)"

section \<open>Output\<close>

text \<open>
  \<open>sppp_hard_header\<close>: the value returned and the packet with its header. The two octets of
  the protocol keep what the memory in front of the packet held, for other types than IP
  and IPX in PPP mode.
\<close>

definition sppp_hard_header ::
    "nat \<Rightarrow> u16 \<Rightarrow> u8 list \<Rightarrow> u8 list \<Rightarrow> sppp \<Rightarrow> int \<times> u8 list" where
  "sppp_hard_header headroom ty junk os s =
     (if headroom < 4 then (0, os)
      else
        let (address, control) =
              (if pp_has PP_CISCO s then (CISCO_UNICAST, 0) else (PPP_ALLSTATIONS, PPP_UI));
            proto =
              (if pp_has PP_CISCO s then be16 ty
               else if ty = ETH_P_IP then be16 PPP_IP
               else if ty = ETH_P_IPX then be16 PPP_IPX
               else junk)
        in (4, [address, control] @ proto @ os))"

section \<open>Operations of an interface\<close>

datatype errno = EINVAL | EBUSY | EPERM | EFAULT

definition wp_sppp_close :: "sppp \<Rightarrow> sppp" where
  "wp_sppp_close s =
     auth_clear_timeout (sppp_clear_timeout
       (set_ipcp CP_CLOSED (set_lcp CP_CLOSED (s\<lparr>pp_link_state := SPPP_LINK_DOWN\<rparr>))))"

definition wp_sppp_open :: "env \<Rightarrow> sppp \<Rightarrow> sppp" where
  "wp_sppp_open e s =
     (let s = wp_sppp_close s;
          s = (if \<not> pp_has PP_CISCO s then sppp_lcp_open e s else s)
      in s\<lparr>pp_link_state := SPPP_LINK_DOWN\<rparr>)"

definition wp_sppp_reopen :: "env \<Rightarrow> sppp \<Rightarrow> sppp" where
  "wp_sppp_reopen e s =
     (let s = wp_sppp_close s;
          s = (if \<not> pp_has PP_CISCO s then
                 sppp_set_timeout e 1 (set_ipcp CP_CLOSED (set_lcp CP_CLOSED
                   (inc_seq IDX_LCP (set_magic (ucast (jiffies e)) s))))
               else s)
      in s\<lparr>pp_link_state := SPPP_LINK_DOWN\<rparr>)"

definition wp_sppp_change_mtu :: "int \<Rightarrow> sppp \<Rightarrow> errno + sppp" where
  "wp_sppp_change_mtu new_mtu s =
     (if new_mtu < 128 \<or> new_mtu > 1500 \<or> dev_up s then Inl EINVAL
      else Inr (s\<lparr>dev_mtu := new_mtu\<rparr>))"

text \<open>
  \<open>wp_sppp_do_ioctl\<close>. \<open>arg\<close> is the value in the user's request, \<open>access\<close> whether it can be
  reached; the octets given to the user are returned beside the state.
\<close>

abbreviation SIOCDEVPRIVATE :: nat where "SIOCDEVPRIVATE \<equiv> 0x89F0"

definition wp_sppp_do_ioctl ::
    "bool \<Rightarrow> bool \<Rightarrow> nat \<Rightarrow> u32 \<Rightarrow> sppp \<Rightarrow> errno + (u32 option \<times> sppp)" where
  "wp_sppp_do_ioctl admin access cmd arg s =
     (if dev_up s then Inl EBUSY
      else if \<not> admin then Inl EPERM
      else if cmd = SIOCDEVPRIVATE then Inr (None, (pp_raise PP_CISCO s)\<lparr>dev_hdlc := True\<rparr>)
      else if cmd = SIOCDEVPRIVATE + 1 then Inr (None, (pp_drop PP_CISCO s)\<lparr>dev_hdlc := False\<rparr>)
      else if cmd = SIOCDEVPRIVATE + 2 then
        let s = pp_drop PP_DEBUG s in Inr (None, if arg \<noteq> 0 then pp_raise PP_DEBUG s else s)
      else if cmd = SIOCDEVPRIVATE + 4 then
        if access then Inr (Some (pp_flags s), s) else Inl EFAULT
      else if cmd = SIOCDEVPRIVATE + 3 then
        if access then Inr (None, s\<lparr>pp_flags := arg\<rparr>) else Inl EFAULT
      else Inl EINVAL)"

section \<open>The module: the list of interfaces and its timer\<close>

text \<open>
  The interfaces are known by a number that stands for their address; \<open>spppq\<close> is the list
  the keepalive timer walks.
\<close>

record sppp_module =
  spppq :: "nat list"
  sppp_at :: "nat \<Rightarrow> sppp"
  keepalive_timer :: "u64 option"
  keepalive_interval :: u32
  debug_flag :: u32

definition sync_ppp_init :: "bool \<Rightarrow> env \<Rightarrow> sppp_module \<Rightarrow> env \<times> sppp_module" where
  "sync_ppp_init debug e m =
     (e\<lparr>max_keepalive := 6\<rparr>,
      m\<lparr>debug_flag := (if debug then PP_DEBUG else 0), keepalive_interval := 10\<rparr>)"

definition sppp_attach_dev :: "u32 \<Rightarrow> sppp \<Rightarrow> sppp" where
  "sppp_attach_dev dbg s =
     (let s = s\<lparr>pp_loopcnt := 0, pp_alivecnt := 0,
                pp_seq := (pp_seq s)(IDX_LCP := 0), pp_rseq := (pp_rseq s)(IDX_LCP := 0)\<rparr>;
          s = sppp_chap_init s;
          s = s\<lparr>pp_flags := PP_KEEPALIVE OR PP_CISCO OR dbg\<rparr>;
          s = set_ipcp CP_CLOSED (set_lcp CP_CLOSED (set_magic 0 s))
      in s\<lparr>task_working := False, local_ip := 0, remote_ip := 0, dev_hdlc := True,
           dev_mtu := 1500, dev_up := False, dev_running := False\<rparr>)"

definition wp_sppp_attach :: "env \<Rightarrow> nat \<Rightarrow> sppp_module \<Rightarrow> sppp_module" where
  "wp_sppp_attach e i m =
     m\<lparr>keepalive_timer := (if spppq m = [] then Some (jiffies e + 10 * hz e) else keepalive_timer m),
       spppq := i # spppq m,
       sppp_at := (sppp_at m)(i := sppp_attach_dev (debug_flag m) (sppp_at m i))\<rparr>"

definition wp_sppp_detach :: "nat \<Rightarrow> sppp_module \<Rightarrow> sppp_module" where
  "wp_sppp_detach i m =
     (let q = remove1 i (spppq m)
      in m\<lparr>spppq := q,
           keepalive_timer := (if q = [] then None else keepalive_timer m),
           sppp_at := (sppp_at m)(i := auth_clear_timeout (sppp_clear_timeout (sppp_at m i)))\<rparr>)"

text \<open>\<open>sppp_keepalive\<close>: the body of the loop, and the timer that starts itself again.\<close>

definition keepalive_one :: "env \<Rightarrow> sppp \<Rightarrow> sppp" where
  "keepalive_one e s =
     (if \<not> pp_has PP_KEEPALIVE s \<or> \<not> dev_up s then s
      else if \<not> pp_has PP_CISCO s \<and> lcp_st s \<noteq> CP_OPENED then s
      else
        let s = (if ucast (pp_alivecnt s) = max_keepalive e then
                   let s = if_down s in
                   if \<not> pp_has PP_CISCO s then
                     sppp_lcp_open e (sppp_clear_timeout
                       (set_ipcp CP_CLOSED (set_lcp CP_CLOSED (set_magic (ucast (jiffies e)) s))))
                   else s
                 else s);
            s = (if ucast (pp_alivecnt s) \<le> max_keepalive e
                 then s\<lparr>pp_alivecnt := pp_alivecnt s + 1\<rparr> else s)
        in if pp_has PP_CISCO s then
             let s = inc_seq IDX_LCP s
             in sppp_cisco_send e CISCO_KEEPALIVE_REQ (pp_seq s IDX_LCP) (pp_rseq s IDX_LCP) s
           else if lcp_st s = CP_OPENED then
             let s = inc_seq IDX_LCP s;
                 s = s\<lparr>lcp := (lcp s)\<lparr>lcp_echoid := ucast (pp_seq s IDX_LCP)\<rparr>\<rparr>
             in cp_send_buf e PPP_LCP ECHO_REQ (lcp_echoid (lcp s)) (be32 (magic s)) s
           else s)"

definition sppp_keepalive :: "env \<Rightarrow> sppp_module \<Rightarrow> sppp_module" where
  "sppp_keepalive e m =
     (fold (\<lambda>i m. m\<lparr>sppp_at := (sppp_at m)(i := keepalive_one e (sppp_at m i))\<rparr>) (spppq m) m)
       \<lparr>keepalive_timer := Some (jiffies e + ucast (keepalive_interval m) * hz e)\<rparr>"

end
