(* ===== verification/Sppp_Fields.thy ===== *)
theory Sppp_Fields
  imports Sppp_Input
begin

unbundle bit_operations_syntax

text \<open>
  Which fields the operations leave alone, as rewrite rules, and the facts on flags,
  timers and sent frames that the proofs about the protocols share.
\<close>

section \<open>Flags\<close>

lemma flag_other:
  assumes "f AND g = (0 :: u32)"
  shows "(w OR f) AND g = w AND g" "(w AND NOT f) AND g = w AND g"
proof -
  show "(w OR f) AND g = w AND g"
    using assms by (simp add: bit.conj_disj_distrib2)
  have "f AND g = 0" by fact
  then have "bit f n \<Longrightarrow> \<not> bit g n" for n by (metis bit_and_iff bit_0_eq bot_apply bot_bool_def)
  then show "(w AND NOT f) AND g = w AND g"
    by (intro bit_word_eqI) (auto simp: bit_and_iff bit_not_iff)
qed

lemma flag_same: "(w OR f) AND f = (f :: u32)" "(w AND NOT f) AND f = (0 :: u32)"
  by (rule bit_word_eqI, auto simp: bit_simps)+

lemma pp_has_raise [simp]:
  "pp_has f (pp_raise f s) \<longleftrightarrow> f \<noteq> 0" "f AND g = 0 \<Longrightarrow> pp_has g (pp_raise f s) = pp_has g s"
  by (simp_all add: pp_has_def pp_raise_def flag_same flag_other)

lemma pp_has_drop [simp]:
  "\<not> pp_has f (pp_drop f s)" "f AND g = 0 \<Longrightarrow> pp_has g (pp_drop f s) = pp_has g s"
  by (simp_all add: pp_has_def pp_drop_def flag_same flag_other)

lemma pp_has_upd [simp]:
  "pp_has g (s\<lparr>pp_timer := t\<rparr>) = pp_has g s" "pp_has g (s\<lparr>allocs := n\<rparr>) = pp_has g s"
  "pp_has g (s\<lparr>lcp := l\<rparr>) = pp_has g s" "pp_has g (s\<lparr>ipcp := i\<rparr>) = pp_has g s"
  "pp_has g (s\<lparr>pp_alivecnt := ac\<rparr>) = pp_has g s" "pp_has g (s\<lparr>pp_loopcnt := lc\<rparr>) = pp_has g s"
  "pp_has g (s\<lparr>ibytes := x\<rparr>) = pp_has g s" "pp_has g (s\<lparr>ipkts := y\<rparr>) = pp_has g s"
  "pp_has g (s\<lparr>pp_link_state := ls\<rparr>) = pp_has g s" "pp_has g (s\<lparr>pp_seq := sq\<rparr>) = pp_has g s"
  "pp_has g (s\<lparr>pp_rseq := rs\<rparr>) = pp_has g s" "pp_has g (s\<lparr>confid := c\<rparr>) = pp_has g s"
  "pp_has g (s\<lparr>local_ip := la\<rparr>) = pp_has g s" "pp_has g (s\<lparr>remote_ip := ra\<rparr>) = pp_has g s"
  "pp_has g (s\<lparr>dynamic_failures := df\<rparr>) = pp_has g s" "pp_has g (s\<lparr>over_write := ov\<rparr>) = pp_has g s"
  "pp_has g (s\<lparr>task_working := tw\<rparr>) = pp_has g s" "pp_has g (s\<lparr>host := h\<rparr>) = pp_has g s"
  "pp_has g (s\<lparr>dev_mtu := mt\<rparr>) = pp_has g s" "pp_has g (s\<lparr>dev_up := du\<rparr>) = pp_has g s"
  "pp_has g (s\<lparr>pp_phase := ph\<rparr>) = pp_has g s" "pp_has g (s\<lparr>dev_running := dr\<rparr>) = pp_has g s" "pp_has g (s\<lparr>dev_hdlc := dh\<rparr>) = pp_has g s"
  by (simp_all add: pp_has_def)

section \<open>Fields that do not change\<close>

lemma pp_raise_fields [simp]:
  "pp_alivecnt (pp_raise f s) = pp_alivecnt s" "pp_loopcnt (pp_raise f s) = pp_loopcnt s"
  "lcp (pp_raise f s) = lcp s" "ipcp (pp_raise f s) = ipcp s" "pp_timer (pp_raise f s) = pp_timer s"
  "pp_link_state (pp_raise f s) = pp_link_state s" "pp_seq (pp_raise f s) = pp_seq s"
  "pp_rseq (pp_raise f s) = pp_rseq s" "confid (pp_raise f s) = confid s"
  "myauth (pp_raise f s) = myauth s" "dynamic_ip (pp_raise f s) = dynamic_ip s"
  "local_ip (pp_raise f s) = local_ip s" "remote_ip (pp_raise f s) = remote_ip s"
  "dynamic_failures (pp_raise f s) = dynamic_failures s" "dev_up (pp_raise f s) = dev_up s"
  "dev_running (pp_raise f s) = dev_running s" "dev_mtu (pp_raise f s) = dev_mtu s"
  "xmit (pp_raise f s) = xmit s" "rx_up (pp_raise f s) = rx_up s"
  "over_write (pp_raise f s) = over_write s"
  by (simp_all add: pp_raise_def)

lemma pp_drop_fields [simp]:
  "pp_alivecnt (pp_drop f s) = pp_alivecnt s" "pp_loopcnt (pp_drop f s) = pp_loopcnt s"
  "lcp (pp_drop f s) = lcp s" "ipcp (pp_drop f s) = ipcp s" "pp_timer (pp_drop f s) = pp_timer s"
  "pp_link_state (pp_drop f s) = pp_link_state s" "pp_seq (pp_drop f s) = pp_seq s"
  "pp_rseq (pp_drop f s) = pp_rseq s" "confid (pp_drop f s) = confid s"
  "myauth (pp_drop f s) = myauth s" "dynamic_ip (pp_drop f s) = dynamic_ip s"
  "local_ip (pp_drop f s) = local_ip s" "remote_ip (pp_drop f s) = remote_ip s"
  "dynamic_failures (pp_drop f s) = dynamic_failures s" "dev_up (pp_drop f s) = dev_up s"
  "dev_running (pp_drop f s) = dev_running s" "dev_mtu (pp_drop f s) = dev_mtu s"
  "xmit (pp_drop f s) = xmit s" "rx_up (pp_drop f s) = rx_up s"
  "over_write (pp_drop f s) = over_write s"
  by (simp_all add: pp_drop_def)

lemma set_lcp_fields [simp]:
  "pp_flags (set_lcp st s) = pp_flags s" "pp_has g (set_lcp st s) = pp_has g s"
  "pp_alivecnt (set_lcp st s) = pp_alivecnt s" "pp_loopcnt (set_lcp st s) = pp_loopcnt s"
  "ipcp (set_lcp st s) = ipcp s" "pp_timer (set_lcp st s) = pp_timer s"
  "pp_link_state (set_lcp st s) = pp_link_state s" "pp_seq (set_lcp st s) = pp_seq s"
  "pp_rseq (set_lcp st s) = pp_rseq s" "confid (set_lcp st s) = confid s"
  "myauth (set_lcp st s) = myauth s" "dynamic_ip (set_lcp st s) = dynamic_ip s"
  "local_ip (set_lcp st s) = local_ip s" "remote_ip (set_lcp st s) = remote_ip s"
  "dynamic_failures (set_lcp st s) = dynamic_failures s" "dev_up (set_lcp st s) = dev_up s"
  "dev_running (set_lcp st s) = dev_running s" "dev_mtu (set_lcp st s) = dev_mtu s"
  "xmit (set_lcp st s) = xmit s" "rx_up (set_lcp st s) = rx_up s"
  "over_write (set_lcp st s) = over_write s"
  by (simp_all add: set_lcp_def pp_has_def)

lemma set_ipcp_fields [simp]:
  "pp_flags (set_ipcp st s) = pp_flags s" "pp_has g (set_ipcp st s) = pp_has g s"
  "pp_alivecnt (set_ipcp st s) = pp_alivecnt s" "pp_loopcnt (set_ipcp st s) = pp_loopcnt s"
  "lcp (set_ipcp st s) = lcp s" "pp_timer (set_ipcp st s) = pp_timer s"
  "pp_link_state (set_ipcp st s) = pp_link_state s" "pp_seq (set_ipcp st s) = pp_seq s"
  "pp_rseq (set_ipcp st s) = pp_rseq s" "confid (set_ipcp st s) = confid s"
  "myauth (set_ipcp st s) = myauth s" "dynamic_ip (set_ipcp st s) = dynamic_ip s"
  "local_ip (set_ipcp st s) = local_ip s" "remote_ip (set_ipcp st s) = remote_ip s"
  "dynamic_failures (set_ipcp st s) = dynamic_failures s" "dev_up (set_ipcp st s) = dev_up s"
  "dev_running (set_ipcp st s) = dev_running s" "dev_mtu (set_ipcp st s) = dev_mtu s"
  "xmit (set_ipcp st s) = xmit s" "rx_up (set_ipcp st s) = rx_up s"
  "over_write (set_ipcp st s) = over_write s"
  by (simp_all add: set_ipcp_def pp_has_def)

lemma set_magic_fields [simp]:
  "pp_flags (set_magic mg s) = pp_flags s" "pp_has g (set_magic mg s) = pp_has g s"
  "pp_alivecnt (set_magic mg s) = pp_alivecnt s" "pp_loopcnt (set_magic mg s) = pp_loopcnt s"
  "ipcp (set_magic mg s) = ipcp s" "pp_timer (set_magic mg s) = pp_timer s"
  "pp_link_state (set_magic mg s) = pp_link_state s" "pp_seq (set_magic mg s) = pp_seq s"
  "pp_rseq (set_magic mg s) = pp_rseq s" "confid (set_magic mg s) = confid s"
  "myauth (set_magic mg s) = myauth s" "dynamic_ip (set_magic mg s) = dynamic_ip s"
  "local_ip (set_magic mg s) = local_ip s" "remote_ip (set_magic mg s) = remote_ip s"
  "dynamic_failures (set_magic mg s) = dynamic_failures s" "dev_up (set_magic mg s) = dev_up s"
  "dev_running (set_magic mg s) = dev_running s" "dev_mtu (set_magic mg s) = dev_mtu s"
  "xmit (set_magic mg s) = xmit s" "rx_up (set_magic mg s) = rx_up s"
  "over_write (set_magic mg s) = over_write s"
  by (simp_all add: set_magic_def pp_has_def)

lemma inc_seq_fields [simp]:
  "pp_flags (inc_seq i s) = pp_flags s" "pp_has g (inc_seq i s) = pp_has g s"
  "pp_alivecnt (inc_seq i s) = pp_alivecnt s" "pp_loopcnt (inc_seq i s) = pp_loopcnt s"
  "lcp (inc_seq i s) = lcp s" "ipcp (inc_seq i s) = ipcp s" "pp_timer (inc_seq i s) = pp_timer s"
  "pp_link_state (inc_seq i s) = pp_link_state s" "pp_rseq (inc_seq i s) = pp_rseq s"
  "confid (inc_seq i s) = confid s" "myauth (inc_seq i s) = myauth s"
  "dynamic_ip (inc_seq i s) = dynamic_ip s" "local_ip (inc_seq i s) = local_ip s"
  "remote_ip (inc_seq i s) = remote_ip s" "dynamic_failures (inc_seq i s) = dynamic_failures s"
  "dev_up (inc_seq i s) = dev_up s" "dev_running (inc_seq i s) = dev_running s"
  "dev_mtu (inc_seq i s) = dev_mtu s" "xmit (inc_seq i s) = xmit s" "rx_up (inc_seq i s) = rx_up s"
  "over_write (inc_seq i s) = over_write s"
  by (simp_all add: inc_seq_def pp_has_def)

lemma reads_fields [simp]:
  "pp_flags (reads k i n s) = pp_flags s" "pp_has g (reads k i n s) = pp_has g s"
  "pp_alivecnt (reads k i n s) = pp_alivecnt s" "pp_loopcnt (reads k i n s) = pp_loopcnt s"
  "lcp (reads k i n s) = lcp s" "ipcp (reads k i n s) = ipcp s"
  "pp_timer (reads k i n s) = pp_timer s" "pp_link_state (reads k i n s) = pp_link_state s"
  "pp_seq (reads k i n s) = pp_seq s" "pp_rseq (reads k i n s) = pp_rseq s"
  "confid (reads k i n s) = confid s" "myauth (reads k i n s) = myauth s"
  "dynamic_ip (reads k i n s) = dynamic_ip s" "local_ip (reads k i n s) = local_ip s"
  "remote_ip (reads k i n s) = remote_ip s" "dynamic_failures (reads k i n s) = dynamic_failures s"
  "dev_up (reads k i n s) = dev_up s" "dev_running (reads k i n s) = dev_running s"
  "dev_mtu (reads k i n s) = dev_mtu s" "xmit (reads k i n s) = xmit s"
  "rx_up (reads k i n s) = rx_up s" "over_write (reads k i n s) = over_write s"
  by (simp_all add: reads_def pp_has_def)

lemma if_down_fields [simp]:
  "pp_flags (if_down s) = pp_flags s" "pp_has g (if_down s) = pp_has g s"
  "pp_alivecnt (if_down s) = pp_alivecnt s" "pp_loopcnt (if_down s) = pp_loopcnt s"
  "lcp (if_down s) = lcp s" "ipcp (if_down s) = ipcp s" "pp_timer (if_down s) = pp_timer s"
  "pp_seq (if_down s) = pp_seq s" "pp_rseq (if_down s) = pp_rseq s" "confid (if_down s) = confid s"
  "myauth (if_down s) = myauth s" "dynamic_ip (if_down s) = dynamic_ip s"
  "local_ip (if_down s) = local_ip s" "remote_ip (if_down s) = remote_ip s"
  "dynamic_failures (if_down s) = dynamic_failures s" "dev_up (if_down s) = dev_up s"
  "dev_running (if_down s) = dev_running s" "dev_mtu (if_down s) = dev_mtu s"
  "xmit (if_down s) = xmit s" "rx_up (if_down s) = rx_up s" "over_write (if_down s) = over_write s"
  by (simp_all add: if_down_def pp_has_def)

lemma set_timeout_fields [simp]:
  "pp_alivecnt (sppp_set_timeout e sec s) = pp_alivecnt s"
  "pp_loopcnt (sppp_set_timeout e sec s) = pp_loopcnt s" "lcp (sppp_set_timeout e sec s) = lcp s"
  "ipcp (sppp_set_timeout e sec s) = ipcp s"
  "pp_link_state (sppp_set_timeout e sec s) = pp_link_state s"
  "pp_seq (sppp_set_timeout e sec s) = pp_seq s" "pp_rseq (sppp_set_timeout e sec s) = pp_rseq s"
  "confid (sppp_set_timeout e sec s) = confid s" "myauth (sppp_set_timeout e sec s) = myauth s"
  "dynamic_ip (sppp_set_timeout e sec s) = dynamic_ip s"
  "local_ip (sppp_set_timeout e sec s) = local_ip s"
  "remote_ip (sppp_set_timeout e sec s) = remote_ip s"
  "dynamic_failures (sppp_set_timeout e sec s) = dynamic_failures s"
  "dev_up (sppp_set_timeout e sec s) = dev_up s"
  "dev_running (sppp_set_timeout e sec s) = dev_running s"
  "dev_mtu (sppp_set_timeout e sec s) = dev_mtu s" "xmit (sppp_set_timeout e sec s) = xmit s"
  "rx_up (sppp_set_timeout e sec s) = rx_up s"
  "over_write (sppp_set_timeout e sec s) = over_write s"
  by (simp_all add: sppp_set_timeout_def pp_raise_def)

lemma clear_timeout_fields [simp]:
  "pp_alivecnt (sppp_clear_timeout s) = pp_alivecnt s"
  "pp_loopcnt (sppp_clear_timeout s) = pp_loopcnt s" "lcp (sppp_clear_timeout s) = lcp s"
  "ipcp (sppp_clear_timeout s) = ipcp s" "pp_link_state (sppp_clear_timeout s) = pp_link_state s"
  "pp_seq (sppp_clear_timeout s) = pp_seq s" "pp_rseq (sppp_clear_timeout s) = pp_rseq s"
  "confid (sppp_clear_timeout s) = confid s" "myauth (sppp_clear_timeout s) = myauth s"
  "dynamic_ip (sppp_clear_timeout s) = dynamic_ip s" "local_ip (sppp_clear_timeout s) = local_ip s"
  "remote_ip (sppp_clear_timeout s) = remote_ip s"
  "dynamic_failures (sppp_clear_timeout s) = dynamic_failures s"
  "dev_up (sppp_clear_timeout s) = dev_up s" "dev_running (sppp_clear_timeout s) = dev_running s"
  "dev_mtu (sppp_clear_timeout s) = dev_mtu s" "xmit (sppp_clear_timeout s) = xmit s"
  "rx_up (sppp_clear_timeout s) = rx_up s" "over_write (sppp_clear_timeout s) = over_write s"
  by (simp_all add: sppp_clear_timeout_def pp_drop_def)

lemma cp_send_fields [simp]:
  "pp_flags (sppp_cp_send e proto ty ident len k i s) = pp_flags s"
  "pp_has g (sppp_cp_send e proto ty ident len k i s) = pp_has g s"
  "pp_alivecnt (sppp_cp_send e proto ty ident len k i s) = pp_alivecnt s"
  "pp_loopcnt (sppp_cp_send e proto ty ident len k i s) = pp_loopcnt s"
  "lcp (sppp_cp_send e proto ty ident len k i s) = lcp s"
  "ipcp (sppp_cp_send e proto ty ident len k i s) = ipcp s"
  "pp_timer (sppp_cp_send e proto ty ident len k i s) = pp_timer s"
  "pp_link_state (sppp_cp_send e proto ty ident len k i s) = pp_link_state s"
  "pp_seq (sppp_cp_send e proto ty ident len k i s) = pp_seq s"
  "pp_rseq (sppp_cp_send e proto ty ident len k i s) = pp_rseq s"
  "confid (sppp_cp_send e proto ty ident len k i s) = confid s"
  "myauth (sppp_cp_send e proto ty ident len k i s) = myauth s"
  "dynamic_ip (sppp_cp_send e proto ty ident len k i s) = dynamic_ip s"
  "local_ip (sppp_cp_send e proto ty ident len k i s) = local_ip s"
  "remote_ip (sppp_cp_send e proto ty ident len k i s) = remote_ip s"
  "dynamic_failures (sppp_cp_send e proto ty ident len k i s) = dynamic_failures s"
  "dev_up (sppp_cp_send e proto ty ident len k i s) = dev_up s"
  "dev_running (sppp_cp_send e proto ty ident len k i s) = dev_running s"
  "dev_mtu (sppp_cp_send e proto ty ident len k i s) = dev_mtu s"
  "rx_up (sppp_cp_send e proto ty ident len k i s) = rx_up s"
  "over_write (sppp_cp_send e proto ty ident len k i s) = over_write s"
  by (simp_all add: sppp_cp_send_def Let_def reads_def pp_has_def)

lemma cp_send_buf_fields [simp]:
  "pp_flags (cp_send_buf e proto ty ident os s) = pp_flags s"
  "pp_has g (cp_send_buf e proto ty ident os s) = pp_has g s"
  "pp_alivecnt (cp_send_buf e proto ty ident os s) = pp_alivecnt s"
  "pp_loopcnt (cp_send_buf e proto ty ident os s) = pp_loopcnt s"
  "lcp (cp_send_buf e proto ty ident os s) = lcp s"
  "ipcp (cp_send_buf e proto ty ident os s) = ipcp s"
  "pp_timer (cp_send_buf e proto ty ident os s) = pp_timer s"
  "pp_link_state (cp_send_buf e proto ty ident os s) = pp_link_state s"
  "pp_seq (cp_send_buf e proto ty ident os s) = pp_seq s"
  "pp_rseq (cp_send_buf e proto ty ident os s) = pp_rseq s"
  "confid (cp_send_buf e proto ty ident os s) = confid s"
  "myauth (cp_send_buf e proto ty ident os s) = myauth s"
  "dynamic_ip (cp_send_buf e proto ty ident os s) = dynamic_ip s"
  "local_ip (cp_send_buf e proto ty ident os s) = local_ip s"
  "remote_ip (cp_send_buf e proto ty ident os s) = remote_ip s"
  "dynamic_failures (cp_send_buf e proto ty ident os s) = dynamic_failures s"
  "dev_up (cp_send_buf e proto ty ident os s) = dev_up s"
  "dev_running (cp_send_buf e proto ty ident os s) = dev_running s"
  "dev_mtu (cp_send_buf e proto ty ident os s) = dev_mtu s"
  "rx_up (cp_send_buf e proto ty ident os s) = rx_up s"
  "over_write (cp_send_buf e proto ty ident os s) = over_write s"
  by (simp_all add: cp_send_buf_def pp_has_def)

lemma schedule_fields [simp]:
  "pp_flags (schedule_task s) = pp_flags s" "pp_has g (schedule_task s) = pp_has g s"
  "pp_alivecnt (schedule_task s) = pp_alivecnt s" "pp_loopcnt (schedule_task s) = pp_loopcnt s"
  "lcp (schedule_task s) = lcp s" "ipcp (schedule_task s) = ipcp s"
  "pp_timer (schedule_task s) = pp_timer s" "pp_link_state (schedule_task s) = pp_link_state s"
  "pp_seq (schedule_task s) = pp_seq s" "pp_rseq (schedule_task s) = pp_rseq s"
  "confid (schedule_task s) = confid s" "myauth (schedule_task s) = myauth s"
  "dynamic_ip (schedule_task s) = dynamic_ip s" "local_ip (schedule_task s) = local_ip s"
  "remote_ip (schedule_task s) = remote_ip s"
  "dynamic_failures (schedule_task s) = dynamic_failures s" "dev_up (schedule_task s) = dev_up s"
  "dev_running (schedule_task s) = dev_running s" "dev_mtu (schedule_task s) = dev_mtu s"
  "xmit (schedule_task s) = xmit s" "rx_up (schedule_task s) = rx_up s"
  "over_write (schedule_task s) = over_write s"
  by (simp_all add: schedule_task_def pp_has_def)

lemma auth_send_fields [simp]:
  "pp_flags (sppp_auth_send e proto ty ident ms s) = pp_flags s"
  "pp_has g (sppp_auth_send e proto ty ident ms s) = pp_has g s"
  "pp_alivecnt (sppp_auth_send e proto ty ident ms s) = pp_alivecnt s"
  "pp_loopcnt (sppp_auth_send e proto ty ident ms s) = pp_loopcnt s"
  "lcp (sppp_auth_send e proto ty ident ms s) = lcp s"
  "ipcp (sppp_auth_send e proto ty ident ms s) = ipcp s"
  "pp_timer (sppp_auth_send e proto ty ident ms s) = pp_timer s"
  "pp_link_state (sppp_auth_send e proto ty ident ms s) = pp_link_state s"
  "pp_seq (sppp_auth_send e proto ty ident ms s) = pp_seq s"
  "pp_rseq (sppp_auth_send e proto ty ident ms s) = pp_rseq s"
  "confid (sppp_auth_send e proto ty ident ms s) = confid s"
  "myauth (sppp_auth_send e proto ty ident ms s) = myauth s"
  "dynamic_ip (sppp_auth_send e proto ty ident ms s) = dynamic_ip s"
  "local_ip (sppp_auth_send e proto ty ident ms s) = local_ip s"
  "remote_ip (sppp_auth_send e proto ty ident ms s) = remote_ip s"
  "dynamic_failures (sppp_auth_send e proto ty ident ms s) = dynamic_failures s"
  "dev_up (sppp_auth_send e proto ty ident ms s) = dev_up s"
  "dev_running (sppp_auth_send e proto ty ident ms s) = dev_running s"
  "dev_mtu (sppp_auth_send e proto ty ident ms s) = dev_mtu s"
  "rx_up (sppp_auth_send e proto ty ident ms s) = rx_up s"
  "over_write (sppp_auth_send e proto ty ident ms s) = over_write s"
  by (simp_all add: sppp_auth_send_def Let_def pp_has_def split: option.splits)

lemma pap_scr_fields [simp]:
  "pp_flags (sppp_pap_scr e s) = pp_flags s" "pp_has g (sppp_pap_scr e s) = pp_has g s"
  "pp_alivecnt (sppp_pap_scr e s) = pp_alivecnt s" "pp_loopcnt (sppp_pap_scr e s) = pp_loopcnt s"
  "lcp (sppp_pap_scr e s) = lcp s" "ipcp (sppp_pap_scr e s) = ipcp s"
  "pp_timer (sppp_pap_scr e s) = pp_timer s" "pp_link_state (sppp_pap_scr e s) = pp_link_state s"
  "pp_seq (sppp_pap_scr e s) = pp_seq s" "pp_rseq (sppp_pap_scr e s) = pp_rseq s"
  "confid (sppp_pap_scr e s) = confid s" "myauth (sppp_pap_scr e s) = myauth s"
  "dynamic_ip (sppp_pap_scr e s) = dynamic_ip s" "local_ip (sppp_pap_scr e s) = local_ip s"
  "remote_ip (sppp_pap_scr e s) = remote_ip s"
  "dynamic_failures (sppp_pap_scr e s) = dynamic_failures s" "dev_up (sppp_pap_scr e s) = dev_up s"
  "dev_running (sppp_pap_scr e s) = dev_running s" "dev_mtu (sppp_pap_scr e s) = dev_mtu s"
  "rx_up (sppp_pap_scr e s) = rx_up s" "over_write (sppp_pap_scr e s) = over_write s"
  by (simp_all add: sppp_pap_scr_def Let_def pp_has_def)

lemma netif_rx_fields [simp]:
  "pp_flags (netif_rx ty k s) = pp_flags s" "pp_has g (netif_rx ty k s) = pp_has g s"
  "pp_alivecnt (netif_rx ty k s) = pp_alivecnt s" "pp_loopcnt (netif_rx ty k s) = pp_loopcnt s"
  "lcp (netif_rx ty k s) = lcp s" "ipcp (netif_rx ty k s) = ipcp s"
  "pp_timer (netif_rx ty k s) = pp_timer s" "pp_link_state (netif_rx ty k s) = pp_link_state s"
  "pp_seq (netif_rx ty k s) = pp_seq s" "pp_rseq (netif_rx ty k s) = pp_rseq s"
  "confid (netif_rx ty k s) = confid s" "myauth (netif_rx ty k s) = myauth s"
  "dynamic_ip (netif_rx ty k s) = dynamic_ip s" "local_ip (netif_rx ty k s) = local_ip s"
  "remote_ip (netif_rx ty k s) = remote_ip s"
  "dynamic_failures (netif_rx ty k s) = dynamic_failures s" "dev_up (netif_rx ty k s) = dev_up s"
  "dev_running (netif_rx ty k s) = dev_running s" "dev_mtu (netif_rx ty k s) = dev_mtu s"
  "xmit (netif_rx ty k s) = xmit s" "over_write (netif_rx ty k s) = over_write s"
  by (simp_all add: netif_rx_def pp_has_def)

lemma cisco_send_fields [simp]:
  "pp_flags (sppp_cisco_send e ty par1 par2 s) = pp_flags s"
  "pp_has g (sppp_cisco_send e ty par1 par2 s) = pp_has g s"
  "pp_alivecnt (sppp_cisco_send e ty par1 par2 s) = pp_alivecnt s"
  "pp_loopcnt (sppp_cisco_send e ty par1 par2 s) = pp_loopcnt s"
  "lcp (sppp_cisco_send e ty par1 par2 s) = lcp s"
  "ipcp (sppp_cisco_send e ty par1 par2 s) = ipcp s"
  "pp_timer (sppp_cisco_send e ty par1 par2 s) = pp_timer s"
  "pp_link_state (sppp_cisco_send e ty par1 par2 s) = pp_link_state s"
  "pp_seq (sppp_cisco_send e ty par1 par2 s) = pp_seq s"
  "pp_rseq (sppp_cisco_send e ty par1 par2 s) = pp_rseq s"
  "confid (sppp_cisco_send e ty par1 par2 s) = confid s"
  "myauth (sppp_cisco_send e ty par1 par2 s) = myauth s"
  "dynamic_ip (sppp_cisco_send e ty par1 par2 s) = dynamic_ip s"
  "local_ip (sppp_cisco_send e ty par1 par2 s) = local_ip s"
  "remote_ip (sppp_cisco_send e ty par1 par2 s) = remote_ip s"
  "dynamic_failures (sppp_cisco_send e ty par1 par2 s) = dynamic_failures s"
  "dev_up (sppp_cisco_send e ty par1 par2 s) = dev_up s"
  "dev_running (sppp_cisco_send e ty par1 par2 s) = dev_running s"
  "dev_mtu (sppp_cisco_send e ty par1 par2 s) = dev_mtu s"
  "rx_up (sppp_cisco_send e ty par1 par2 s) = rx_up s"
  "over_write (sppp_cisco_send e ty par1 par2 s) = over_write s"
  by (simp_all add: sppp_cisco_send_def Let_def pp_has_def)


lemma pp_has_set_timeout [simp]:
  "pp_has PP_TIMO (sppp_set_timeout e sec s)" "PP_TIMO AND g = 0 \<Longrightarrow> pp_has g (sppp_set_timeout e sec s) = pp_has g s"
  by (simp_all add: sppp_set_timeout_def)

lemma pp_has_clear_timeout [simp]:
  "\<not> pp_has PP_TIMO (sppp_clear_timeout s)" "PP_TIMO AND g = 0 \<Longrightarrow> pp_has g (sppp_clear_timeout s) = pp_has g s"
  by (simp_all add: sppp_clear_timeout_def)

lemma states_set [simp]:
  "lcp_st (set_lcp st s) = st" "ipcp_st (set_ipcp st s) = st" "lcp_st (set_magic mg s) = lcp_st s"
  "magic (set_lcp st s) = magic s" "magic (set_magic mg s) = mg"
  "lcp_confid (lcp (set_lcp st s)) = lcp_confid (lcp s)" "lcp_confid (lcp (set_magic mg s)) = lcp_confid (lcp s)"
  "ipcp_confid (ipcp (set_ipcp st s)) = ipcp_confid (ipcp s)"
  by (simp_all add: set_lcp_def set_ipcp_def set_magic_def)

section \<open>Sent frames\<close>

lemma octets_skb_of: "i + n \<le> length os \<Longrightarrow> octets (skb_of os) i n = take n (drop i os)"
  by (rule nth_equalityI) (simp_all add: octets_def skb_of_def)

lemma length_octets [simp]: "length (octets k i n) = n"
  by (simp add: octets_def)

lemma unat_len16: "n < 65536 \<Longrightarrow> unat (of_nat n :: u16) = n"
  by (simp add: unat_of_nat)

lemma xmit_cp_send:
  "xmit (sppp_cp_send e proto ty ident len k i s) =
     xmit s @ (if alloc_ok e (allocs s) then [cp_frame proto ty ident len (octets k i (unat len))] else [])"
  by (simp add: sppp_cp_send_def Let_def reads_def)

lemma xmit_send_buf:
  "length os < 65536 \<Longrightarrow> xmit (cp_send_buf e proto ty ident os s) =
     xmit s @ (if alloc_ok e (allocs s) then [cp_frame proto ty ident (of_nat (length os)) os] else [])"
  by (simp add: cp_send_buf_def xmit_cp_send unat_len16 octets_skb_of)

lemma length_magic_option [simp]: "length (magic_option m) = 6"
  by (simp add: magic_option_def be32_def)

section \<open>A concrete interface\<close>

text \<open>
  An environment and an interface in PPP mode with configured addresses, as the concrete
  case of the theorems.
\<close>

definition ex_env :: env where
  "ex_env =
     \<lparr>jiffies = 0x12345, hz = 100, rnd = 77, env_local_ip = 0x0100A8C0, env_p2p_ip = 0x0200A8C0,
      env_ifa = Some (0x0100A8C0, 0x00FFFFFF), alloc_ok = (\<lambda>_. True), max_keepalive = 6\<rparr>"

definition ex_auth :: sauth where
  "ex_auth =
     \<lparr>auth_proto = 0xc223, auth_flags = 0, auth_name = [98, 111, 98] @ replicate 61 0,
      auth_secret = [115, 101, 99] @ replicate 13 0, auth_challenge = replicate 16 0\<rparr>"

definition ex_if :: sppp where
  "ex_if =
     \<lparr>pp_flags = PP_KEEPALIVE, pp_alivecnt = 0, pp_loopcnt = 0,
      lcp = \<lparr>lcp_state = CP_CLOSED, lcp_magic = 0xCAFE, lcp_echoid = 0, lcp_confid = 0, lcp_opts = 0,
             lcp_protos = 0, lcp_max_configure = 10\<rparr>,
      ipcp = \<lparr>ipcp_state = CP_CLOSED, ipcp_confid = 0\<rparr>,
      ibytes = 0, obytes = 0, ipkts = 0, pp_timer = None, pp_link_state = SPPP_LINK_DOWN,
      pp_seq = (\<lambda>_. 0), pp_rseq = (\<lambda>_. 0), pp_phase = PHASE_DEAD, cp_states = (\<lambda>_. STATE_INITIAL),
      confid = (\<lambda>_. 0), rst_counter = (\<lambda>_. 0), fail_counter = (\<lambda>_. 0), myauth = ex_auth, hisauth = ex_auth,
      dynamic_ip = False, local_ip = 0, remote_ip = 0, gateway = False, task_working = False,
      dynamic_failures = 0, dev_up = True, dev_running = True, dev_mtu = 1500, dev_hdlc = False,
      xmit = [], rx_up = [], tasks = 0, host = [], allocs = 0, over_read = False, over_write = False\<rparr>"

lemma ex_simps [simp]:
  "alloc_ok ex_env n" "jiffies ex_env = 0x12345" "hz ex_env = 100" "max_keepalive ex_env = 6"
  "dev_up ex_if" "dev_running ex_if" "pp_flags ex_if = PP_KEEPALIVE" "pp_timer ex_if = None" "lcp_st ex_if = CP_CLOSED"
  "ipcp_st ex_if = CP_CLOSED" "magic ex_if = 0xCAFE" "lcp_confid (lcp ex_if) = 0" "xmit ex_if = []"
  "dynamic_ip ex_if = False" "myauth ex_if = ex_auth" "\<not> pp_has PP_CISCO ex_if" "\<not> pp_has PP_TIMO ex_if"
  "\<not> pp_has PP_NEEDAUTH ex_if" "pp_has PP_KEEPALIVE ex_if"
  by (simp_all add: ex_env_def ex_if_def pp_has_def)

end
