(* ===== verification/Sppp_Inv.thy ===== *)
theory Sppp_Inv
  imports Sppp_Fields
begin
unbundle bit_operations_syntax

text \<open>
  The runs of an interface, and two invariants of them: the flag of the restart timer says
  whether the timer is armed, and IPCP leaves its closed state only above an open LCP.
\<close>

section \<open>The restart timer\<close>

definition timer_ok :: "sppp \<Rightarrow> bool" where
  "timer_ok s \<longleftrightarrow> (pp_has PP_TIMO s \<longleftrightarrow> pp_timer s \<noteq> None)"

definition layers_ok :: "sppp \<Rightarrow> bool" where
  "layers_ok s \<longleftrightarrow> (ipcp_st s \<noteq> CP_CLOSED \<longrightarrow> lcp_st s = CP_OPENED)"

lemma timer_ok_flags: "pp_flags s = pp_flags t \<Longrightarrow> pp_timer s = pp_timer t \<Longrightarrow> timer_ok s = timer_ok t"
  by (simp add: timer_ok_def pp_has_def)

lemma timer_set [simp, intro]: "timer_ok s \<Longrightarrow> timer_ok (sppp_set_timeout e sec s)"
  by (simp add: timer_ok_def) (simp add: sppp_set_timeout_def)

lemma timer_clear [simp, intro]: "timer_ok s \<Longrightarrow> timer_ok (sppp_clear_timeout s)"
  by (simp add: timer_ok_def) (simp add: sppp_clear_timeout_def)

lemma timer_others [simp]:
  "timer_ok (set_lcp st s) = timer_ok s" "timer_ok (set_ipcp st s) = timer_ok s" "timer_ok (set_magic mg s) = timer_ok s"
  "timer_ok (inc_seq i s) = timer_ok s" "timer_ok (reads k i n s) = timer_ok s" "timer_ok (if_down s) = timer_ok s"
  "timer_ok (sppp_cp_send e proto ty ident len k i s) = timer_ok s" "timer_ok (cp_send_buf e proto ty ident os s) = timer_ok s"
  "timer_ok (schedule_task s) = timer_ok s" "timer_ok (sppp_auth_send e proto ty ident ms s) = timer_ok s"
  "timer_ok (sppp_pap_scr e s) = timer_ok s" "timer_ok (netif_rx p k s) = timer_ok s"
  "timer_ok (sppp_cisco_send e t par1 par2 s) = timer_ok s"
  "timer_ok (pp_raise PP_NEEDAUTH s) = timer_ok s" "timer_ok (pp_drop PP_NEEDAUTH s) = timer_ok s"
  by (simp_all add: timer_ok_def)

lemma timer_upd [simp]:
  "timer_ok (s\<lparr>local_ip := a\<rparr>) = timer_ok s" "timer_ok (s\<lparr>remote_ip := b\<rparr>) = timer_ok s"
  "timer_ok (s\<lparr>lcp := l\<rparr>) = timer_ok s" "timer_ok (s\<lparr>ipcp := i\<rparr>) = timer_ok s"
  "timer_ok (s\<lparr>over_write := ov\<rparr>) = timer_ok s" "timer_ok (s\<lparr>allocs := n\<rparr>) = timer_ok s"
  "timer_ok (s\<lparr>pp_loopcnt := lc\<rparr>) = timer_ok s" "timer_ok (s\<lparr>pp_alivecnt := ac\<rparr>) = timer_ok s"
  "timer_ok (s\<lparr>pp_link_state := ls\<rparr>) = timer_ok s" "timer_ok (s\<lparr>confid := c\<rparr>) = timer_ok s"
  "timer_ok (s\<lparr>dynamic_failures := f\<rparr>) = timer_ok s" "timer_ok (s\<lparr>pp_rseq := rs\<rparr>) = timer_ok s"
  "timer_ok (s\<lparr>pp_seq := sq\<rparr>) = timer_ok s" "timer_ok (s\<lparr>pp_phase := ph\<rparr>) = timer_ok s" 
  "timer_ok (s\<lparr>ibytes := x\<rparr>) = timer_ok s" "timer_ok (s\<lparr>ipkts := y\<rparr>) = timer_ok s"
  "timer_ok (s\<lparr>host := h\<rparr>) = timer_ok s" "timer_ok (s\<lparr>task_working := tw\<rparr>) = timer_ok s" 
  by (simp_all add: timer_ok_def)

lemma timer_opens [simp]:
  "timer_ok s \<Longrightarrow> timer_ok (sppp_lcp_open e s)" "timer_ok s \<Longrightarrow> timer_ok (sppp_ipcp_open e s)"
  by (simp_all add: sppp_lcp_open_def sppp_ipcp_open_def Let_def)

lemma timer_cp_timeout: "timer_ok (sppp_cp_timeout e s)"
proof -
  have "timer_ok ((pp_drop PP_TIMO s)\<lparr>pp_timer := None\<rparr>)" by (simp add: timer_ok_def)
  then show ?thesis by (simp add: sppp_cp_timeout_def Let_def split: cp_state.split)
qed

text \<open>What the parsing of options leaves alone, and that it raises no flag but one.\<close>

definition same_link :: "sppp \<Rightarrow> sppp \<Rightarrow> bool" where
  "same_link s t \<longleftrightarrow> timer_ok t = timer_ok s \<and> lcp t = lcp s \<and> ipcp t = ipcp s \<and> dev_up t = dev_up s \<and>
     dynamic_ip t = dynamic_ip s \<and> myauth t = myauth s \<and> rx_up t = rx_up s \<and> xmit t = xmit s \<and>
     pp_link_state t = pp_link_state s \<and> pp_loopcnt t = pp_loopcnt s \<and> pp_timer t = pp_timer s \<and>
     pp_seq t = pp_seq s \<and> pp_has PP_CISCO t = pp_has PP_CISCO s \<and> confid t = confid s"

lemma same_link_refl [simp]: "same_link s s"
  by (simp add: same_link_def)

lemma same_link_trans: "same_link s t \<Longrightarrow> same_link t u \<Longrightarrow> same_link s u"
  by (simp add: same_link_def)

lemma same_link_steps [simp]:
  "same_link s t \<Longrightarrow> same_link s (reads k i n t)" "same_link s t \<Longrightarrow> same_link s (pp_raise PP_NEEDAUTH t)"
  "same_link s t \<Longrightarrow> same_link s (t\<lparr>allocs := a\<rparr>)" "same_link s t \<Longrightarrow> same_link s (t\<lparr>over_write := ov\<rparr>)"
  by (simp_all add: same_link_def)

lemma lcp_opt_auth_keeps: "same_link s (snd (lcp_opt_auth k p s))"
  by (simp add: lcp_opt_auth_def Let_def)

lemma lcp_opt_keeps: "lcp_opt k p len s = (r, t) \<Longrightarrow> same_link s t"
proof -
  assume "lcp_opt k p len s = (r, t)"
  moreover have "same_link s (snd (lcp_opt k p len s))"
    unfolding lcp_opt_def Let_def by (simp only: if_distrib [of snd] snd_conv split: if_split)
      (simp add: lcp_opt_auth_keeps)
  ultimately show ?thesis by simp
qed

lemma parse_loop_keeps:
  "parse_loop k cap p len mg rej s = (r, mg', rej', t) \<Longrightarrow> same_link s t"
proof (induction k cap p len mg rej s rule: parse_loop.induct)
  case (1 k cap p len mg rej s)
  obtain r' s1 where opt: "lcp_opt k p len s = (r', s1)" by (cases "lcp_opt k p len s")
  have s1: "same_link s s1" using opt by (rule lcp_opt_keeps)
  let ?n = "unat (skb_at k (p + 1))"
  let ?rej = "rej @ octets k p ?n"
  define s2 where "s2 = reads k p ?n s1"
  define s3 where "s3 = s2\<lparr>over_write := over_write s2 \<or> length ?rej > cap\<rparr>"
  have s3: "same_link s s3"
    unfolding s3_def s2_def by (simp add: s1)
  show ?case
  proof (cases "len > 1 \<and> skb_at k (p + 1) \<noteq> 0")
    case False
    then show ?thesis
      using "1.prems" [unfolded parse_loop.simps [of k cap p len] if_not_P [OF False]] by simp
  next
    case True
    note eq = "1.prems" [unfolded parse_loop.simps [of k cap p len] if_P [OF True] Let_def opt prod.case]
    note ih = "1.IH" [OF True refl opt [symmetric]]
    show ?thesis
    proof (cases r')
      case Opt_ok
      then show ?thesis using eq ih(1) same_link_trans [OF s1] by simp
    next
      case (Opt_magic m)
      then show ?thesis using eq ih(2) same_link_trans [OF s1] by simp
    next
      case (Opt_return v)
      then show ?thesis using eq s1 by simp
    next
      case Opt_reject
      then show ?thesis using eq ih(3) [OF Opt_reject refl s2_def s3_def] same_link_trans [OF s3]
        by (simp add: s3_def s2_def)
    qed
  qed
qed

text \<open>All that the parsing of options does to the state a link is in: it may send a Reject.\<close>

lemma parse_keeps:
  assumes "sppp_lcp_conf_parse_options e k len mg s = (r, mg', t)"
  shows "timer_ok t = timer_ok s \<and> lcp t = lcp s \<and> ipcp t = ipcp s \<and> dev_up t = dev_up s \<and>
    dynamic_ip t = dynamic_ip s \<and> myauth t = myauth s \<and> rx_up t = rx_up s"
proof -
  obtain r0 mg0 rej0 t0 where loop: "parse_loop k (nat (len - 4)) 4 (len - 4) mg [] (s\<lparr>allocs := allocs s + 1\<rparr>)
      = (r0, mg0, rej0, t0)"
    by (metis prod_cases4)
  have "same_link s t0"
    by (rule same_link_trans [OF same_link_steps(3) [OF same_link_refl] parse_loop_keeps [OF loop]])
  moreover have "t = s\<lparr>allocs := allocs s + 1\<rparr> \<or> t = t0 \<or> t = cp_send_buf e PPP_LCP CONF_REJ (skb_at k 1) rej0 t0"
    using assms by (simp add: sppp_lcp_conf_parse_options_def Let_def loop [simplified] split: if_splits option.splits)
  ultimately show ?thesis by (elim disjE) (simp_all add: same_link_def)
qed

lemma timer_lcp_parts [simp]:
  "timer_ok s \<Longrightarrow> timer_ok (lcp_badreq e s)"
  "timer_ok s \<Longrightarrow> timer_ok (lcp_up e ident s)"
  by (simp_all add: lcp_badreq_def lcp_up_def Let_def split: cp_state.split)

lemma timer_lcp_packets [simp]:
  "timer_ok s \<Longrightarrow> timer_ok (lcp_loopback e ident s)"
  "timer_ok s \<Longrightarrow> timer_ok (lcp_good_request e k len s)"
  "timer_ok s \<Longrightarrow> timer_ok (lcp_conf_ack e ident s)"
  "timer_ok s \<Longrightarrow> timer_ok (lcp_conf_nak e k len s)"
  "timer_ok s \<Longrightarrow> timer_ok (lcp_conf_rej e ident s)"
  "timer_ok s \<Longrightarrow> timer_ok (lcp_term_req e ident s)"
  "timer_ok s \<Longrightarrow> timer_ok (lcp_echo_req e k len s)"
  "timer_ok s \<Longrightarrow> timer_ok (lcp_echo_reply k len s)"
  by (simp_all add: lcp_loopback_def lcp_good_request_def lcp_conf_ack_def lcp_conf_nak_def lcp_conf_rej_def
      lcp_term_req_def lcp_echo_req_def lcp_echo_reply_def Let_def split: cp_state.split)

lemma timer_conf_req [simp]: "timer_ok s \<Longrightarrow> timer_ok (lcp_conf_req e k len s)"
  by (auto simp: lcp_conf_req_def dest!: parse_keeps split: prod.split)

lemma timer_lcp_input [simp]: "timer_ok s \<Longrightarrow> timer_ok (sppp_lcp_input e k s)"
  by (simp add: sppp_lcp_input_def Let_def)

lemma timer_ipcp_packets [simp]:
  "timer_ok s \<Longrightarrow> timer_ok (ipcp_static_req e k len s)"
  "timer_ok s \<Longrightarrow> timer_ok (ipcp_conf_ack e ident s)"
  "timer_ok s \<Longrightarrow> timer_ok (ipcp_conf_rej e ident s)"
  "timer_ok s \<Longrightarrow> timer_ok (ipcp_term_req e ident s)"
  by (simp_all add: ipcp_static_req_def ipcp_conf_ack_def ipcp_conf_rej_def ipcp_term_req_def Let_def
      split: cp_state.split)

lemma timer_ipcp_input [simp]: "timer_ok s \<Longrightarrow> timer_ok (sppp_ipcp_input e k s)"
  by (simp add: sppp_ipcp_input_def ipcp_conf_req_def ipcp_conf_nak_def Let_def)

lemma timer_auth_input [simp]:
  "timer_ok s \<Longrightarrow> timer_ok (pap_input e k s)" "timer_ok s \<Longrightarrow> timer_ok (sppp_chap_input e k s)"
  by (simp_all add: pap_input_def sppp_chap_input_def chap_challenge_def Let_def)

lemma timer_cisco [simp]: "timer_ok s \<Longrightarrow> timer_ok (sppp_cisco_input e k s)"
  by (simp add: sppp_cisco_input_def cisco_keepalive_def Let_def split: option.split)

lemma timer_input [simp]: "timer_ok s \<Longrightarrow> timer_ok (wp_sppp_input e f s)"
  by (simp add: wp_sppp_input_def ppp_input_def Let_def)

lemma timer_iface [simp]:
  "timer_ok s \<Longrightarrow> timer_ok (wp_sppp_close s)"
  "timer_ok s \<Longrightarrow> timer_ok (wp_sppp_open e s)"
  "timer_ok s \<Longrightarrow> timer_ok (wp_sppp_reopen e s)"
  "timer_ok s \<Longrightarrow> timer_ok (keepalive_one e s)"
  "timer_ok s \<Longrightarrow> timer_ok (sppp_bh e s)"
  by (simp_all add: wp_sppp_close_def auth_clear_timeout_def wp_sppp_open_def wp_sppp_reopen_def keepalive_one_def
    sppp_bh_def host_does_def Let_def)


section \<open>IPCP is above LCP\<close>

lemma states_open [simp]:
  "lcp_st (sppp_lcp_open e s) = lcp_st s" "ipcp (sppp_lcp_open e s) = ipcp s"
  "ipcp_st (sppp_ipcp_open e s) = ipcp_st s" "lcp (sppp_ipcp_open e s) = lcp s"
  by (simp_all add: sppp_lcp_open_def sppp_ipcp_open_def Let_def)

lemma states_badreq [simp]:
  "lcp_st (lcp_badreq e s) = (if lcp_st s = CP_ACK_RCVD then CP_ACK_RCVD else CP_CLOSED)"
  "ipcp_st (lcp_badreq e s) = (if lcp_st s \<in> {CP_OPENED, CP_ACK_SENT} then CP_CLOSED else ipcp_st s)"
  by (simp_all add: lcp_badreq_def split: cp_state.split)

lemma states_up [simp]:
  "lcp_st (lcp_up e ident s) = CP_OPENED" "ipcp_st (lcp_up e ident s) = ipcp_st s"
  by (simp_all add: lcp_up_def Let_def)

lemma layers_lcp:
  "layers_ok s \<Longrightarrow> layers_ok (lcp_loopback e ident s)"
  "layers_ok s \<Longrightarrow> layers_ok (lcp_good_request e k len s)"
  "layers_ok s \<Longrightarrow> layers_ok (lcp_conf_ack e ident s)"
  "layers_ok s \<Longrightarrow> layers_ok (lcp_conf_nak e k len s)"
  "layers_ok s \<Longrightarrow> layers_ok (lcp_conf_rej e ident s)"
  "layers_ok s \<Longrightarrow> layers_ok (lcp_term_req e ident s)"
  "layers_ok s \<Longrightarrow> layers_ok (lcp_echo_req e k len s)"
  "layers_ok s \<Longrightarrow> layers_ok (lcp_echo_reply k len s)"
  by (auto simp: layers_ok_def lcp_loopback_def lcp_good_request_def lcp_conf_ack_def lcp_conf_nak_def lcp_conf_rej_def
      lcp_term_req_def lcp_echo_req_def lcp_echo_reply_def Let_def split: cp_state.split)

lemma layers_opens:
  "layers_ok (sppp_lcp_open e s) = layers_ok s" "layers_ok (sppp_ipcp_open e s) = layers_ok s"
  by (simp_all add: layers_ok_def)

lemma layers_conf_req: "layers_ok s \<Longrightarrow> layers_ok (lcp_conf_req e k len s)"
  by (auto simp: lcp_conf_req_def layers_ok_def intro!: layers_lcp(1,2) [unfolded layers_ok_def, rule_format]
      dest!: parse_keeps split: prod.split if_splits)

lemma layers_lcp_input: "layers_ok s \<Longrightarrow> layers_ok (sppp_lcp_input e k s)"
  by (simp add: sppp_lcp_input_def Let_def layers_lcp layers_conf_req) (simp add: layers_ok_def)

lemma layers_ipcp:
  assumes "lcp_st s = CP_OPENED"
  shows "lcp_st (sppp_ipcp_input e k s) = CP_OPENED"
  using assms
  by (simp add: sppp_ipcp_input_def ipcp_conf_req_def ipcp_conf_nak_def ipcp_static_req_def ipcp_conf_ack_def
      ipcp_conf_rej_def ipcp_term_req_def Let_def split: cp_state.split)

lemma layers_input: "layers_ok s \<Longrightarrow> layers_ok (wp_sppp_input e f s)"
proof -
  define s0 where "s0 = (if dev_running s
    then s\<lparr>ibytes := ibytes s + of_nat (skb_len f) + 3, ipkts := ipkts s + 1\<rparr> else s)"
  assume "layers_ok s"
  then have s0: "layers_ok s0" by (simp add: layers_ok_def s0_def)
  have cisco: "layers_ok (sppp_cisco_input e k s0)" for k
    using s0 by (simp add: layers_ok_def sppp_cisco_input_def cisco_keepalive_def Let_def split: option.split)
  have auth: "layers_ok (pap_input e k s0)" "layers_ok (sppp_chap_input e k s0)" for k
    using s0 by (simp_all add: layers_ok_def pap_input_def sppp_chap_input_def chap_challenge_def Let_def)
  have "layers_ok (ppp_input e f k s0)" for k
    using s0 layers_ipcp [of s0 e k]
    by (simp add: ppp_input_def Let_def layers_lcp_input auth) (simp add: layers_ok_def)
  then show ?thesis
    using s0 cisco by (simp add: wp_sppp_input_def Let_def flip: s0_def) (simp add: layers_ok_def)
qed

lemma layers_timeout: "layers_ok s \<Longrightarrow> layers_ok (sppp_cp_timeout e s)"
  by (auto simp: sppp_cp_timeout_def Let_def layers_ok_def split: cp_state.split)

lemma layers_iface:
  "layers_ok (wp_sppp_close s)" "layers_ok (wp_sppp_open e s)" "layers_ok (wp_sppp_reopen e s)"
  "layers_ok s \<Longrightarrow> layers_ok (keepalive_one e s)"
  "layers_ok s \<Longrightarrow> layers_ok (sppp_bh e s)"
  by (simp_all add: layers_ok_def wp_sppp_close_def auth_clear_timeout_def wp_sppp_open_def wp_sppp_reopen_def
      keepalive_one_def sppp_bh_def host_does_def Let_def)

section \<open>Runs of an interface\<close>

text \<open>
  Everything that can happen to an interface: a frame, the restart timer when it is armed,
  the keepalive timer, the calls of the driver and of the user, the bottom half, a change
  of the flags of the device.
\<close>

datatype sppp_event =
    Frame env skb
  | Timer env
  | Keepalive env
  | Bottom_half env
  | Open_if env
  | Close_if
  | Reopen_if env
  | Set_mtu int
  | Ioctl bool bool nat u32
  | Device bool bool

definition sppp_do :: "sppp_event \<Rightarrow> sppp \<Rightarrow> sppp" where
  "sppp_do ev s =
     (case ev of
        Frame e f \<Rightarrow> wp_sppp_input e f s
      | Timer e \<Rightarrow> (if pp_timer s \<noteq> None then sppp_cp_timeout e s else s)
      | Keepalive e \<Rightarrow> keepalive_one e s
      | Bottom_half e \<Rightarrow> sppp_bh e s
      | Open_if e \<Rightarrow> wp_sppp_open e s
      | Close_if \<Rightarrow> wp_sppp_close s
      | Reopen_if e \<Rightarrow> wp_sppp_reopen e s
      | Set_mtu n \<Rightarrow> (case wp_sppp_change_mtu n s of Inl _ \<Rightarrow> s | Inr s' \<Rightarrow> s')
      | Ioctl admin access cmd arg \<Rightarrow>
          (case wp_sppp_do_ioctl admin access cmd arg s of Inl _ \<Rightarrow> s | Inr (_, s') \<Rightarrow> s')
      | Device up running \<Rightarrow> s\<lparr>dev_up := up, dev_running := running\<rparr>)"

text \<open>The ioctl that stores all the flags of the interface from the user.\<close>

definition stores_flags :: "sppp_event \<Rightarrow> bool" where
  "stores_flags ev \<longleftrightarrow> (case ev of Ioctl admin access cmd arg \<Rightarrow> cmd = SIOCDEVPRIVATE + 3 | _ \<Rightarrow> False)"

locale event_run =
  fixes act :: "'ev \<Rightarrow> 's \<Rightarrow> 's" and allowed :: "'ev \<Rightarrow> bool" and inv :: "'s \<Rightarrow> bool"
  assumes step: "allowed ev \<Longrightarrow> inv s \<Longrightarrow> inv (act ev s)"
begin

lemma run: "inv s \<Longrightarrow> \<forall>ev \<in> set evs. allowed ev \<Longrightarrow> inv (fold act evs s)"
  by (induction evs arbitrary: s) (auto intro: step)

end

lemma layers_ioctl: "layers_ok s \<Longrightarrow> wp_sppp_do_ioctl a b c d s = Inr (r, s') \<Longrightarrow> layers_ok s'"
  by (auto simp: wp_sppp_do_ioctl_def Let_def layers_ok_def split: if_splits)

lemma timer_ioctl:
  "timer_ok s \<Longrightarrow> wp_sppp_do_ioctl a b c d s = Inr (r, s') \<Longrightarrow> c \<noteq> SIOCDEVPRIVATE + 3 \<Longrightarrow> timer_ok s'"
  by (auto simp: wp_sppp_do_ioctl_def Let_def timer_ok_def split: if_splits)

interpretation layers: event_run sppp_do "\<lambda>_. True" layers_ok
proof
  fix ev s assume "layers_ok s"
  then show "layers_ok (sppp_do ev s)"
    by (auto simp: sppp_do_def layers_input layers_timeout layers_iface wp_sppp_change_mtu_def
        split: sppp_event.split sum.split dest: layers_ioctl) (simp_all add: layers_ok_def)
qed

interpretation timer: event_run sppp_do "\<lambda>ev. \<not> stores_flags ev" timer_ok
proof
  fix ev s assume "\<not> stores_flags ev" "timer_ok s"
  then show "timer_ok (sppp_do ev s)"
    by (auto simp: sppp_do_def stores_flags_def timer_cp_timeout wp_sppp_change_mtu_def
        split: sppp_event.split sum.split dest: timer_ioctl) (simp_all add: timer_ok_def)
qed

end
