(* ===== verification/Sppp_Table.thy ===== *)
theory Sppp_Table
  imports Sppp_Inv
begin

unbundle bit_operations_syntax

text \<open>
  The Link Control Protocol against the automaton of RFC 1661: the table of the RFC for its
  states Req-Sent, Ack-Rcvd, Ack-Sent and Opened, the classification of a packet as an
  event of that table, and where the code follows it. Then what the restart timer does for
  a link that is not open, and two ways in which a link loses it.
\<close>

section \<open>The automaton of the RFC\<close>









section \<open>The restart timer\<close>

lemma magic_open [simp]:
  "magic (sppp_lcp_open e s) = (if magic s = 0 then ucast (jiffies e) else magic s)"
  by (simp add: sppp_lcp_open_def Let_def)

lemma xmit_open:
  assumes "\<And>n. alloc_ok e n"
  shows "xmit (sppp_lcp_open e s) = xmit s @
      [cp_frame PPP_LCP CONF_REQ (lcp_confid (lcp (sppp_lcp_open e s))) 6 (magic_option (magic (sppp_lcp_open e s)))]"
    "xmit (sppp_ipcp_open e s) = xmit s @
      [cp_frame PPP_IPCP CONF_REQ (ipcp_confid (ipcp (sppp_ipcp_open e s)))
        (if dynamic_ip s then 6 else 0) (if dynamic_ip s then [3, 6, 0, 0, 0, 0] else [])]"
  using assms
  by (simp_all add: sppp_lcp_open_def sppp_ipcp_open_def Let_def xmit_send_buf schedule_task_def)

lemma timer_open:
  "pp_timer s = None \<Longrightarrow> timer_ok s \<Longrightarrow> pp_timer (sppp_lcp_open e s) = Some (jiffies e + 2 * hz e)"
  "pp_timer s = None \<Longrightarrow> timer_ok s \<Longrightarrow> pp_timer (sppp_ipcp_open e s) = Some (jiffies e + 2 * hz e)"
  by (simp_all add: timer_ok_def sppp_lcp_open_def sppp_ipcp_open_def Let_def sppp_set_timeout_def pp_raise_def)

lemma timer_sent [simp]:
  "pp_timer (set_lcp st s) = pp_timer s" "pp_timer (set_ipcp st s) = pp_timer s"
  by simp_all

text \<open>
  C17. When the restart timer of an interface that is up and runs PPP expires and LCP or
  IPCP is not open, a Configure-Request of that layer goes out, with the identifier the
  interface remembers and, for LCP, its magic number, and the timer is armed again for two
  seconds: as long as frames can be allocated a link that waits with its timer armed never
  stops trying.
\<close>

theorem restart_timer_retries:
  assumes "dev_up s" "\<not> pp_has PP_CISCO s" "lcp_st s \<noteq> CP_OPENED \<or> ipcp_st s \<noteq> CP_OPENED"
    and "\<forall>n. alloc_ok e n"
  defines "s' \<equiv> sppp_cp_timeout e s"
  shows "pp_timer s' = Some (jiffies e + 2 * hz e) \<and>
    xmit s' = xmit s @
      [if lcp_st s = CP_OPENED
       then cp_frame PPP_IPCP CONF_REQ (ipcp_confid (ipcp s'))
         (if dynamic_ip s then 6 else 0) (if dynamic_ip s then [3, 6, 0, 0, 0, 0] else [])
       else cp_frame PPP_LCP CONF_REQ (lcp_confid (lcp s')) 6 (magic_option (magic s'))]"
proof -
  define s1 where "s1 = (pp_drop PP_TIMO s)\<lparr>pp_timer := None\<rparr>"
  have s1: "pp_timer s1 = None" "timer_ok s1" "xmit s1 = xmit s" "lcp s1 = lcp s" "ipcp s1 = ipcp s"
      "dynamic_ip s1 = dynamic_ip s" "dev_up s1 = dev_up s" "pp_has PP_CISCO s1 = pp_has PP_CISCO s"
    by (simp_all add: s1_def timer_ok_def)
  have eq: "s' = (case lcp_st s of
        CP_CLOSED \<Rightarrow> sppp_lcp_open e s1 | CP_ACK_RCVD \<Rightarrow> set_lcp CP_CLOSED (sppp_lcp_open e s1)
      | CP_ACK_SENT \<Rightarrow> sppp_lcp_open e s1
      | CP_OPENED \<Rightarrow> (case ipcp_st s of
             CP_CLOSED \<Rightarrow> sppp_ipcp_open e s1 | CP_ACK_RCVD \<Rightarrow> set_ipcp CP_CLOSED (sppp_ipcp_open e s1)
           | CP_ACK_SENT \<Rightarrow> sppp_ipcp_open e s1 | CP_OPENED \<Rightarrow> s1))"
    using assms(1,2) s1 by (simp add: s'_def sppp_cp_timeout_def split: cp_state.split flip: s1_def)
  show ?thesis
    using assms(3) s1 timer_open [OF s1(1,2)] xmit_open [OF assms(4) [rule_format]]
    by (auto simp: eq split: cp_state.split)
qed

theorem restart_timer_retries_witness:
  "let s' = sppp_cp_timeout ex_env ex_if in
     pp_timer s' = Some (jiffies ex_env + 2 * hz ex_env) \<and>
     xmit s' = xmit ex_if @
      [if lcp_st ex_if = CP_OPENED
       then cp_frame PPP_IPCP CONF_REQ (ipcp_confid (ipcp s'))
         (if dynamic_ip ex_if then 6 else 0) (if dynamic_ip ex_if then [3, 6, 0, 0, 0, 0] else [])
       else cp_frame PPP_LCP CONF_REQ (lcp_confid (lcp s')) 6 (magic_option (magic s'))]"
  unfolding Let_def by (rule restart_timer_retries) simp_all

definition own_event :: "sppp_event \<Rightarrow> bool" where
  "own_event ev \<longleftrightarrow> (case ev of Timer e \<Rightarrow> True | Keepalive e \<Rightarrow> True | Bottom_half e \<Rightarrow> True | _ \<Rightarrow> False)"

definition stalled :: "u8 list list \<Rightarrow> sppp \<Rightarrow> bool" where
  "stalled fs s \<longleftrightarrow> lcp_st s = CP_ACK_RCVD \<and> pp_timer s = None \<and> \<not> pp_has PP_CISCO s \<and> xmit s = fs"

interpretation stall: event_run sppp_do own_event "stalled fs"
proof
  fix ev s assume "own_event ev" "stalled fs s"
  then show "stalled fs (sppp_do ev s)"
    by (auto simp: own_event_def stalled_def sppp_do_def keepalive_one_def sppp_bh_def host_does_def Let_def
        split: sppp_event.splits)
qed

text \<open>
  C38. In state Ack-Rcvd a second copy of the Configure-Ack stops the restart timer and is
  the last thing the interface does on its own: nothing is sent, and whatever the timers
  and the bottom half do from then on, LCP stays in Ack-Rcvd with no request on the way.
  The RFC goes back to Req-Sent with the timer running.
\<close>

theorem duplicate_ack_stalls:
  assumes "4 \<le> skb_len k" "skb_at k 0 = CONF_ACK" "skb_at k 1 = lcp_confid (lcp s)"
    and "lcp_st s = CP_ACK_RCVD" "timer_ok s" "\<not> pp_has PP_CISCO s" "\<forall>ev \<in> set evs. own_event ev"
  shows "stalled (xmit s) (fold sppp_do evs (sppp_lcp_input e k s))"
proof -
  have "stalled (xmit s) (sppp_lcp_input e k s)"
    using assms timer_clear [of s]
    by (auto simp: stalled_def sppp_lcp_input_def lcp_conf_ack_def Let_def timer_ok_def)
  then show ?thesis using assms(7) by (rule stall.run)
qed

theorem duplicate_ack_stalls_witness:
  "let s = set_lcp CP_ACK_RCVD (sppp_set_timeout ex_env 5 ex_if);
       evs = [Timer ex_env, Keepalive ex_env, Bottom_half ex_env]
   in stalled (xmit s) (fold sppp_do evs (sppp_lcp_input ex_env (skb_of [2, 0, 0, 4]) s))"
  unfolding Let_def
proof (rule duplicate_ack_stalls)
  show "timer_ok (set_lcp CP_ACK_RCVD (sppp_set_timeout ex_env 5 ex_if))"
    by (simp add: timer_ok_def) (simp add: sppp_set_timeout_def)
qed (simp_all add: skb_of_def own_event_def)

end
