(* ===== verification/Sppp_Negotiation.thy ===== *)
theory Sppp_Negotiation
  imports Sppp_Table
begin

unbundle bit_operations_syntax

text \<open>
  Two interfaces on a line that loses nothing: whatever the order in which the frames of the
  two directions are delivered, the negotiation comes to its end, with LCP and IPCP open
  on both sides.
\<close>

section \<open>Control packets as they arrive\<close>

lemma skb_len_of [simp]: "skb_len (skb_of os) = length os"
  by (simp add: skb_of_def)

lemma skb_at_of [simp]: "i < length os \<Longrightarrow> skb_at (skb_of os) i = os ! i"
  by (simp add: skb_of_def)

lemma pull_skb_of [simp]: "n \<le> length os \<Longrightarrow> skb_pull n (skb_of os) = skb_of (drop n os)"
  by (auto simp: skb_pull_def skb_of_def fun_eq_iff add.commute)

lemma be16_word: "push_bit 8 (ucast (ucast (drop_bit 8 w) :: u8)) OR ucast (ucast w :: u8) = (w :: u16)"
  by (rule bit_word_eqI) (auto simp: bit_simps)

lemma be32_word:
  "push_bit 24 (ucast (ucast (drop_bit 24 w) :: u8)) OR push_bit 16 (ucast (ucast (drop_bit 16 w) :: u8)) OR
   push_bit 8 (ucast (ucast (drop_bit 8 w) :: u8)) OR ucast (ucast w :: u8) = (w :: u32)" (is "?l = _")
proof (rule bit_word_eqI)
  fix n assume "n < LENGTH(32)"
  then consider "n < 8" | "8 \<le> n" "n < 16" | "16 \<le> n" "n < 24" | "24 \<le> n" "n < 32" by fastforce
  then show "bit ?l n = bit w n"
    by cases (auto simp: bit_simps)
qed

definition cp_packet :: "u8 \<Rightarrow> u8 \<Rightarrow> u16 \<Rightarrow> u8 list \<Rightarrow> u8 list" where
  "cp_packet ty ident len os = [ty, ident] @ be16 (4 + len) @ os"

lemma cp_packet_at [simp]:
  "length (cp_packet ty ident len os) = 4 + length os"
  "cp_packet ty ident len os ! 0 = ty" "cp_packet ty ident len os ! Suc 0 = ident"
  "drop 4 (cp_packet ty ident len os) = os"
  by (simp_all add: cp_packet_def be16_def)

lemma cp_packet_nth: "4 \<le> i \<Longrightarrow> cp_packet ty ident len os ! i = os ! (i - 4)"
  by (simp add: cp_packet_def be16_def nth_append eval_nat_numeral nth_Cons' split: if_split) 

lemma cp_packet_len [simp]: "ntohs_at (skb_of (cp_packet ty ident len os)) 2 = 4 + len"
  by (simp add: ntohs_at_def cp_packet_def be16_def) (simp add: be16_word)

lemma cp_frame_packet: "cp_frame proto ty ident len os = [PPP_ALLSTATIONS, PPP_UI] @ be16 proto @ cp_packet ty ident len os"
  by (simp add: cp_frame_def cp_packet_def)

lemma cp_frame_at [simp]:
  "length (cp_frame proto ty ident len os) = 8 + length os"
  "cp_frame proto ty ident len os ! 0 = PPP_ALLSTATIONS" "cp_frame proto ty ident len os ! Suc 0 = PPP_UI"
  "drop 4 (cp_frame proto ty ident len os) = cp_packet ty ident len os"
  "ntohs_at (skb_of (cp_frame proto ty ident len os)) 2 = proto"
  by (simp_all add: cp_frame_packet be16_def ntohs_at_def be16_word)

definition counted :: "env \<Rightarrow> nat \<Rightarrow> sppp \<Rightarrow> sppp" where
  "counted e n s = (if dev_running s then s\<lparr>ibytes := ibytes s + of_nat n + 3, ipkts := ipkts s + 1\<rparr> else s)"

lemma input_control:
  assumes "\<not> pp_has PP_CISCO s"
  shows "wp_sppp_input e (skb_of (cp_frame PPP_LCP ty ident len os)) s =
      sppp_lcp_input e (skb_of (cp_packet ty ident len os)) (counted e (8 + length os) s)"
    "lcp_st s = CP_OPENED \<Longrightarrow> wp_sppp_input e (skb_of (cp_frame PPP_IPCP ty ident len os)) s =
      sppp_ipcp_input e (skb_of (cp_packet ty ident len os)) (counted e (8 + length os) s)"
proof -
  show "wp_sppp_input e (skb_of (cp_frame PPP_LCP ty ident len os)) s =
      sppp_lcp_input e (skb_of (cp_packet ty ident len os)) (counted e (8 + length os) s)"
    using assms by (simp add: wp_sppp_input_def ppp_input_def Let_def counted_def)
  show "lcp_st s = CP_OPENED \<Longrightarrow> wp_sppp_input e (skb_of (cp_frame PPP_IPCP ty ident len os)) s =
      sppp_ipcp_input e (skb_of (cp_packet ty ident len os)) (counted e (8 + length os) s)"
    using assms by (simp add: wp_sppp_input_def ppp_input_def Let_def counted_def)
qed


section \<open>The four packets of a negotiation\<close>

lemma counted_fields [simp]:
  "pp_flags (counted e n s) = pp_flags s" "pp_has g (counted e n s) = pp_has g s" "lcp (counted e n s) = lcp s"
  "ipcp (counted e n s) = ipcp s" "xmit (counted e n s) = xmit s" "pp_seq (counted e n s) = pp_seq s"
  "dynamic_ip (counted e n s) = dynamic_ip s" "dev_up (counted e n s) = dev_up s" "myauth (counted e n s) = myauth s"
  "rx_up (counted e n s) = rx_up s" "pp_timer (counted e n s) = pp_timer s"
  by (simp_all add: counted_def pp_has_def)

lemma parse_magic_request:
  assumes "\<And>n. alloc_ok e n"
  shows "sppp_lcp_conf_parse_options e (skb_of (cp_packet CONF_REQ ident 6 (magic_option m))) 10 0 s =
    (1, m, s\<lparr>allocs := allocs s + 1\<rparr>)"
proof -
  let ?k = "skb_of (cp_packet CONF_REQ ident 6 (magic_option m))"
  have at: "skb_at ?k 4 = OPT_MAGIC" "skb_at ?k 5 = 6" "ntohl_at ?k 6 = m"
    by (simp_all add: magic_option_def cp_packet_nth ntohl_at_def be32_def) (simp add: be32_word)
  have "lcp_opt ?k 4 6 s1 = (Opt_magic m, s1)" for s1
    by (simp add: lcp_opt_def Let_def at)
  then have "parse_loop ?k cap 4 6 0 [] s1 = (None, m, [], s1)" for cap s1
    by (simp add: parse_loop.simps [of ?k cap 4] parse_loop.simps [of ?k cap 10] at)
  then show ?thesis
    using assms by (simp add: sppp_lcp_conf_parse_options_def Let_def)
qed

lemma magic_request_received:
  assumes "\<And>n. alloc_ok e n" "m \<noteq> magic s" "lcp_st s = CP_CLOSED"
  assumes t_def: "t = sppp_lcp_input e (skb_of (cp_packet CONF_REQ ident 6 (magic_option m))) s"
  shows "lcp_st t = CP_ACK_SENT" "xmit t = xmit s @ [cp_frame PPP_LCP CONF_ACK ident 6 (magic_option m)]"
    "lcp_confid (lcp t) = lcp_confid (lcp s)" "magic t = magic s" "ipcp t = ipcp s" "pp_seq t = pp_seq s"
    "dynamic_ip t = dynamic_ip s" "pp_has g t = pp_has g s"
proof -
  let ?k = "skb_of (cp_packet CONF_REQ ident 6 (magic_option m))"
  let ?s = "s\<lparr>allocs := allocs s + 1\<rparr>"
  have "t = lcp_good_request e ?k 10 ?s"
    using assms parse_magic_request [OF assms(1), of ident m s]
    by (simp add: t_def sppp_lcp_input_def lcp_conf_req_def)
  then have t: "t = set_lcp CP_ACK_SENT (sppp_cp_send e PPP_LCP CONF_ACK ident 6 ?k 4 (?s\<lparr>pp_loopcnt := 0\<rparr>))"
    using assms(3) by (simp add: lcp_good_request_def)
  have "octets ?k 4 6 = magic_option m"
    by (simp add: octets_skb_of)
  then show "lcp_st t = CP_ACK_SENT" "xmit t = xmit s @ [cp_frame PPP_LCP CONF_ACK ident 6 (magic_option m)]"
      "lcp_confid (lcp t) = lcp_confid (lcp s)" "magic t = magic s" "ipcp t = ipcp s" "pp_seq t = pp_seq s"
      "dynamic_ip t = dynamic_ip s" "pp_has g t = pp_has g s"
    using assms(1) by (simp_all add: t xmit_cp_send)
qed

lemma lcp_ack_received:
  assumes "\<And>n. alloc_ok e n" "lcp_st s = CP_ACK_SENT" "lcp_confid (lcp s) = ident" "\<not> pp_has PP_NEEDAUTH s"
    "\<not> dynamic_ip s"
  assumes t_def: "t = sppp_lcp_input e (skb_of (cp_packet CONF_ACK ident len os)) s"
  shows "lcp_st t = CP_OPENED"
    "xmit t = xmit s @ [cp_frame PPP_IPCP CONF_REQ (ucast (pp_seq s 0 + 1)) 0 []]"
    "ipcp_confid (ipcp t) = ucast (pp_seq s 0 + 1)" "magic t = magic s" "ipcp_st t = ipcp_st s"
    "dynamic_ip t = dynamic_ip s" "PP_TIMO AND g = 0 \<Longrightarrow> pp_has g t = pp_has g s"
  using assms by (simp_all add: sppp_lcp_input_def lcp_conf_ack_def lcp_up_def sppp_ipcp_open_def xmit_send_buf
    inc_seq_def Let_def)

lemma ipcp_request_received:
  assumes "\<And>n. alloc_ok e n" "ipcp_st s = CP_CLOSED" 
  assumes t_def: "t = sppp_ipcp_input e (skb_of (cp_packet CONF_REQ ident 0 [])) s"
  shows "lcp t = lcp s" "ipcp_st t = CP_ACK_SENT"
    "xmit t = xmit s @ [cp_frame PPP_IPCP CONF_ACK ident 0 []]"
    "ipcp_confid (ipcp t) = ipcp_confid (ipcp s)" 
    "dynamic_ip t = dynamic_ip s" "pp_has g t = pp_has g s"
  using assms by (simp_all add: sppp_ipcp_input_def ipcp_conf_req_def xmit_send_buf Let_def)

lemma ipcp_ack_received:
  assumes "ipcp_st s = CP_ACK_SENT" "ipcp_confid (ipcp s) = ident" "\<not> dynamic_ip s"
  assumes t_def: "t = sppp_ipcp_input e (skb_of (cp_packet CONF_ACK ident 0 [])) s"
  shows "lcp t = lcp s" "ipcp_st t = CP_OPENED" "xmit t = xmit s" "ipcp_confid (ipcp t) = ipcp_confid (ipcp s)"
    "dynamic_ip t = dynamic_ip s" "PP_TIMO AND g = 0 \<Longrightarrow> pp_has g t = pp_has g s"
  using assms by (simp_all add: sppp_ipcp_input_def ipcp_conf_ack_def Let_def)


section \<open>One side\<close>

text \<open>
  What a side is known by: the identifiers of its LCP and IPCP requests and its magic number.
  The frames it sends, in order, when the other side is \<open>p\<close>.
\<close>

type_synonym side = "u8 \<times> u32 \<times> u8"

fun hs_frames :: "side \<Rightarrow> side \<Rightarrow> u8 list list" where
  "hs_frames (c, m, d) (c', m', d') =
     [cp_frame PPP_LCP CONF_REQ c 6 (magic_option m), cp_frame PPP_LCP CONF_ACK c' 6 (magic_option m'),
      cp_frame PPP_IPCP CONF_REQ d 0 [], cp_frame PPP_IPCP CONF_ACK d' 0 []]"

text \<open>The state of a side that has received \<open>n\<close> of the frames of the other.\<close>

fun hs_at :: "side \<Rightarrow> side \<Rightarrow> nat \<Rightarrow> sppp \<Rightarrow> bool" where
  "hs_at (c, m, d) p n s \<longleftrightarrow>
     \<not> pp_has PP_CISCO s \<and> \<not> pp_has PP_NEEDAUTH s \<and> \<not> dynamic_ip s \<and>
     xmit s = take (n + 1) (hs_frames (c, m, d) p) \<and>
     (n < 2 \<longrightarrow> magic s = m \<and> lcp_confid (lcp s) = c \<and> ucast (pp_seq s 0 + 1) = d) \<and>
     (2 \<le> n \<longrightarrow> ipcp_confid (ipcp s) = d) \<and>
     lcp_st s = (if n = 0 then CP_CLOSED else if n = 1 then CP_ACK_SENT else CP_OPENED) \<and>
     ipcp_st s = (if n < 3 then CP_CLOSED else if n = 3 then CP_ACK_SENT else CP_OPENED)"

lemma hs_step:
  assumes at: "hs_at (c, m, d) (c', m', d') n s" and n: "n < 4" and "m \<noteq> m'" and ok: "\<And>n. alloc_ok e n"
  shows "hs_at (c, m, d) (c', m', d') (Suc n) (wp_sppp_input e (skb_of (hs_frames (c', m', d') (c, m, d) ! n)) s)"
proof -
  have base: "\<not> pp_has PP_CISCO s" "\<not> pp_has PP_NEEDAUTH s" "\<not> dynamic_ip s"
    using at by simp_all
  consider "n = 0" | "n = 1" | "n = 2" | "n = 3" using n by linarith
  then show ?thesis
  proof cases
    case 1
    show ?thesis
      using at base \<open>m \<noteq> m'\<close> 1 
       magic_request_received [OF ok, of m' "counted e (8 + 6) s" _ c', OF _ _ refl]
      by (simp add: input_control(1) take_Suc_conv_app_nth)
  next
    case 2
    show ?thesis
      using at base 2 lcp_ack_received [OF ok, of "counted e (8 + 6) s" c _ 6 "magic_option m", OF _ _ _ _ refl]
      by (simp add: input_control(1) numeral_2_eq_2)
  next
    case 3
    show ?thesis
      using at base 3 ipcp_request_received [OF ok, of "counted e (8 + 0) s" _ d', OF _ refl]
      by (simp add: input_control(2) numeral_2_eq_2 numeral_3_eq_3)
  next
    case 4
    show ?thesis
      using at base 4 ipcp_ack_received [of "counted e (8 + 0) s" d _, OF _ _ _ refl]
      by (simp add: input_control(2) numeral_eq_Suc)
  qed
qed


lemma hs_open:
  assumes "\<not> pp_has PP_CISCO s" "\<not> pp_has PP_NEEDAUTH s" "\<not> dynamic_ip s" "xmit s = []" "\<And>n. alloc_ok e n"
  defines "t \<equiv> wp_sppp_open e s"
  shows "hs_at (lcp_confid (lcp t), magic t, ucast (pp_seq t 0 + 1)) p 0 t"
proof -
  have t: "t = (sppp_lcp_open e (wp_sppp_close s))\<lparr>pp_link_state := SPPP_LINK_DOWN\<rparr>"
    using assms(1) by (simp add: t_def wp_sppp_open_def wp_sppp_close_def auth_clear_timeout_def Let_def)
  have s: "xmit (wp_sppp_close s) = []" "dynamic_ip (wp_sppp_close s) = dynamic_ip s"
      "PP_TIMO AND g = 0 \<Longrightarrow> pp_has g (wp_sppp_close s) = pp_has g s"
      "lcp_st (wp_sppp_close s) = CP_CLOSED" "ipcp_st (wp_sppp_close s) = CP_CLOSED" for g
    using assms(4) by (simp_all add: wp_sppp_close_def auth_clear_timeout_def)
  have o: "PP_TIMO AND g = 0 \<Longrightarrow> pp_has g (sppp_lcp_open e (wp_sppp_close s)) = pp_has g s"
      "dynamic_ip (sppp_lcp_open e (wp_sppp_close s)) = dynamic_ip s" for g
    using s(2,3) by (simp_all add: sppp_lcp_open_def Let_def)
  show ?thesis
    using assms(1-3) o s xmit_open(1) [OF assms(5), of "wp_sppp_close s"]
    by (cases p) (simp add: t)
qed

section \<open>The line\<close>

text \<open>
  The two sides and, for each, how many frames of the other it has received; the frames on
  the way are those the other has sent beyond that.
\<close>

record hs_net =
  side_a :: sppp
  side_b :: sppp
  got_a :: nat
  got_b :: nat

inductive hs_deliver :: "hs_net \<Rightarrow> hs_net \<Rightarrow> bool" where
  to_a: "got_a w < length (xmit (side_b w)) \<Longrightarrow> (\<And>n. alloc_ok e n) \<Longrightarrow>
    hs_deliver w (w\<lparr>side_a := wp_sppp_input e (skb_of (xmit (side_b w) ! got_a w)) (side_a w),
                    got_a := Suc (got_a w)\<rparr>)"
| to_b: "got_b w < length (xmit (side_a w)) \<Longrightarrow> (\<And>n. alloc_ok e n) \<Longrightarrow>
    hs_deliver w (w\<lparr>side_b := wp_sppp_input e (skb_of (xmit (side_a w) ! got_b w)) (side_b w),
                    got_b := Suc (got_b w)\<rparr>)"

inductive hs_run :: "hs_net \<Rightarrow> nat \<Rightarrow> hs_net \<Rightarrow> bool" for w0 where
  start: "hs_run w0 0 w0"
| deliver: "hs_run w0 n w \<Longrightarrow> hs_deliver w w' \<Longrightarrow> hs_run w0 (Suc n) w'"

definition hs_inv :: "side \<Rightarrow> side \<Rightarrow> nat \<Rightarrow> hs_net \<Rightarrow> bool" where
  "hs_inv a b n w \<longleftrightarrow> n = got_a w + got_b w \<and> got_a w \<le> 4 \<and> got_b w \<le> 4 \<and>
     hs_at a b (got_a w) (side_a w) \<and> hs_at b a (got_b w) (side_b w)"

lemma hs_xmit: "hs_at a b n s \<Longrightarrow> xmit s = take (n + 1) (hs_frames a b)"
  by (cases a) simp

lemma length_hs_frames [simp]: "length (hs_frames a b) = 4"
  by (cases a; cases b) simp

lemma hs_step':
  assumes "hs_at a b n s" "n < 4" "fst (snd a) \<noteq> fst (snd b)" "\<And>n. alloc_ok e n"
  shows "hs_at a b (Suc n) (wp_sppp_input e (skb_of (hs_frames b a ! n)) s)"
  using assms hs_step [of "fst a" "fst (snd a)" "snd (snd a)" "fst b" "fst (snd b)" "snd (snd b)" n s e] by simp

lemma hs_inv_deliver:
  assumes "hs_deliver w w'" "hs_inv a b n w" "fst (snd a) \<noteq> fst (snd b)"
  shows "hs_inv a b (Suc n) w'"
  using assms(1)
proof (cases rule: hs_deliver.cases)
  case (to_a e)
  have lt: "got_a w < 4" and eq: "xmit (side_b w) ! got_a w = hs_frames b a ! got_a w"
    using to_a(2) assms(2) hs_xmit [of b a "got_b w" "side_b w"] by (auto simp: hs_inv_def)
  show ?thesis
    using assms(2) to_a hs_step' [OF _ lt assms(3) to_a(3), of "side_a w"] lt by (simp add: hs_inv_def eq)
next
  case (to_b e)
  have lt: "got_b w < 4" and eq: "xmit (side_a w) ! got_b w = hs_frames a b ! got_b w"
    using to_b(2) assms(2) hs_xmit [of a b "got_a w" "side_a w"] by (auto simp: hs_inv_def)
  show ?thesis
    using assms(2) to_b hs_step' [OF _ lt assms(3) [symmetric] to_b(3), of "side_b w"] lt by (simp add: hs_inv_def eq)
qed

definition both_open :: "hs_net \<Rightarrow> bool" where
  "both_open w \<longleftrightarrow> (\<forall>s \<in> {side_a w, side_b w}. lcp_st s = CP_OPENED \<and> ipcp_st s = CP_OPENED)"

lemma hs_progress:
  assumes "hs_inv a b n w"
  shows "n \<le> 8 \<and> (if n = 8 then both_open w else \<exists>w'. hs_deliver w w')"
proof -
  have n: "n = got_a w + got_b w" "got_a w \<le> 4" "got_b w \<le> 4"
    and at: "hs_at a b (got_a w) (side_a w)" "hs_at b a (got_b w) (side_b w)"
    using assms by (simp_all add: hs_inv_def)
  show ?thesis
  proof (cases "n = 8")
    case True
    then have "got_a w = 4" "got_b w = 4" using n by simp_all
    then show ?thesis
      using at True by (cases a; cases b) (simp add: both_open_def)
  next
    case False
    then have "got_a w < length (xmit (side_b w)) \<or> got_b w < length (xmit (side_a w))"
      using n hs_xmit [OF at(1)] hs_xmit [OF at(2)] by auto
    then have "\<exists>w'. hs_deliver w w'"
      using hs_deliver.intros [of _ ex_env] ex_simps(1) by blast
    with False n show ?thesis by simp
  qed
qed


lemma hs_run_inv:
  "hs_run w0 n w \<Longrightarrow> hs_inv a b 0 w0 \<Longrightarrow> fst (snd a) \<noteq> fst (snd b) \<Longrightarrow> hs_inv a b n w"
  by (induction rule: hs_run.induct) (auto intro: hs_inv_deliver)

lemma hs_run_exists:
  assumes "hs_inv a b 0 w0" "fst (snd a) \<noteq> fst (snd b)"
  shows "n \<le> 8 \<Longrightarrow> \<exists>w. hs_run w0 n w"
proof (induction n)
  case 0
  show ?case using hs_run.start by blast
next
  case (Suc n)
  then obtain w where w: "hs_run w0 n w" by auto
  then have "hs_inv a b n w" using assms by (rule hs_run_inv)
  then obtain w' where "hs_deliver w w'" using hs_progress [of a b n w] Suc.prems by auto
  then show ?case using hs_run.deliver [OF w] by blast
qed

text \<open>
  C2. Two interfaces in PPP mode with configured addresses and no authentication, whose magic
  numbers differ after they are opened, are joined by a line that keeps the order of each
  direction. Whatever the order in which the frames are delivered, some frame can be
  delivered until eight are, and then LCP and IPCP are open on both sides.
\<close>

theorem negotiation_succeeds:
  assumes "\<forall>s \<in> {sa, sb}. \<not> pp_has PP_CISCO s \<and> \<not> pp_has PP_NEEDAUTH s \<and> \<not> dynamic_ip s \<and> xmit s = []"
    and "\<forall>e \<in> {ea, eb}. \<forall>n. alloc_ok e n"
    and "magic (wp_sppp_open ea sa) \<noteq> magic (wp_sppp_open eb sb)"
  defines "w0 \<equiv> \<lparr>side_a = wp_sppp_open ea sa, side_b = wp_sppp_open eb sb, got_a = 0, got_b = 0\<rparr>"
  shows "(\<forall>n w. hs_run w0 n w \<longrightarrow> n \<le> 8 \<and> (if n = 8 then both_open w else \<exists>w'. hs_deliver w w')) \<and>
    (\<exists>w. hs_run w0 8 w)"
proof -
  let ?side = "\<lambda>t. (lcp_confid (lcp t), magic t, ucast (pp_seq t 0 + 1))"
  let ?a = "?side (wp_sppp_open ea sa)" and ?b = "?side (wp_sppp_open eb sb)"
  have inv: "hs_inv ?a ?b 0 w0"
    using assms(1,2) hs_open [of sa ea] hs_open [of sb eb] by (simp add: hs_inv_def w0_def del: hs_at.simps)
  have ne: "fst (snd ?a) \<noteq> fst (snd ?b)" using assms(3) by simp
  show ?thesis
    using hs_run_inv [OF _ inv ne] hs_progress hs_run_exists [OF inv ne, of 8] by blast
qed

theorem negotiation_succeeds_witness:
  "let sb = set_magic 0xBEEF ex_if;
       w0 = \<lparr>side_a = wp_sppp_open ex_env ex_if, side_b = wp_sppp_open ex_env sb, got_a = 0, got_b = 0\<rparr>
   in (\<forall>n w. hs_run w0 n w \<longrightarrow> n \<le> 8 \<and> (if n = 8 then both_open w else \<exists>w'. hs_deliver w w')) \<and>
    (\<exists>w. hs_run w0 8 w)"
proof -
  have magics: "magic (wp_sppp_open ex_env ex_if) = 0xCAFE" "magic (wp_sppp_open ex_env (set_magic 0xBEEF ex_if)) = 0xBEEF"
    by (simp_all add: wp_sppp_open_def wp_sppp_close_def auth_clear_timeout_def Let_def)
  show ?thesis unfolding Let_def
    by (rule negotiation_succeeds) (simp_all add: magics)
qed

end
