(* ===== verification/Sppp_Options.thy ===== *)
theory Sppp_Options
  imports Sppp_Negotiation
begin

unbundle bit_operations_syntax

text \<open>
  The options of an LCP Configure-Request: what \<open>sppp_lcp_conf_parse_options\<close> does with a
  list of well-formed options, and with an option whose length octet lies.
\<close>

section \<open>Well-formed options\<close>

type_synonym lcp_opt_pair = "u8 \<times> u8 list"

definition opt_octets :: "lcp_opt_pair \<Rightarrow> u8 list" where
  "opt_octets o1 = [fst o1, of_nat (length (snd o1) + 2)] @ snd o1"

definition opts_octets :: "lcp_opt_pair list \<Rightarrow> u8 list" where
  "opts_octets os = concat (map opt_octets os)"

definition opt_fine :: "lcp_opt_pair \<Rightarrow> bool" where
  "opt_fine o1 \<longleftrightarrow> (fst o1 = OPT_MAGIC \<and> length (snd o1) = 4) \<or>
     (fst o1 = OPT_ASYNC_MAP \<and> snd o1 = [0, 0, 0, 0]) \<or> fst o1 = OPT_MRU"

text \<open>The magic number of the last magic option, where there is one.\<close>

fun opts_magic :: "u32 \<Rightarrow> lcp_opt_pair list \<Rightarrow> u32" where
  "opts_magic mg [] = mg"
| "opts_magic mg ((ty, body) # os) =
     opts_magic (if ty = OPT_MAGIC \<and> length body = 4 then ntohl_at (skb_of body) 0 else mg) os"

lemma opts_octets_simps [simp]:
  "opts_octets [] = []" "opts_octets (o1 # os) = opt_octets o1 @ opts_octets os"
  "opts_octets (os @ ps) = opts_octets os @ opts_octets ps"
  by (simp_all add: opts_octets_def)

lemma length_opt_octets [simp]: "length (opt_octets o1) = length (snd o1) + 2"
  by (simp add: opt_octets_def)

lemma unat_len8: "n < 256 \<Longrightarrow> unat (of_nat n :: u8) = n"
  by (simp add: unat_of_nat)

lemma opt_length_octet:
  assumes "length body \<le> 253"
  shows "unat (of_nat (length body + 2) :: u8) = length body + 2" "(of_nat (length body + 2) :: u8) \<noteq> 0"
    "(of_nat (length body + 2) :: u8) = 6 \<longleftrightarrow> length body = 4"
proof -
  show un: "unat (of_nat (length body + 2) :: u8) = length body + 2"
    using assms by (intro unat_len8) simp
  show "(of_nat (length body + 2) :: u8) \<noteq> 0"
    using un by (metis add_is_0 unat_0 zero_neq_numeral)
  show "(of_nat (length body + 2) :: u8) = 6 \<longleftrightarrow> length body = 4"
    unfolding word_unat_eq_iff un by simp
qed

lemma opt_at:
  assumes "drop p xs = opt_octets (ty, body) @ ys" "length body \<le> 253"
  shows "skb_at (skb_of xs) p = ty" "unat (skb_at (skb_of xs) (p + 1)) = length body + 2"
    "skb_at (skb_of xs) (p + 1) \<noteq> 0" "skb_at (skb_of xs) (p + 1) = 6 \<longleftrightarrow> length body = 4"
    "i < length body \<Longrightarrow> skb_at (skb_of xs) (p + 2 + i) = body ! i"
    "octets (skb_of xs) p (length body + 2) = opt_octets (ty, body)"
    "p + (length body + 2) \<le> length xs" "drop (p + (length body + 2)) xs = ys"
proof -
  have l: "length xs - p = length body + 2 + length ys"
    using arg_cong [OF assms(1), of length] by simp
  then have p: "p \<le> length xs" "length xs = p + (length body + 2 + length ys)" by simp_all
  have at: "skb_at (skb_of xs) (p + i) = (opt_octets (ty, body) @ ys) ! i" if "i < length body + 2" for i
    using that p assms(1) by (metis add_less_cancel_left nth_drop skb_at_of trans_less_add1)
  show "skb_at (skb_of xs) p = ty" using at [of 0] by (simp add: opt_octets_def)
  have n: "skb_at (skb_of xs) (p + 1) = of_nat (length body + 2)" using at [of 1] by (simp add: opt_octets_def)
  show "unat (skb_at (skb_of xs) (p + 1)) = length body + 2" "skb_at (skb_of xs) (p + 1) \<noteq> 0"
      "skb_at (skb_of xs) (p + 1) = 6 \<longleftrightarrow> length body = 4"
    unfolding n by (rule opt_length_octet [OF assms(2)])+
  show "i < length body \<Longrightarrow> skb_at (skb_of xs) (p + 2 + i) = body ! i"
    using at [of "2 + i"] by (simp add: opt_octets_def nth_append add.assoc)
  show "octets (skb_of xs) p (length body + 2) = opt_octets (ty, body)"
    using p by (simp add: octets_skb_of assms(1))
  show "p + (length body + 2) \<le> length xs" using p by simp
  show "drop (p + (length body + 2)) xs = ys"
    using arg_cong [OF assms(1), of "drop (length body + 2)"] by (simp add: add.commute)
qed


lemma opt_verdict:
  assumes "drop p xs = opt_octets (ty, body) @ ys" "length body \<le> 253" "auth_proto (myauth s) = 0"
    and "len = int (length (opt_octets (ty, body) @ ys))"
  shows "lcp_opt (skb_of xs) p len s =
    (if ty = OPT_MAGIC \<and> length body = 4 then Opt_magic (ntohl_at (skb_of body) 0)
     else if opt_fine (ty, body) then Opt_ok else Opt_reject, s)"
proof -
  note at = opt_at [OF assms(1,2)]
  have at2: "skb_at (skb_of xs) (p + 2) = body ! 0" "skb_at (skb_of xs) (p + 3) = body ! 1"
      "skb_at (skb_of xs) (p + 4) = body ! 2" "skb_at (skb_of xs) (p + 5) = body ! 3" if "length body = 4"
    using at(5) [of 0] at(5) [of 1] at(5) [of 2] at(5) [of 3] that by (simp_all add: numeral_eq_Suc)
  have long: "length body = 4 \<Longrightarrow> len \<ge> 6" by (simp add: assms(4))
  have magic: "ntohl_at (skb_of xs) (p + 2) = ntohl_at (skb_of body) 0" if "length body = 4"
    using at2 [OF that] that by (simp add: ntohl_at_def numeral_eq_Suc)
  have zeros: "body = [0, 0, 0, 0] \<longleftrightarrow> length body = 4 \<and> body ! 0 = 0 \<and> body ! 1 = 0 \<and> body ! 2 = 0 \<and> body ! 3 = 0"
    by (auto simp: list_eq_iff_nth_eq less_Suc_eq numeral_eq_Suc)
  consider "ty = OPT_MAGIC" | "ty = OPT_ASYNC_MAP" | "ty = OPT_MRU" | "ty = OPT_AUTH_PROTO"
    | "ty \<notin> {OPT_MAGIC, OPT_ASYNC_MAP, OPT_MRU, OPT_AUTH_PROTO}" by blast
  then show ?thesis
  proof cases
    case 1
    then show ?thesis using long magic by (auto simp: lcp_opt_def Let_def at(1) at(4) [simplified] opt_fine_def)
  next
    case 2
    then show ?thesis using long at2 by (auto simp: lcp_opt_def Let_def at(1) at(4) [simplified] opt_fine_def zeros)
  next
    case 3
    then show ?thesis by (simp add: lcp_opt_def Let_def at(1) opt_fine_def)
  next
    case 4
    then show ?thesis using assms(3) by (simp add: lcp_opt_def lcp_opt_auth_def Let_def at(1) opt_fine_def)
  next
    case 5
    then show ?thesis by (simp add: lcp_opt_def Let_def at(1) opt_fine_def)
  qed
qed

lemma parse_loop_end: "len \<le> 1 \<Longrightarrow> parse_loop k cap p len mg rej s = (None, mg, rej, s)"
  by (simp add: parse_loop.simps [of k cap p len])

lemma parse_loop_options:
  assumes "drop p xs = opts_octets os" "\<forall>o1 \<in> set os. length (snd o1) \<le> 253" "auth_proto (myauth s) = 0"
    and "length rej + length (opts_octets os) \<le> cap"
  shows "parse_loop (skb_of xs) cap p (int (length (opts_octets os))) mg rej s =
    (None, opts_magic mg os, rej @ opts_octets (filter (\<lambda>o1. \<not> opt_fine o1) os), s)"
  using assms
proof (induction os arbitrary: p mg rej)
  case Nil
  show ?case by (simp add: parse_loop.simps [of "skb_of xs" cap p])
next
  case (Cons o1 os)
  obtain ty body where o1: "o1 = (ty, body)" by (cases o1)
  have d: "drop p xs = opt_octets (ty, body) @ opts_octets os" and b: "length body \<le> 253"
    using Cons.prems(1,2) by (simp_all add: o1)
  note at = opt_at [OF d b]
  let ?n = "length body + 2"
  have verdict: "lcp_opt (skb_of xs) p (int (length (opts_octets (o1 # os)))) s =
    (if ty = OPT_MAGIC \<and> length body = 4 then Opt_magic (ntohl_at (skb_of body) 0)
     else if opt_fine (ty, body) then Opt_ok else Opt_reject, s)"
    by (rule opt_verdict [OF d b Cons.prems(3)]) (simp add: o1)
  have ih: "parse_loop (skb_of xs) cap (p + ?n) (int (length (opts_octets os))) mg' rej' s =
      (None, opts_magic mg' os, rej' @ opts_octets (filter (\<lambda>o1. \<not> opt_fine o1) os), s)"
    if "length rej' + length (opts_octets os) \<le> cap" for mg' rej'
    using Cons.IH [OF at(8) _ Cons.prems(3) that] Cons.prems(2) by simp
  have left: "int (length (opts_octets (o1 # os))) - int ?n = int (length (opts_octets os))" by (simp add: o1)
  have cond: "1 < int (length (opts_octets (o1 # os))) \<and> skb_at (skb_of xs) (p + 1) \<noteq> 0"
    using at(3) by (simp add: o1)
  have rd: "reads (skb_of xs) p ?n s = s" "s\<lparr>over_write := over_write s\<rparr> = s"
    using at(7) by (simp_all add: reads_def)
  have cap: "\<not> cap < length (rej @ opt_octets (ty, body))" using Cons.prems(4) by (simp add: o1)
  note eq = parse_loop.simps [of "skb_of xs" cap p "int (length (opts_octets (o1 # os)))" mg rej s,
      unfolded if_P [OF cond] at(2) verdict Let_def left at(6) rd(1)]
  consider "ty = OPT_MAGIC" "length body = 4" | "\<not> (ty = OPT_MAGIC \<and> length body = 4)" "opt_fine (ty, body)"
    | "\<not> (ty = OPT_MAGIC \<and> length body = 4)" "\<not> opt_fine (ty, body)" by blast
  then show ?case
  proof cases
    case 1
    then have "opt_fine o1" by (simp add: opt_fine_def o1)
    with 1 ih [of rej] Cons.prems(4) show ?thesis unfolding eq by (simp add: o1)
  next
    case 2
    with ih [of rej] Cons.prems(4) show ?thesis unfolding eq by (auto simp add: o1)
  next
    case 3
    with ih [of "rej @ opt_octets (ty, body)"] Cons.prems(4) cap show ?thesis
      unfolding eq by (auto simp add: o1 rd(2) rd(1) [simplified])
  qed
qed


section \<open>What is sent\<close>

text \<open>
  C16. An interface that is not configured for authentication gets a Configure-Request whose
  options are all well formed. The options it knows and finds fine are accepted; all the
  others, and only they, go back in one Configure-Reject, octet for octet and in their
  order; the magic number is that of the last magic option; no octet outside the packet
  is read, none outside the buffer written.
\<close>

theorem lcp_options_sorted:
  assumes "auth_proto (myauth s) = 0" "\<forall>o1 \<in> set os. length (snd o1) \<le> 253" "alloc_ok e (allocs s)"
  shows "sppp_lcp_conf_parse_options e (skb_of (cp_packet CONF_REQ ident len (opts_octets os)))
      (4 + int (length (opts_octets os))) 0 s =
    (let rejected = filter (\<lambda>o1. \<not> opt_fine o1) os; s' = s\<lparr>allocs := allocs s + 1\<rparr>
     in if rejected = [] then (1, opts_magic 0 os, s')
        else (0, opts_magic 0 os, cp_send_buf e PPP_LCP CONF_REJ ident (opts_octets rejected) s'))"
proof -
  have empty: "opts_octets ps = [] \<longleftrightarrow> ps = []" for ps
    by (cases ps) (simp_all add: opt_octets_def)
  show ?thesis
    using assms parse_loop_options [of 4 "cp_packet CONF_REQ ident len (opts_octets os)" os "s\<lparr>allocs := allocs s + 1\<rparr>" "[]"
      "length (opts_octets os)" 0]
    by (simp add: sppp_lcp_conf_parse_options_def Let_def empty)
qed

theorem lcp_options_sorted_witness:
  "let s = ex_if\<lparr>myauth := ex_auth\<lparr>auth_proto := 0\<rparr>\<rparr>;
       os = [(OPT_MAGIC, [1, 2, 3, 4]), (7, []), (OPT_MRU, [5, 220]), (OPT_ASYNC_MAP, [0, 0, 0, 1])]
   in sppp_lcp_conf_parse_options ex_env (skb_of (cp_packet CONF_REQ 9 18 (opts_octets os)))
      (4 + int (length (opts_octets os))) 0 s =
    (let rejected = filter (\<lambda>o1. \<not> opt_fine o1) os; s' = s\<lparr>allocs := allocs s + 1\<rparr>
     in if rejected = [] then (1, opts_magic 0 os, s')
        else (0, opts_magic 0 os, cp_send_buf ex_env PPP_LCP CONF_REJ 9 (opts_octets rejected) s'))"
  unfolding Let_def by (rule lcp_options_sorted [unfolded Let_def]) simp_all

text \<open>
  C34. The buffer for rejected options has the size of the options in the packet. An option of
  an unknown type whose length octet says more than the packet holds is copied whole: the
  copy reads behind the packet and writes behind the buffer, and a Configure-Reject
  carries what was read to the peer.
\<close>

theorem lcp_option_overrun:
  assumes "alloc_ok e (allocs s)" "ty \<notin> {OPT_MAGIC, OPT_ASYNC_MAP, OPT_MRU, OPT_AUTH_PROTO}"
    and "length body + 2 < unat n"
    and k_def: "k = skb_of (cp_packet CONF_REQ ident len ([ty, n] @ body))"
  shows "\<exists>s'. sppp_lcp_conf_parse_options e k (6 + int (length body)) 0 s =
      (0, 0, cp_send_buf e PPP_LCP CONF_REJ ident (octets k 4 (unat n)) s') \<and>
     over_write s' \<and> over_read s'"
proof -
  have at: "skb_at k 4 = ty" "skb_at k 5 = n" by (simp_all add: k_def cp_packet_nth)
  have n: "n \<noteq> 0" using assms(3) by auto
  have opt: "lcp_opt k 4 (2 + int (length body)) t = (Opt_reject, t)" for t
    using assms(2) by (simp add: lcp_opt_def Let_def at)
  have one: "skb_at k 1 = ident" by (simp add: k_def)
  define s1 where "s1 = s\<lparr>allocs := allocs s + 1\<rparr>"
  define s2 where "s2 = (reads k 4 (unat n) s1)\<lparr>over_write := over_write s1 \<or> unat n > length body + 2\<rparr>"
  have "2 + int (length body) - int (unat n) \<le> 1" using assms(3) by linarith
  then have neg: "2 + int (length body) - uint n \<le> 1" by simp
  have loop: "parse_loop k (length body + 2) 4 (2 + int (length body)) 0 [] s1 = (None, 0, octets k 4 (unat n), s2)"
    using assms(3) n parse_loop_end [OF neg, of k]
    by (simp add: parse_loop.simps [of k _ 4] at opt s2_def Let_def)
  have "0 < unat n" using assms(3) by linarith
  then have "octets k 4 (unat n) \<noteq> []" by (simp add: octets_def)
  moreover have "over_write s2" "over_read s2"
    using \<open>0 < unat n\<close> assms(3) unfolding s2_def by (simp_all add: reads_def k_def)
  ultimately show ?thesis
    using assms(1) loop one
    by (intro exI [of _ s2]) (simp add: sppp_lcp_conf_parse_options_def Let_def nat_add_distrib s1_def)
qed

theorem lcp_option_overrun_witness:
  "\<exists>s'. sppp_lcp_conf_parse_options ex_env (skb_of (cp_packet CONF_REQ 9 2 ([17, 255] @ []))) (6 + int (length ([] :: u8 list))) 0 ex_if =
      (0, 0, cp_send_buf ex_env PPP_LCP CONF_REJ 9 (octets (skb_of (cp_packet CONF_REQ 9 2 ([17, 255] @ []))) 4 (unat (255 :: u8))) s') \<and>
     over_write s' \<and> over_read s'"
  by (rule lcp_option_overrun [OF _ _ _ refl]) simp_all

end
