(* ===== verification/Md5_Equiv.thy ===== *)
theory Md5_Equiv
  imports Md5
begin

unbundle bit_operations_syntax

text \<open>
  Two references for the MD5 routines. RFC 1321 gives the compression function as 64
  steps with tables of constants, shifts and word indices, and the digest as a function
  of the whole message, padded and cut into blocks. The code's unrolled steps, with
  their optimised auxiliary functions, are equal to the first, and its context that
  takes the message in pieces is equal to the second, for any cut of the message.
\<close>

section \<open>The compression function of the RFC\<close>

definition md5_T :: "u32 list" where
  "md5_T =
    [0xd76aa478, 0xe8c7b756, 0x242070db, 0xc1bdceee, 0xf57c0faf, 0x4787c62a, 0xa8304613, 0xfd469501,
     0x698098d8, 0x8b44f7af, 0xffff5bb1, 0x895cd7be, 0x6b901122, 0xfd987193, 0xa679438e, 0x49b40821,
     0xf61e2562, 0xc040b340, 0x265e5a51, 0xe9b6c7aa, 0xd62f105d, 0x02441453, 0xd8a1e681, 0xe7d3fbc8,
     0x21e1cde6, 0xc33707d6, 0xf4d50d87, 0x455a14ed, 0xa9e3e905, 0xfcefa3f8, 0x676f02d9, 0x8d2a4c8a,
     0xfffa3942, 0x8771f681, 0x6d9d6122, 0xfde5380c, 0xa4beea44, 0x4bdecfa9, 0xf6bb4b60, 0xbebfbc70,
     0x289b7ec6, 0xeaa127fa, 0xd4ef3085, 0x04881d05, 0xd9d4d039, 0xe6db99e5, 0x1fa27cf8, 0xc4ac5665,
     0xf4292244, 0x432aff97, 0xab9423a7, 0xfc93a039, 0x655b59c3, 0x8f0ccc92, 0xffeff47d, 0x85845dd1,
     0x6fa87e4f, 0xfe2ce6e0, 0xa3014314, 0x4e0811a1, 0xf7537e82, 0xbd3af235, 0x2ad7d2bb, 0xeb86d391]"

definition md5_shift :: "nat \<Rightarrow> nat" where
  "md5_shift i =
     [[7, 12, 17, 22], [5, 9, 14, 20], [4, 11, 16, 23], [6, 10, 15, 21]] ! (i div 16) ! (i mod 4)"

definition md5_index :: "nat \<Rightarrow> nat" where
  "md5_index i = [i, 5 * i + 1, 3 * i + 5, 7 * i] ! (i div 16) mod 16"

definition md5_aux :: "nat \<Rightarrow> u32 \<Rightarrow> u32 \<Rightarrow> u32 \<Rightarrow> u32" where
  "md5_aux i x y z =
     [(x AND y) OR (NOT x AND z), (x AND z) OR (y AND NOT z), x XOR y XOR z, y XOR (x OR NOT z)] ! (i div 16)"

definition md5_ref_step :: "(nat \<Rightarrow> u32) \<Rightarrow> nat \<Rightarrow> md5_regs \<Rightarrow> md5_regs" where
  "md5_ref_step m i r =
     (case r of (a, b, c, d) \<Rightarrow>
        (d, b + word_rotl (md5_shift i) (a + md5_aux i b c d + m (md5_index i) + md5_T ! i), b, c))"

definition md5_ref_transform :: "u32 list \<Rightarrow> u8 list \<Rightarrow> u32 list" where
  "md5_ref_transform buf os =
     (case fold (md5_ref_step (words_le os)) [0..<64] (buf ! 0, buf ! 1, buf ! 2, buf ! 3) of
        (a, b, c, d) \<Rightarrow> [buf ! 0 + a, buf ! 1 + b, buf ! 2 + c, buf ! 3 + d])"

text \<open>The optimised auxiliary functions and the rotation.\<close>

lemma F_eqs:
  "F1 x y z = (x AND y) OR (NOT x AND z)" "F2 x y z = (x AND z) OR (y AND NOT z)"
  by (rule bit_word_eqI, auto simp: F1_def F2_def bit_simps)+

lemma rot_eq:
  assumes "0 < s" "s < 32"
  shows "push_bit s (w :: u32) OR drop_bit (32 - s) w = word_rotl s w"
proof (rule bit_word_eqI)
  fix n assume n: "n < LENGTH(32)"
  define j where "j = 32 - s"
  have s: "s mod 32 = s" "32 - s = j" "0 < j" "j < 32" "s = 32 - j" using assms by (auto simp: j_def)
  have rot: "bit (word_rotl s w) n \<longleftrightarrow> bit w ((n + j) mod 32)"
    using n s(1,2) by (simp add: bit_word_rotl_iff)
  have out: "bit (push_bit s w OR drop_bit (32 - s) w) n \<longleftrightarrow> (s \<le> n \<and> bit w (n - s)) \<or> bit w (n + j)"
    using n s(2) by (simp add: bit_or_iff bit_push_bit_iff bit_drop_bit_eq add.commute)
  show "bit (push_bit s w OR drop_bit (32 - s) w) n = bit (word_rotl s w) n"
  proof (cases "s \<le> n")
    case True
    then have "(n + j) mod 32 = n - s" "\<not> bit w (n + j)"
      using n s bit_imp_le_length [of w "n + j"] by (auto simp: mod_if)
    with True show ?thesis by (simp only: rot out) simp
  next
    case False
    then have "(n + j) mod 32 = n + j" using s by simp
    with False show ?thesis by (simp only: rot out) simp
  qed
qed

lemma STEP_eq:
  "0 < s \<Longrightarrow> s < 32 \<Longrightarrow> wp_MD5STEP f w x y z v s = x + word_rotl s (w + f x y z + v)"
  by (simp add: wp_MD5STEP_def Let_def rot_eq add_ac)

lemma md5_aux_code:
  "i div 16 = 0 \<Longrightarrow> F1 x y z = md5_aux i x y z"
  "i div 16 = 1 \<Longrightarrow> F2 x y z = md5_aux i x y z"
  "i div 16 = 2 \<Longrightarrow> F3 x y z = md5_aux i x y z"
  "i div 16 = 3 \<Longrightarrow> F4 x y z = md5_aux i x y z"
  by (simp_all add: md5_aux_def F_eqs F3_def F4_def)

text \<open>Four steps of the reference are one \<open>md5_quad\<close>.\<close>

lemma quad_step:
  assumes "0 < s1" "s1 < 32" "0 < s2" "s2 < 32" "0 < s3" "s3 < 32" "0 < s4" "s4 < 32"
  assumes "md5_shift i = s1" "md5_shift j = s2" "md5_shift k = s3" "md5_shift l = s4"
  assumes "f = md5_aux i" "f = md5_aux j" "f = md5_aux k" "f = md5_aux l"
  assumes "v1 = m (md5_index i) + md5_T ! i" "v2 = m (md5_index j) + md5_T ! j"
    "v3 = m (md5_index k) + md5_T ! k" "v4 = m (md5_index l) + md5_T ! l"
  shows "md5_quad f (v1, s1) (v2, s2) (v3, s3) (v4, s4) r = fold (md5_ref_step m) [i, j, k, l] r"
proof (cases r)
  case (fields a b c d)
  have "f = md5_aux i" by fact
  then have f: "md5_aux i = f" "md5_aux j = f" "md5_aux k = f" "md5_aux l = f"
    using assms(14-16) by simp_all
  show ?thesis
    unfolding fields md5_quad_def fold_Cons fold_Nil o_apply id_apply md5_ref_step_def prod.case f
      assms(9-12) assms(17-20) Let_def fst_conv snd_conv
    by (simp only: STEP_eq assms(1-8) add.assoc)
qed

lemma quad_fun:
  "i div 16 = 0 \<Longrightarrow> F1 = md5_aux i" "i div 16 = 1 \<Longrightarrow> F2 = md5_aux i"
  "i div 16 = 2 \<Longrightarrow> F3 = md5_aux i" "i div 16 = 3 \<Longrightarrow> F4 = md5_aux i"
  by (intro ext, simp add: md5_aux_code)+

text \<open>Round 1.\<close>

lemma quad_0:
  "md5_quad F1 (m 0 + 0xd76aa478, 7) (m 1 + 0xe8c7b756, 12) (m 2 + 0x242070db, 17) (m 3 + 0xc1bdceee, 22) s =
     fold (md5_ref_step m) [0, 1, 2, 3] s"
  by (rule quad_step; simp add: quad_fun md5_shift_def md5_index_def md5_T_def)

lemma quad_4:
  "md5_quad F1 (m 4 + 0xf57c0faf, 7) (m 5 + 0x4787c62a, 12) (m 6 + 0xa8304613, 17) (m 7 + 0xfd469501, 22) s =
     fold (md5_ref_step m) [4, 5, 6, 7] s"
  by (rule quad_step; simp add: quad_fun md5_shift_def md5_index_def md5_T_def)

lemma quad_8:
  "md5_quad F1 (m 8 + 0x698098d8, 7) (m 9 + 0x8b44f7af, 12) (m 10 + 0xffff5bb1, 17) (m 11 + 0x895cd7be, 22) s =
     fold (md5_ref_step m) [8, 9, 10, 11] s"
  by (rule quad_step; simp add: quad_fun md5_shift_def md5_index_def md5_T_def)

lemma quad_12:
  "md5_quad F1 (m 12 + 0x6b901122, 7) (m 13 + 0xfd987193, 12) (m 14 + 0xa679438e, 17) (m 15 + 0x49b40821, 22) s =
     fold (md5_ref_step m) [12, 13, 14, 15] s"
  by (rule quad_step; simp add: quad_fun md5_shift_def md5_index_def md5_T_def)

lemma round1_steps: "md5_round1 m r = fold (md5_ref_step m) [0..<16] r"
  by (simp only: md5_round1_def quad_0 quad_4 quad_8 quad_12 
      fold_append [symmetric, THEN fun_cong, unfolded o_apply])
    (simp add: upt_rec [of 0] upt_rec [of "Suc 0"] numeral_2_eq_2 [symmetric] upt_rec_numeral)

text \<open>Round 2.\<close>

lemma quad_16:
  "md5_quad F2 (m 1 + 0xf61e2562, 5) (m 6 + 0xc040b340, 9) (m 11 + 0x265e5a51, 14) (m 0 + 0xe9b6c7aa, 20) s =
     fold (md5_ref_step m) [16, 17, 18, 19] s"
  by (rule quad_step; simp add: quad_fun md5_shift_def md5_index_def md5_T_def)

lemma quad_20:
  "md5_quad F2 (m 5 + 0xd62f105d, 5) (m 10 + 0x02441453, 9) (m 15 + 0xd8a1e681, 14) (m 4 + 0xe7d3fbc8, 20) s =
     fold (md5_ref_step m) [20, 21, 22, 23] s"
  by (rule quad_step; simp add: quad_fun md5_shift_def md5_index_def md5_T_def)

lemma quad_24:
  "md5_quad F2 (m 9 + 0x21e1cde6, 5) (m 14 + 0xc33707d6, 9) (m 3 + 0xf4d50d87, 14) (m 8 + 0x455a14ed, 20) s =
     fold (md5_ref_step m) [24, 25, 26, 27] s"
  by (rule quad_step; simp add: quad_fun md5_shift_def md5_index_def md5_T_def)

lemma quad_28:
  "md5_quad F2 (m 13 + 0xa9e3e905, 5) (m 2 + 0xfcefa3f8, 9) (m 7 + 0x676f02d9, 14) (m 12 + 0x8d2a4c8a, 20) s =
     fold (md5_ref_step m) [28, 29, 30, 31] s"
  by (rule quad_step; simp add: quad_fun md5_shift_def md5_index_def md5_T_def)

lemma round2_steps: "md5_round2 m r = fold (md5_ref_step m) [16..<32] r"
  by (simp only: md5_round2_def quad_16 quad_20 quad_24 quad_28 
      fold_append [symmetric, THEN fun_cong, unfolded o_apply])
    (simp add: upt_rec_numeral)

text \<open>Round 3.\<close>

lemma quad_32:
  "md5_quad F3 (m 5 + 0xfffa3942, 4) (m 8 + 0x8771f681, 11) (m 11 + 0x6d9d6122, 16) (m 14 + 0xfde5380c, 23) s =
     fold (md5_ref_step m) [32, 33, 34, 35] s"
  by (rule quad_step; simp add: quad_fun md5_shift_def md5_index_def md5_T_def)

lemma quad_36:
  "md5_quad F3 (m 1 + 0xa4beea44, 4) (m 4 + 0x4bdecfa9, 11) (m 7 + 0xf6bb4b60, 16) (m 10 + 0xbebfbc70, 23) s =
     fold (md5_ref_step m) [36, 37, 38, 39] s"
  by (rule quad_step; simp add: quad_fun md5_shift_def md5_index_def md5_T_def)

lemma quad_40:
  "md5_quad F3 (m 13 + 0x289b7ec6, 4) (m 0 + 0xeaa127fa, 11) (m 3 + 0xd4ef3085, 16) (m 6 + 0x04881d05, 23) s =
     fold (md5_ref_step m) [40, 41, 42, 43] s"
  by (rule quad_step; simp add: quad_fun md5_shift_def md5_index_def md5_T_def)

lemma quad_44:
  "md5_quad F3 (m 9 + 0xd9d4d039, 4) (m 12 + 0xe6db99e5, 11) (m 15 + 0x1fa27cf8, 16) (m 2 + 0xc4ac5665, 23) s =
     fold (md5_ref_step m) [44, 45, 46, 47] s"
  by (rule quad_step; simp add: quad_fun md5_shift_def md5_index_def md5_T_def)

lemma round3_steps: "md5_round3 m r = fold (md5_ref_step m) [32..<48] r"
  by (simp only: md5_round3_def quad_32 quad_36 quad_40 quad_44 
      fold_append [symmetric, THEN fun_cong, unfolded o_apply])
    (simp add: upt_rec_numeral)

text \<open>Round 4.\<close>

lemma quad_48:
  "md5_quad F4 (m 0 + 0xf4292244, 6) (m 7 + 0x432aff97, 10) (m 14 + 0xab9423a7, 15) (m 5 + 0xfc93a039, 21) s =
     fold (md5_ref_step m) [48, 49, 50, 51] s"
  by (rule quad_step; simp add: quad_fun md5_shift_def md5_index_def md5_T_def)

lemma quad_52:
  "md5_quad F4 (m 12 + 0x655b59c3, 6) (m 3 + 0x8f0ccc92, 10) (m 10 + 0xffeff47d, 15) (m 1 + 0x85845dd1, 21) s =
     fold (md5_ref_step m) [52, 53, 54, 55] s"
  by (rule quad_step; simp add: quad_fun md5_shift_def md5_index_def md5_T_def)

lemma quad_56:
  "md5_quad F4 (m 8 + 0x6fa87e4f, 6) (m 15 + 0xfe2ce6e0, 10) (m 6 + 0xa3014314, 15) (m 13 + 0x4e0811a1, 21) s =
     fold (md5_ref_step m) [56, 57, 58, 59] s"
  by (rule quad_step; simp add: quad_fun md5_shift_def md5_index_def md5_T_def)

lemma quad_60:
  "md5_quad F4 (m 4 + 0xf7537e82, 6) (m 11 + 0xbd3af235, 10) (m 2 + 0x2ad7d2bb, 15) (m 9 + 0xeb86d391, 21) s =
     fold (md5_ref_step m) [60, 61, 62, 63] s"
  by (rule quad_step; simp add: quad_fun md5_shift_def md5_index_def md5_T_def)

lemma round4_steps: "md5_round4 m r = fold (md5_ref_step m) [48..<64] r"
  by (simp only: md5_round4_def quad_48 quad_52 quad_56 quad_60 
      fold_append [symmetric, THEN fun_cong, unfolded o_apply])
    (simp add: upt_rec_numeral)

text \<open>The 64 steps.\<close>

lemma upt_append: "i \<le> j \<Longrightarrow> j \<le> k \<Longrightarrow> [i..<j] @ [j..<k] = [i..<k]"
  by (metis le_Suc_ex upt_add_eq_append)

lemma transform_eq_ref: "wp_MD5Transform = md5_ref_transform"
proof (intro ext)
  fix buf os
  have steps: "[0..<64] = [0..<16] @ [16..<32] @ [32..<48] @ [48..<64]"
    by (simp add: upt_append del: upt_rec_numeral)
  show "wp_MD5Transform buf os = md5_ref_transform buf os"
    unfolding wp_MD5Transform_def md5_ref_transform_def Let_def
      round1_steps round2_steps round3_steps round4_steps steps fold_append o_apply
    by (rule refl)
qed

section \<open>The digest of a whole message\<close>

text \<open>The compression of the whole blocks of a list of octets, and what they leave.\<close>

function md5_blocks :: "u32 list \<Rightarrow> u8 list \<Rightarrow> u32 list" where
  "md5_blocks buf os =
     (if length os \<ge> 64 then md5_blocks (md5_ref_transform buf (take 64 os)) (drop 64 os) else buf)"
  by auto
termination by (relation "measure (length \<circ> snd)") auto

declare md5_blocks.simps [simp del]

definition md5_pad :: "u8 list \<Rightarrow> u8 list" where
  "md5_pad os =
     (let bits = of_nat (8 * length os) :: u64
      in os @ 0x80 # replicate ((119 - length os mod 64) mod 64) 0 @
         le_word (ucast bits) @ le_word (ucast (drop_bit 32 bits)))"

definition md5_digest :: "u8 list \<Rightarrow> u8 list" where
  "md5_digest os =
     concat (map le_word (md5_blocks [0x67452301, 0xefcdab89, 0x98badcfe, 0x10325476] (md5_pad os)))"

lemma md5_blocks_short [simp]: "length os < 64 \<Longrightarrow> md5_blocks buf os = buf"
  by (simp add: md5_blocks.simps [of buf os])

lemma md5_blocks_append:
  "length xs mod 64 = 0 \<Longrightarrow> md5_blocks buf (xs @ ys) = md5_blocks (md5_blocks buf xs) ys"
proof (induction buf xs rule: md5_blocks.induct)
  case (1 buf xs)
  show ?case
  proof (cases "length xs \<ge> 64")
    case True
    then have "length (drop 64 xs) mod 64 = 0"
      using "1.prems" by (simp add: le_mod_geq)
    then have "md5_blocks (md5_ref_transform buf (take 64 xs)) (drop 64 xs @ ys) =
      md5_blocks (md5_blocks (md5_ref_transform buf (take 64 xs)) (drop 64 xs)) ys"
      using "1.IH" True by simp
    with True show ?thesis
      by (simp add: md5_blocks.simps [of buf "xs @ ys"] md5_blocks.simps [of buf xs])
  next
    case False
    then have "xs = []" using "1.prems" by simp
    then show ?thesis by simp
  qed
qed

lemma md5_blocks_one: "length xs = 64 \<Longrightarrow> md5_blocks buf xs = wp_MD5Transform buf xs"
  by (simp add: md5_blocks.simps [of buf xs] transform_eq_ref)

section \<open>The streaming context\<close>

text \<open>
  The context holds a message: the buffer is the compression of its whole blocks, the
  first octets of \<open>in\<close> are the rest of it, and the count is its length, modulo two to
  the power of 64.
\<close>

definition md5_holds :: "u8 list \<Rightarrow> md5_ctx \<Rightarrow> bool" where
  "md5_holds os c \<longleftrightarrow>
     (\<exists>full rest. os = full @ rest \<and> length full mod 64 = 0 \<and> length rest < 64 \<and>
        md5_buf c = md5_blocks [0x67452301, 0xefcdab89, 0x98badcfe, 0x10325476] full \<and>
        length (md5_in c) = 64 \<and> take (length rest) (md5_in c) = rest) \<and>
     md5_bytes c = (of_nat (length os), of_nat (length os div 4294967296))"

lemma length_mem_put [simp]: "i + length xs \<le> length os \<Longrightarrow> length (mem_put i xs os) = length os"
  by (simp add: mem_put_def)

lemma take_mem_put [simp]: "i \<le> length os \<Longrightarrow> take (i + length xs) (mem_put i xs os) = take i os @ xs"
  by (simp add: mem_put_def)

lemma mem_put_all: "i + length xs = length os \<Longrightarrow> mem_put i xs os = take i os @ xs"
  by (simp add: mem_put_def)

lemma md5_init_holds: "length (md5_in c) = 64 \<Longrightarrow> md5_holds [] (wp_MD5Init c)"
  by (simp add: md5_holds_def wp_MD5Init_def)

text \<open>The loop over whole blocks.\<close>

lemma md5_chunks_holds:
  assumes "length (md5_in c) = 64"
  shows "\<exists>full rest. os = full @ rest \<and> length full mod 64 = 0 \<and> length rest < 64 \<and>
      md5_buf (md5_chunks os c) = md5_blocks (md5_buf c) full \<and>
      length (md5_in (md5_chunks os c)) = 64 \<and> take (length rest) (md5_in (md5_chunks os c)) = rest \<and>
      md5_bytes (md5_chunks os c) = md5_bytes c"
  using assms
proof (induction os c rule: md5_chunks.induct)
  case (1 os c)
  show ?case
  proof (cases "length os \<ge> 64")
    case True
    let ?blk = "take 64 os"
    let ?c = "c\<lparr>md5_in := ?blk, md5_buf := wp_MD5Transform (md5_buf c) ?blk\<rparr>"
    have put: "mem_put 0 ?blk (md5_in c) = ?blk"
      using True "1.prems" by (simp add: mem_put_all)
    have eq: "md5_chunks os c = md5_chunks (drop 64 os) ?c"
      using True put by (simp add: md5_chunks.simps [of os c])
    obtain full rest where fr: "drop 64 os = full @ rest" "length full mod 64 = 0" "length rest < 64"
        "md5_buf (md5_chunks os c) = md5_blocks (wp_MD5Transform (md5_buf c) ?blk) full"
        "length (md5_in (md5_chunks os c)) = 64" "take (length rest) (md5_in (md5_chunks os c)) = rest"
        "md5_bytes (md5_chunks os c) = md5_bytes c"
      using "1.IH" [OF True] True unfolding eq put by auto
    have "md5_blocks (md5_buf c) (?blk @ full) = md5_blocks (wp_MD5Transform (md5_buf c) ?blk) full"
      using True by (simp add: md5_blocks_append md5_blocks_one)
    moreover have "os = (?blk @ full) @ rest"
      using fr(1) append_take_drop_id [of 64 os] by simp
    moreover have "length (?blk @ full) mod 64 = 0"
      using fr(2) True by simp
    ultimately show ?thesis using fr by metis
  next
    case False
    then have eq: "md5_chunks os c = c\<lparr>md5_in := mem_put 0 os (md5_in c)\<rparr>"
      by (simp add: md5_chunks.simps [of os c])
    have "take (length os) (mem_put 0 os (md5_in c)) = os"
      using take_mem_put [of 0 "md5_in c" os] by simp
    with False "1.prems" show ?thesis unfolding eq
      by (intro exI [of _ "[]"] exI [of _ os]) simp
  qed
qed

text \<open>The count of octets.\<close>

lemma carry_nat:
  fixes m k B :: nat
  assumes "m < B" "k < B"
  shows "(m + k) div B = of_bool (B \<le> m + k)" "(m + k) mod B = (if B \<le> m + k then m + k - B else m + k)"
proof -
  show "(m + k) div B = of_bool (B \<le> m + k)"
    using assms by (cases "B \<le> m + k") (auto simp: le_div_geq)
  show "(m + k) mod B = (if B \<le> m + k then m + k - B else m + k)"
    using assms by (cases "B \<le> m + k") (auto simp: le_mod_geq)
qed

lemma md5_count:
  fixes n k :: nat
  assumes k: "k < 4294967296"
  defines "lo \<equiv> of_nat n :: u32" and "len \<equiv> of_nat k :: u32"
  shows "(lo + len, if lo + len < lo then of_nat (n div 4294967296) + 1 else of_nat (n div 4294967296) :: u32) =
    (of_nat (n + k), of_nat ((n + k) div 4294967296))"
proof -
  define B where "B = (4294967296 :: nat)"
  define m where "m = n mod B"
  have B: "m < B" "k < B" using k by (simp_all add: m_def B_def)
  have un: "unat lo = m" "unat (lo + len) = (m + k) mod B"
    using k by (simp_all add: lo_def len_def unat_of_nat unat_word_ariths mod_simps m_def B_def)
  have lt: "lo + len < lo \<longleftrightarrow> B \<le> m + k"
    using B by (auto simp: word_less_nat_alt un carry_nat)
  have "(n + k) div B = n div B + of_bool (B \<le> m + k)"
    using B by (simp add: div_add1_eq [of n k B] carry_nat flip: m_def)
  then show ?thesis unfolding lt by (simp add: lo_def len_def B_def)
qed

lemma unat_low6: "unat ((of_nat n :: u32) AND 0x3f) = n mod 64"
proof -
  have "(0x3f :: u32) = mask 6" by (simp add: mask_eq_exp_minus_1)
  then have "(of_nat n :: u32) AND 0x3f = take_bit 6 (of_nat n)" by (simp add: take_bit_eq_mask)
  then show ?thesis
    by (simp add: take_bit_eq_mod unat_mod_distrib unat_of_nat mod_mod_cancel)
qed

lemma md5_space:
  fixes n :: nat
  defines "t \<equiv> 64 - ((of_nat n :: u32) AND 0x3f)"
  shows "unat t = 64 - n mod 64"
proof -
  have "(of_nat n :: u32) AND 0x3f \<le> 64"
    by (simp add: word_le_nat_alt unat_low6)
  then show ?thesis by (simp add: t_def unat_sub unat_low6)
qed

lemma md5_update_holds:
  assumes holds: "md5_holds msg c" and len: "length os < 4294967296"
  shows "md5_holds (msg @ os) (wp_MD5Update os c)"
proof -
  let ?iv = "[0x67452301, 0xefcdab89, 0x98badcfe, 0x10325476] :: u32 list"
  obtain full rest where m: "msg = full @ rest" "length full mod 64 = 0" "length rest < 64"
      "md5_buf c = md5_blocks ?iv full" "length (md5_in c) = 64" "take (length rest) (md5_in c) = rest"
    and bytes: "md5_bytes c = (of_nat (length msg), of_nat (length msg div 4294967296))"
    using holds by (auto simp: md5_holds_def)
  define r where "r = length rest"
  have r: "length msg mod 64 = r" "r < 64" using m by (simp_all add: r_def mod_add_left_eq [symmetric])
  let ?t = "64 - ((of_nat (length msg) :: u32) AND 0x3f)"
  have t: "unat ?t = 64 - r" "64 - unat ?t = r" using r by (simp_all add: md5_space)
  define c1 where "c1 = c\<lparr>md5_bytes := (of_nat (length (msg @ os)), of_nat (length (msg @ os) div 4294967296))\<rparr>"
  have c1: "md5_in c1 = md5_in c" "md5_buf c1 = md5_buf c"
      "md5_bytes c1 = (of_nat (length (msg @ os)), of_nat (length (msg @ os) div 4294967296))"
    by (simp_all add: c1_def)
  have test: "?t > of_nat (length os) \<longleftrightarrow> length os < 64 - r"
    using len by (simp add: word_less_nat_alt unat_of_nat t)
  have upd: "wp_MD5Update os c =
     (if length os < 64 - r then c1\<lparr>md5_in := mem_put r os (md5_in c)\<rparr>
      else let blk = mem_put r (take (64 - r) os) (md5_in c)
           in md5_chunks (drop (64 - r) os) (c1\<lparr>md5_in := blk, md5_buf := wp_MD5Transform (md5_buf c) blk\<rparr>))"
    unfolding wp_MD5Update_def bytes prod.case Let_def md5_count [OF len] test t(1)
    using r(2) by (simp add: c1_def)
  show ?thesis
  proof (cases "length os < 64 - r")
    case True
    have "take (r + length os) (mem_put r os (md5_in c)) = rest @ os"
      using take_mem_put [of r "md5_in c" os] m(5,6) r(2) by (simp add: r_def)
    moreover have "length (mem_put r os (md5_in c)) = 64"
      using True m(5) by simp
    ultimately show ?thesis
      unfolding md5_holds_def upd using True m(1-4) c1
      by (intro conjI exI [of _ full] exI [of _ "rest @ os"]) (simp_all add: r_def)
  next
    case False
    define blk where "blk = mem_put r (take (64 - r) os) (md5_in c)"
    have blk: "blk = rest @ take (64 - r) os" "length blk = 64"
      using False m(5,6) r(2) by (simp_all add: blk_def mem_put_all r_def)
    let ?c2 = "c1\<lparr>md5_in := blk, md5_buf := wp_MD5Transform (md5_buf c) blk\<rparr>"
    have eq: "wp_MD5Update os c = md5_chunks (drop (64 - r) os) ?c2"
      using False by (simp add: upd blk_def Let_def)
    obtain full2 rest2 where f2: "drop (64 - r) os = full2 @ rest2" "length full2 mod 64 = 0" "length rest2 < 64"
        "md5_buf (wp_MD5Update os c) = md5_blocks (wp_MD5Transform (md5_buf c) blk) full2"
        "length (md5_in (wp_MD5Update os c)) = 64" "take (length rest2) (md5_in (wp_MD5Update os c)) = rest2"
        "md5_bytes (wp_MD5Update os c) = md5_bytes c1"
      using md5_chunks_holds [of ?c2 "drop (64 - r) os"] blk(2) unfolding eq by auto
    have "msg @ os = (full @ blk @ full2) @ rest2"
      using f2(1) m(1) blk(1) append_take_drop_id [of "64 - r" os] by simp
    moreover have "length (full @ blk @ full2) mod 64 = 0"
      using f2(2) m(2) blk(2) by (simp add: mod_add_eq [symmetric, of "length full"])
    moreover have "md5_buf (wp_MD5Update os c) = md5_blocks ?iv (full @ blk @ full2)"
      using f2(4) m(2,4) blk(2) by (simp add: md5_blocks_append md5_blocks_one)
    ultimately show ?thesis unfolding md5_holds_def using f2 c1(3) by metis
  qed
qed

text \<open>The last blocks: the padding and the count of bits.\<close>

lemma md5_bits:
  defines "bits n \<equiv> of_nat (8 * n) :: u64"
  shows "push_bit 3 (of_nat n :: u32) = ucast (bits n)"
    "push_bit 3 (of_nat (n div 4294967296) :: u32) OR drop_bit 29 (of_nat n) = ucast (drop_bit 32 (bits n))"
proof -
  have p: "8 * n = push_bit 3 n" "n div 4294967296 = drop_bit 32 n"
    by (simp_all add: push_bit_eq_mult drop_bit_eq_div)
  show "push_bit 3 (of_nat n :: u32) = ucast (bits n)"
    unfolding bits_def p by (rule bit_word_eqI) (auto simp: bit_simps)
  show "push_bit 3 (of_nat (n div 4294967296) :: u32) OR drop_bit 29 (of_nat n) = ucast (drop_bit 32 (bits n))"
    unfolding bits_def p by (rule bit_word_eqI) (auto simp: bit_simps)
qed

lemma length_le_word [simp]: "length (le_word w) = 4"
  by (simp add: le_word_def)

lemma md5_final_digest:
  assumes holds: "md5_holds msg c"
  shows "wp_MD5Final c = md5_digest msg"
proof -
  let ?iv = "[0x67452301, 0xefcdab89, 0x98badcfe, 0x10325476] :: u32 list"
  obtain full rest where m: "msg = full @ rest" "length full mod 64 = 0" "length rest < 64"
      "md5_buf c = md5_blocks ?iv full" "length (md5_in c) = 64" "take (length rest) (md5_in c) = rest"
    and bytes: "md5_bytes c = (of_nat (length msg), of_nat (length msg div 4294967296))"
    using holds by (auto simp: md5_holds_def)
  define r where "r = length rest"
  have r: "length msg mod 64 = r" "r < 64" using m by (simp_all add: r_def mod_add_left_eq [symmetric])
  define w1 where "w1 = le_word (push_bit 3 (of_nat (length msg) :: u32))"
  define w2 where "w2 = le_word (push_bit 3 (of_nat (length msg div 4294967296)) OR drop_bit 29 (of_nat (length msg) :: u32))"
  have w: "length w1 = 4" "length w2 = 4" by (simp_all add: w1_def w2_def)
  have pad: "md5_pad msg = full @ (rest @ 0x80 # replicate ((119 - r) mod 64) 0 @ w1 @ w2)"
    unfolding md5_pad_def Let_def r(1) w1_def w2_def md5_bits [symmetric] by (simp add: m(1))
  have tail: "mem_put 60 w2 (mem_put 56 w1 (xs @ ys)) = xs @ w1 @ w2"
    if "length xs = 56" "length ys = 8" for xs ys :: "u8 list"
    using that w by (simp add: mem_put_def)
  have in1: "mem_put r [0x80] (md5_in c) = rest @ 0x80 # drop (Suc r) (md5_in c)"
    using m(6) by (simp add: mem_put_def r_def)
  show ?thesis
  proof (cases "r \<le> 55")
    case True
    have z: "mem_put (Suc r) (replicate (55 - r) 0) (rest @ 0x80 # drop (Suc r) (md5_in c)) =
        (rest @ 0x80 # replicate (55 - r) 0) @ drop 56 (md5_in c)"
      using True by (simp add: mem_put_def r_def drop_Cons')
    have "wp_MD5Final c = concat (map le_word (wp_MD5Transform (md5_buf c) (rest @ 0x80 # replicate (55 - r) 0 @ w1 @ w2)))"
      unfolding wp_MD5Final_def bytes prod.case Let_def unat_low6 r(1)
      using True m(5) tail [of "rest @ 0x80 # replicate (55 - r) 0" "drop 56 (md5_in c)"]
      by (simp add: in1 z nat_diff_distrib' flip: w1_def w2_def r_def)
    moreover have "(119 - r) mod 64 = 55 - r" using True by (simp add: mod_if)
    ultimately show ?thesis
      using True m(2,4) w by (simp add: md5_digest_def pad md5_blocks_append md5_blocks_one r_def)
  next
    case False
    define blk where "blk = rest @ 0x80 # replicate (63 - r) 0"
    have blk: "length blk = 64" using False r(2) by (simp add: blk_def r_def)
    have z: "mem_put (Suc r) (replicate (63 - r) 0) (rest @ 0x80 # drop (Suc r) (md5_in c)) = blk"
      using False m(5) r(2) by (simp add: mem_put_def r_def blk_def)
    have in2: "mem_put 0 (replicate 56 0) blk = replicate 56 0 @ drop 56 blk"
      by (simp add: mem_put_def)
    have left: "nat (55 - int r + 8) = 63 - r" "55 - int r < 0" using False r(2) by simp_all
    have "wp_MD5Final c = concat (map le_word
        (wp_MD5Transform (wp_MD5Transform (md5_buf c) blk) (replicate 56 0 @ w1 @ w2)))"
      unfolding wp_MD5Final_def bytes prod.case Let_def unat_low6 r(1)
      using left blk tail [of "replicate 56 0" "drop 56 blk"]
      by (simp add: in1 z in2 flip: w1_def w2_def)
    moreover have "(119 - r) mod 64 = (63 - r) + 56" using False r(2) by (simp add: mod_if)
    then have "md5_pad msg = full @ blk @ (replicate 56 0 @ w1 @ w2)"
      by (simp only: pad blk_def replicate_add append_assoc append_Cons)
    ultimately show ?thesis
      using m(2,4) w blk by (simp add: md5_digest_def md5_blocks_append md5_blocks_one)
  qed
qed

lemma md5_updates_hold:
  "md5_holds msg c \<Longrightarrow> \<forall>os \<in> set oss. length os < 4294967296 \<Longrightarrow>
     md5_holds (msg @ concat oss) (fold wp_MD5Update oss c)"
proof (induction oss arbitrary: msg c)
  case (Cons os oss)
  then show ?case using md5_update_holds [of msg c os] by (metis append_assoc concat.simps(2) fold_simps(2) list.set_intros)
qed simp

lemma md5_stream:
  "length (md5_in c) = 64 \<Longrightarrow> \<forall>os \<in> set oss. length os < 4294967296 \<Longrightarrow>
     wp_MD5Final (fold wp_MD5Update oss (wp_MD5Init c)) = md5_digest (concat oss)"
  using md5_final_digest [OF md5_updates_hold [OF md5_init_holds]] by simp

lemma length_md5_blocks: "length buf = 4 \<Longrightarrow> length (md5_blocks buf os) = 4"
  by (induction buf os rule: md5_blocks.induct)
    (simp add: md5_blocks.simps md5_ref_transform_def split: prod.split)

lemma length_md5_digest [simp]: "length (md5_digest os) = 16"
proof -
  have le: "length (concat (map le_word ws)) = 4 * length ws" for ws by (induction ws) simp_all
  show ?thesis unfolding md5_digest_def le by (simp add: length_md5_blocks)
qed

text \<open>
  C12. For any words and any block of 64 octets, the unrolled steps of the code with its
  optimised auxiliary functions compute the compression function of RFC 1321 as its
  tables give it; and for any message cut in any way into pieces of less than 2 to the
  32 octets, a context that is initialised, updated with the pieces in turn and
  finalised gives the digest of the whole message.
\<close>

theorem md5_streaming:
  assumes "length (md5_in c) = 64" and "\<forall>os \<in> set oss. length os < 4294967296"
  shows "wp_MD5Final (fold wp_MD5Update oss (wp_MD5Init c)) = md5_digest (concat oss)"
  using assms by (rule md5_stream)

theorem md5_streaming_witness:
  "let c = md5_ctx.make [] (0, 0) (replicate 64 0);
       oss = [[97], replicate 200 98]
   in wp_MD5Final (fold wp_MD5Update oss (wp_MD5Init c)) = md5_digest (concat oss)"
  unfolding Let_def by (rule md5_streaming) (simp_all add: md5_ctx.make_def)

end
