(* ===== verification/Sppp_Auth_Props.thy ===== *)
theory Sppp_Auth_Props
  imports Sppp_Options Md5_Equiv
begin

unbundle bit_operations_syntax

text \<open>
  Authentication: the response to a CHAP challenge, what is sent once the peer has asked for
  authentication, and what an acknowledgement does that nobody asked for.
\<close>

lemma strnlen_le: "sppp_strnlen os n \<le> n" "sppp_strnlen os n \<le> length os"
  by (induction os n rule: sppp_strnlen.induct) auto

lemma length_auth_cstr: "length (auth_cstr os n) = sppp_strnlen os n"
  by (simp add: auth_cstr_def min_absorb2 strnlen_le(2))

lemma auth_cstr_nonempty: "x \<noteq> 0 \<Longrightarrow> 0 < n \<Longrightarrow> auth_cstr (x # xs) n \<noteq> []"
  by (cases n) (simp_all add: auth_cstr_def)

lemma gather_last:
  "length acc + length (concat ms) + length m \<le> 256 \<Longrightarrow> [] \<notin> set ms \<Longrightarrow>
     auth_gather (ms @ [m]) acc = Some (acc @ concat ms @ m)"
  by (induction ms arbitrary: acc) auto

lemma xmit_auth_send:
  assumes "\<And>n. alloc_ok e n" "auth_gather ms [] = Some os" "length os < 65536"
  shows "xmit (sppp_auth_send e proto ty ident ms s) = xmit s @ [cp_frame proto ty ident (of_nat (length os)) os]"
  using assms by (simp add: sppp_auth_send_def xmit_send_buf)

section \<open>The response to a challenge\<close>

text \<open>
  C15. A CHAP challenge is answered with the MD5 digest, as the RFC defines it, of the
  identifier, the secret and the value of the challenge, one behind the other, followed by
  the name of the interface; secret and name end at their first zero octet.
\<close>

theorem chap_response_digest:
  fixes ident :: u8 and s :: sppp
  assumes "length val < 256" "5 + length val + length name < 65536" "\<forall>n. alloc_ok e n"
  defines "k \<equiv> skb_of (cp_packet CHAP_CHALLENGE ident (of_nat (1 + length val + length name))
    ([of_nat (length val)] @ val @ name))"
    and "own \<equiv> auth_cstr (auth_name (myauth s)) AUTHNAMELEN"
  shows "xmit (sppp_chap_input e k s) = xmit s @
    [cp_frame PPP_CHAP CHAP_RESPONSE ident (of_nat (17 + length own))
      ([16] @ md5_digest ([ident] @ auth_cstr (auth_secret (myauth s)) AUTHKEYLEN @ val) @ own)]"
proof -
  have vl: "unat (of_nat (length val) :: u8) = length val" using assms(1) by (rule unat_len8)
  have at: "skb_at k 0 = CHAP_CHALLENGE" "skb_at k 1 = ident" "unat (skb_at k 4) = length val"
      "skb_len k = 5 + length val + length name"
    by (simp_all add: k_def cp_packet_nth vl)
  have hl: "unat (ntohs_at k 2) = 5 + length val + length name"
    using unat_len16 [OF assms(2)] by (simp add: k_def add.assoc)
  have oct: "octets k 5 (length val) = val"
    by (simp add: k_def octets_skb_of cp_packet_def be16_def)
  let ?sec = "auth_cstr (auth_secret (myauth s)) AUTHKEYLEN"
  let ?c = "md5_ctx.make [] (0, 0) (replicate 64 0)"
  have sec: "length ?sec \<le> 16" using strnlen_le(1) [of _ 16] by (simp add: length_auth_cstr)
  have md5: "wp_MD5Final (wp_MD5Update val (wp_MD5Update ?sec (wp_MD5Update [ident] (wp_MD5Init ?c)))) =
      md5_digest ([ident] @ ?sec @ val)"
    using md5_stream [of ?c "[[ident], ?sec, val]"] sec assms(1) by (simp add: md5_ctx.make_def)
  have own: "length own \<le> 64" using strnlen_le(1) [of _ 64] by (simp add: own_def length_auth_cstr)
  have gather: "auth_gather [[16], md5_digest ([ident] @ ?sec @ val), own] [] = 
      Some ([16] @ md5_digest ([ident] @ ?sec @ val) @ own)"
    using gather_last [of "[]" "[[16], md5_digest ([ident] @ ?sec @ val)]" own] own
    by (auto dest: arg_cong [where f = length])
  have "sppp_chap_input e k s = sppp_auth_send e PPP_CHAP CHAP_RESPONSE ident
      [[16], md5_digest ([ident] @ ?sec @ val), own] (reads k 5 (length val) (reads k 4 1 s))"
    using at(1-3) at(4)
    by (simp add: sppp_chap_input_def chap_challenge_def hl Let_def oct md5 own_def)
  then show ?thesis
    using xmit_auth_send [OF assms(3) [rule_format] gather] own by simp
qed


theorem chap_response_digest_witness:
  "let val = [10, 20, 30, 40]; name = [112];
       k = skb_of (cp_packet CHAP_CHALLENGE 7 (of_nat (1 + length val + length name)) ([of_nat (length val)] @ val @ name));
       own = auth_cstr (auth_name (myauth ex_if)) AUTHNAMELEN
   in xmit (sppp_chap_input ex_env k ex_if) = xmit ex_if @
    [cp_frame PPP_CHAP CHAP_RESPONSE 7 (of_nat (17 + length own))
      ([16] @ md5_digest ([7] @ auth_cstr (auth_secret (myauth ex_if)) AUTHKEYLEN @ val) @ own)]"
  unfolding Let_def by (rule chap_response_digest) simp_all

section \<open>The password on the line\<close>

definition pap_request :: "u8 \<Rightarrow> sauth \<Rightarrow> u8 list" where
  "pap_request ident a =
     (let name = auth_cstr (auth_name a) AUTHNAMELEN; secret = auth_cstr (auth_secret a) AUTHKEYLEN
      in cp_frame PPP_PAP PAP_REQ ident (of_nat (2 + length name + length secret))
           ([of_nat (length name)] @ name @ [of_nat (length secret)] @ secret))"

lemma pap_scr_sends:
  assumes "\<And>n. alloc_ok e n" "auth_cstr (auth_name (myauth s)) AUTHNAMELEN \<noteq> []"
  shows "xmit (sppp_pap_scr e s) = xmit s @ [pap_request (confid s IDX_PAP) (myauth s)]"
proof -
  let ?n = "auth_name (myauth s)" and ?s = "auth_secret (myauth s)"
  have len: "sppp_strnlen ?n 64 \<le> 64" "sppp_strnlen ?s 16 \<le> 16" by (rule strnlen_le)+
  have un: "unat (of_nat (sppp_strnlen ?n 64) :: u8) = sppp_strnlen ?n 64"
      "unat (of_nat (sppp_strnlen ?s 16) :: u8) = sppp_strnlen ?s 16"
    using len by (intro unat_len8; simp)+
  have eq: "take (sppp_strnlen ?n 64) ?n = auth_cstr ?n 64" "take (sppp_strnlen ?s 16) ?s = auth_cstr ?s 16"
    by (simp_all add: auth_cstr_def)
  have lens: "length (auth_cstr ?n 64) \<le> 64" "length (auth_cstr ?s 16) \<le> 16"
    using len by (simp_all add: length_auth_cstr)
  have "auth_gather ([[of_nat (sppp_strnlen ?n 64)], auth_cstr ?n 64, [of_nat (sppp_strnlen ?s 16)]] @ [auth_cstr ?s 16]) [] =
      Some ([] @ concat [[of_nat (sppp_strnlen ?n 64)], auth_cstr ?n 64, [of_nat (sppp_strnlen ?s 16)]] @ auth_cstr ?s 16)"
    using lens assms(2) by (intro gather_last) auto
  then have "auth_gather [[of_nat (sppp_strnlen ?n 64)], auth_cstr ?n 64, [of_nat (sppp_strnlen ?s 16)], auth_cstr ?s 16] [] =
      Some ([of_nat (length (auth_cstr ?n 64))] @ auth_cstr ?n 64 @ [of_nat (length (auth_cstr ?s 16))] @ auth_cstr ?s 16)"
    by (simp add: length_auth_cstr)
  from xmit_auth_send [OF assms(1) this] lens show ?thesis
    by (simp add: sppp_pap_scr_def Let_def un eq pap_request_def add_ac)
qed

text \<open>The option by which a peer asks for CHAP with MD5.\<close>

definition chap_option :: "u8 list" where
  "chap_option = [OPT_AUTH_PROTO, 5] @ be16 PPP_CHAP @ [CHAP_MD5]"

lemma parse_chap_option:
  assumes "alloc_ok e (allocs s)" "auth_proto (myauth s) = PPP_CHAP"
  shows "sppp_lcp_conf_parse_options e (skb_of (cp_packet CONF_REQ ident 5 chap_option)) 9 0 s =
    (1, 0, pp_raise PP_NEEDAUTH (s\<lparr>allocs := allocs s + 1\<rparr>))"
proof -
  let ?k = "skb_of (cp_packet CONF_REQ ident 5 chap_option)"
  have at: "skb_at ?k 4 = OPT_AUTH_PROTO" "skb_at ?k 5 = 5" "ntohs_at ?k 6 = PPP_CHAP" "skb_at ?k 8 = CHAP_MD5"
    by (simp_all add: cp_packet_nth chap_option_def be16_def ntohs_at_def)
  have rd: "reads ?k 6 2 t = t" "reads ?k 8 (Suc 0) t = t" for t
    by (simp_all add: reads_def chap_option_def be16_def)
  show ?thesis
    using assms by (simp add: sppp_lcp_conf_parse_options_def Let_def parse_loop.simps [of ?k _ 4] lcp_opt_def lcp_opt_auth_def at rd)
qed


text \<open>
  C31. An interface that is configured for CHAP, and has a name, is asked for CHAP with MD5 by
  its peer: it acknowledges the option, and when the peer acknowledges its own request it
  sends a PAP request with its name and its secret in clear.
\<close>

theorem chap_agreed_secret_sent:
  assumes "auth_proto (myauth s) = PPP_CHAP" "lcp_st s = CP_CLOSED" "magic s \<noteq> 0" "\<forall>n. alloc_ok e n"
    and "auth_cstr (auth_name (myauth s)) AUTHNAMELEN \<noteq> []"
    and t1: "t1 = sppp_lcp_input e (skb_of (cp_packet CONF_REQ ident 5 chap_option)) s"
    and t2: "t2 = sppp_lcp_input e (skb_of (cp_packet CONF_ACK (lcp_confid (lcp s)) len os)) t1"
  shows "lcp_st t2 = CP_OPENED \<and> xmit t2 = xmit s @
    [cp_frame PPP_LCP CONF_ACK ident 5 chap_option, pap_request (lcp_confid (lcp s)) (myauth s)]"
proof -
  let ?k = "skb_of (cp_packet CONF_REQ ident 5 chap_option)"
  let ?s = "pp_raise PP_NEEDAUTH (s\<lparr>allocs := allocs s + 1\<rparr>)"
  have ok: "alloc_ok e n" for n using assms(4) by simp
  have clen: "length chap_option = 5" by (simp add: chap_option_def be16_def)
  have oct: "octets ?k 4 5 = chap_option"
    using octets_skb_of [of 4 5 "cp_packet CONF_REQ ident 5 chap_option"] by (simp add: clen)
  have "t1 = lcp_good_request e ?k 9 ?s"
    using parse_chap_option [OF ok assms(1), of ident] assms(3)
    by (simp add: t1 sppp_lcp_input_def lcp_conf_req_def clen)
  then have "t1 = set_lcp CP_ACK_SENT (sppp_cp_send e PPP_LCP CONF_ACK ident 5 ?k 4 (?s\<lparr>pp_loopcnt := 0\<rparr>))"
    using assms(2) by (simp add: lcp_good_request_def)
  then have f: "lcp_st t1 = CP_ACK_SENT" "lcp_confid (lcp t1) = lcp_confid (lcp s)" "myauth t1 = myauth s"
      "pp_has PP_NEEDAUTH t1" "xmit t1 = xmit s @ [cp_frame PPP_LCP CONF_ACK ident 5 chap_option]"
    using ok by (simp_all add: xmit_cp_send oct)
  show ?thesis
    using f assms(5) pap_scr_sends [OF ok]
    by (simp add: t2 sppp_lcp_input_def lcp_conf_ack_def lcp_up_def Let_def)
qed

theorem chap_agreed_secret_sent_witness:
  "\<exists>t1 t2. t1 = sppp_lcp_input ex_env (skb_of (cp_packet CONF_REQ 3 5 chap_option)) ex_if \<and>
    t2 = sppp_lcp_input ex_env (skb_of (cp_packet CONF_ACK (lcp_confid (lcp ex_if)) 0 [])) t1 \<and>
    lcp_st t2 = CP_OPENED \<and> xmit t2 = xmit ex_if @
    [cp_frame PPP_LCP CONF_ACK 3 5 chap_option, pap_request (lcp_confid (lcp ex_if)) (myauth ex_if)]"
proof -
  have cfg: "auth_proto (myauth ex_if) = PPP_CHAP" "auth_cstr (auth_name (myauth ex_if)) AUTHNAMELEN \<noteq> []"
    by (simp_all add: ex_auth_def auth_cstr_nonempty)
  show ?thesis
    using chap_agreed_secret_sent [OF cfg(1) _ _ _ cfg(2) refl refl, where e = ex_env and ident = 3 and len = 0 and os = "[]"]
    by simp
qed

section \<open>An acknowledgement nobody asked for\<close>

text \<open>
  C32. A PAP Ack or a CHAP Success opens LCP and starts IPCP, whatever the state: the peer need
  not have answered a request, and LCP need not have been negotiated at all.
\<close>

theorem unasked_ack_opens:
  assumes "\<not> pp_has PP_CISCO s" "\<forall>n. alloc_ok e n"
    and "(proto, ty) \<in> {(PPP_PAP, PAP_ACK), (PPP_CHAP, CHAP_SUCCESS)}"
    and t: "t = wp_sppp_input e (skb_of (cp_frame proto ty ident len os)) s"
  shows "lcp_st t = CP_OPENED \<and> xmit t = xmit s @
    [cp_frame PPP_IPCP CONF_REQ (ipcp_confid (ipcp t)) (if dynamic_ip s then 6 else 0)
      (if dynamic_ip s then [3, 6, 0, 0, 0, 0] else [])]"
proof -
  let ?s = "counted e (8 + length os) s"
  define u where "u = (if proto = PPP_PAP then ?s\<lparr>over_write := True\<rparr> else pp_drop PP_NEEDAUTH ?s)"
  have "t = (if proto = PPP_PAP then pap_input e (skb_of (cp_packet ty ident len os)) ?s
      else sppp_chap_input e (skb_of (cp_packet ty ident len os)) ?s)"
    using assms(1,3) by (auto simp: t wp_sppp_input_def ppp_input_def counted_def Let_def)
  then have t_open: "t = sppp_ipcp_open e (set_lcp CP_OPENED u)"
    using assms(3) by (auto simp: pap_input_def sppp_chap_input_def u_def)
  have u: "xmit u = xmit s" "dynamic_ip u = dynamic_ip s" by (simp_all add: u_def)
  show ?thesis
    using xmit_open(2) [of e "set_lcp CP_OPENED u"] assms(2) u by (simp add: t_open)
qed

theorem unasked_ack_opens_witness:
  "let t = wp_sppp_input ex_env (skb_of (cp_frame PPP_PAP PAP_ACK 0 0 [])) ex_if in
   lcp_st t = CP_OPENED \<and> xmit t = xmit ex_if @
    [cp_frame PPP_IPCP CONF_REQ (ipcp_confid (ipcp t)) (if dynamic_ip ex_if then 6 else 0)
      (if dynamic_ip ex_if then [3, 6, 0, 0, 0, 0] else [])]"
  unfolding Let_def by (rule unasked_ack_opens [OF _ _ _ refl]) simp_all

end
