(* ===== verification/Sppp_Ipcp_Props.thy ===== *)
theory Sppp_Ipcp_Props
  imports Sppp_Options
begin

unbundle bit_operations_syntax

text \<open>
  IPCP and the echoes of LCP: how the addresses are compared, how often a request is
  refused, and packets whose length field or options make the code read or write octets
  that are not theirs.
\<close>

section \<open>Comparing addresses\<close>

lemma bit_horner_octets:
  "bit (horner_sum ucast 256 (xs :: u8 list) :: 'a::len word) n \<longleftrightarrow>
     n < LENGTH('a) \<and> n div 8 < length xs \<and> bit (xs ! (n div 8)) (n mod 8)"
proof (induction xs arbitrary: n)
  case Nil
  show ?case by simp
next
  case (Cons x xs)
  let ?h = "horner_sum ucast 256 xs :: 'a word"
  have push: "256 * ?h = push_bit 8 ?h" by (simp add: push_bit_eq_mult)
  have "ucast x + push_bit 8 ?h = (ucast x OR push_bit 8 ?h)"
    by (rule disjunctive_add) (auto simp: bit_simps dest: bit_imp_le_length)
  then have eq: "horner_sum ucast 256 (x # xs) = (ucast x OR push_bit 8 ?h)"
    by (simp add: push)
  show ?case
  proof (cases "n < 8")
    case True
    then show ?thesis unfolding eq by (auto simp: bit_simps)
  next
    case False
    then have "n div 8 = Suc ((n - 8) div 8)" "n mod 8 = (n - 8) mod 8"
      by (simp_all add: le_div_geq le_mod_geq)
    with False Cons.IH [of "n - 8"] show ?thesis
      unfolding eq by (auto simp: bit_simps dest: bit_imp_le_length)
  qed
qed

lemma bit_long_at: "n < 64 \<Longrightarrow> bit (long_at k i) n \<longleftrightarrow> bit (skb_at k (i + n div 8)) (n mod 8)"
proof -
  assume "n < 64"
  then have "n div 8 < 8" by simp
  then show ?thesis using \<open>n < 64\<close> by (simp add: long_at_def bit_horner_octets octets_def del: upt_rec_numeral)
qed

lemma long_at_eq_word:
  "ucast (w :: u32) = long_at k i \<longleftrightarrow> octets k i 4 = le_word w \<and> octets k (i + 4) 4 = [0, 0, 0, 0]"
proof -
  define Q where "Q j \<longleftrightarrow> (\<forall>m < 8. bit (skb_at k (i + j)) m \<longleftrightarrow> 8 * j + m < 32 \<and> bit w (8 * j + m))" for j
  have bits: "ucast w = long_at k i \<longleftrightarrow>
      (\<forall>j < 8. \<forall>m < 8. bit (skb_at k (i + j)) m \<longleftrightarrow> 8 * j + m < 32 \<and> bit w (8 * j + m))" (is "_ = ?all")
  proof
    assume eq: "ucast w = long_at k i"
    show ?all
    proof (intro allI impI)
      fix j m :: nat assume "j < 8" "m < 8"
      then have "8 * j + m < 64" "(8 * j + m) div 8 = j" "(8 * j + m) mod 8 = m" by simp_all
      with arg_cong [OF eq, of "\<lambda>u. bit u (8 * j + m)"]
      show "bit (skb_at k (i + j)) m \<longleftrightarrow> 8 * j + m < 32 \<and> bit w (8 * j + m)"
        by (auto simp: bit_long_at bit_simps dest: bit_imp_le_length)
    qed
  next
    assume all: ?all
    show "ucast w = long_at k i"
    proof (rule bit_word_eqI)
      fix n assume "n < LENGTH(64)"
      then have n: "n < 64" "n div 8 < 8" "n mod 8 < 8" by auto
      then show "bit (ucast w :: u64) n = bit (long_at k i) n"
        using all [rule_format, OF n(2,3)]
        by (auto simp: bit_long_at bit_simps dest: bit_imp_le_length)
    qed
  qed
  have low: "skb_at k (i + j) = ucast (drop_bit (8 * j) w) \<longleftrightarrow>
      (\<forall>m < 8. bit (skb_at k (i + j)) m \<longleftrightarrow> 8 * j + m < 32 \<and> bit w (8 * j + m))" (is "?l = ?r") if "j < 4" for j
  proof -
    have m: "8 * j + m < 32" if "m < 8" for m using that \<open>j < 4\<close> by simp
    show ?thesis
    proof
      assume ?l
      with m show ?r by (simp add: bit_simps)
    next
      assume ?r
      with m show ?l by (intro bit_word_eqI) (simp add: bit_simps)
    qed
  qed
  have high: "skb_at k (i + j) = 0 \<longleftrightarrow>
      (\<forall>m < 8. bit (skb_at k (i + j)) m \<longleftrightarrow> 8 * j + m < 32 \<and> bit w (8 * j + m))" (is "?l = ?r") if "4 \<le> j" for j
  proof
    assume ?l
    with \<open>4 \<le> j\<close> show ?r by simp
  next
    assume ?r
    with \<open>4 \<le> j\<close> show ?l by (intro bit_word_eqI) simp
  qed
  have all8: "(\<forall>j < 8. P j) \<longleftrightarrow> (P 0 \<and> P 1 \<and> P 2 \<and> P 3) \<and> P 4 \<and> P 5 \<and> P 6 \<and> P (7 :: nat)" for P
    by (auto simp: numeral_eq_Suc All_less_Suc)
  have oct: "octets k i 4 = [skb_at k (i + 0), skb_at k (i + 1), skb_at k (i + 2), skb_at k (i + 3)]"
      "octets k (i + 4) 4 = [skb_at k (i + 4), skb_at k (i + 5), skb_at k (i + 6), skb_at k (i + 7)]"
    by (simp_all add: octets_def upt_rec numeral_eq_Suc)
  have lq: "Q j \<longleftrightarrow> skb_at k (i + j) = ucast (drop_bit (8 * j) w)" if "j < 4" for j
    unfolding Q_def using low [OF that] by simp
  have hq: "Q j \<longleftrightarrow> skb_at k (i + j) = 0" if "4 \<le> j" for j
    unfolding Q_def using high [OF that] by simp
  have "ucast w = long_at k i \<longleftrightarrow> (\<forall>j < 8. Q j)" unfolding Q_def by (rule bits)
  then show ?thesis
    unfolding all8 [of Q] oct le_word_def by (simp add: lq hq)
qed

section \<open>A length field of less than four\<close>

lemma over_read_keeps [simp]:
  "over_read (set_lcp st s) = over_read s" "over_read (set_ipcp st s) = over_read s"
  "over_read (inc_seq i s) = over_read s" "over_read (sppp_clear_timeout s) = over_read s"
  "over_read (sppp_set_timeout e sec s) = over_read s"
  by (simp_all add: set_lcp_def set_ipcp_def inc_seq_def sppp_clear_timeout_def sppp_set_timeout_def pp_raise_def pp_drop_def)

lemma over_read_mono:
  "over_read s \<Longrightarrow> over_read (reads k i n s)" "over_read s \<Longrightarrow> over_read (sppp_cp_send e proto ty ident len k i s)"
  "over_read s \<Longrightarrow> over_read (cp_send_buf e proto ty ident os s)"
  "over_read s \<Longrightarrow> over_read (sppp_ipcp_open e s)" "over_read s \<Longrightarrow> over_read (ipcp_conf_rej e ident s)"
  by (simp_all add: reads_def sppp_cp_send_def cp_send_buf_def sppp_ipcp_open_def ipcp_conf_rej_def Let_def)

lemma over_read_send:
  "alloc_ok e (allocs s) \<Longrightarrow> skb_len k < i + unat len \<Longrightarrow> len \<noteq> 0 \<Longrightarrow>
     over_read (sppp_cp_send e proto ty ident len k i s)"
  by (simp add: sppp_cp_send_def reads_def Let_def unat_eq_0)

lemma short_length16:
  assumes "h < 4"
  shows "(word_of_int (int h - 4) :: u16) = of_nat (65532 + h)"
proof -
  have "h \<in> {0, 1, 2, 3}" using assms by auto
  then show ?thesis by (elim insertE emptyE) simp_all
qed

lemma xmit_conf_rej: "\<exists>rest. xmit (ipcp_conf_rej e ident s) = xmit s @ rest"
  by (auto simp: ipcp_conf_rej_def sppp_ipcp_open_def xmit_send_buf Let_def)

text \<open>
  C33. A Configure-Nak of IPCP whose length field is less than four, with the identifier of the
  last request: the length of the options comes out negative, and a packet with more than
  65000 octets, nearly all of them from the memory behind the packet that was received,
  goes to the peer.
\<close>

theorem ipcp_nak_discloses:
  assumes "skb_at k 0 = CONF_NAK" "skb_at k 1 = ipcp_confid (ipcp s)" "skb_at k 5 \<ge> 6"
    and "4 \<le> skb_len k" "skb_len k < 65536" "\<forall>n. alloc_ok e n"
  defines "h \<equiv> unat (ntohs_at k 2)" and "t \<equiv> sppp_ipcp_input e k s"
  assumes "h < 4"
  shows "over_read t \<and> (\<exists>code \<in> {CONF_REQ, CONF_REJ}. \<exists>rest. xmit t = xmit s @
    cp_frame PPP_IPCP code (skb_at k 1) (of_nat (65532 + h)) (octets k 4 (65532 + h)) # rest)"
proof -
  define n where "n = (of_nat (65532 + h) :: u16)"
  have un: "unat n = 65532 + h" using \<open>h < 4\<close> unfolding n_def by (intro unat_len16) simp
  then have nz: "n \<noteq> 0" by (metis add_is_0 unat_0 zero_neq_numeral)
  have len: "min (skb_len k) h = h" using assms(4) \<open>h < 4\<close> by simp
  let ?send = "\<lambda>code. sppp_cp_send e PPP_IPCP code (skb_at k 1) n k 4"
  have sent: "xmit (?send code u) = xmit u @ [cp_frame PPP_IPCP code (skb_at k 1) n (octets k 4 (65532 + h))]"
      "over_read (?send code u)" for code u
  proof -
    show "xmit (?send code u) = xmit u @ [cp_frame PPP_IPCP code (skb_at k 1) n (octets k 4 (65532 + h))]"
      using assms(6) un by (simp add: xmit_cp_send)
    show "over_read (?send code u)"
      using assms(5,6) un nz by (intro over_read_send) auto
  qed
  define s1 where "s1 = reads k 6 8 (reads k 5 1 s)"
  have s1: "xmit s1 = xmit s" "ipcp s1 = ipcp s" by (simp_all add: s1_def)
  have n: "word_of_int (int h - 4) = n" using \<open>h < 4\<close> by (simp add: short_length16 n_def)
  have t: "t = ipcp_conf_nak e k h s"
    using assms(1,4) len by (simp add: t_def sppp_ipcp_input_def Let_def flip: h_def)
  define u where "u = (if dynamic_ip s then s1\<lparr>local_ip := ipcp_address k\<rparr> else s1)"
  have "t = (if dynamic_ip s \<or> ucast (ucast (env_local_ip e) :: u32) = ipcp_address k
      then set_ipcp CP_ACK_SENT (?send CONF_REQ u) else ipcp_conf_rej e (skb_at k 1) (?send CONF_REJ s1))"
    using assms(2,3) n by (simp add: t ipcp_conf_nak_def Let_def s1_def u_def)
  moreover have "xmit u = xmit s" by (simp add: u_def s1)
  ultimately have "(\<exists>u. t = set_ipcp CP_ACK_SENT (?send CONF_REQ u) \<and> xmit u = xmit s) \<or>
      t = ipcp_conf_rej e (skb_at k 1) (?send CONF_REJ s1)"
    by (cases "dynamic_ip s \<or> ucast (ucast (env_local_ip e) :: u32) = ipcp_address k") (simp_all only: if_True if_False, blast+)
  then show ?thesis
    unfolding n_def [symmetric]
  proof (elim disjE exE conjE)
    fix u assume "t = set_ipcp CP_ACK_SENT (?send CONF_REQ u)" "xmit u = xmit s"
    then show "over_read t \<and> (\<exists>code \<in> {CONF_REQ, CONF_REJ}. \<exists>rest. xmit t = xmit s @
        cp_frame PPP_IPCP code (skb_at k 1) n (octets k 4 (65532 + h)) # rest)"
      by (simp add: sent [simplified])
  next
    assume t: "t = ipcp_conf_rej e (skb_at k 1) (?send CONF_REJ s1)"
    obtain rest where "xmit t = xmit (?send CONF_REJ s1) @ rest" using xmit_conf_rej t by blast
    then show "over_read t \<and> (\<exists>code \<in> {CONF_REQ, CONF_REJ}. \<exists>rest. xmit t = xmit s @
        cp_frame PPP_IPCP code (skb_at k 1) n (octets k 4 (65532 + h)) # rest)"
      using over_read_mono(5) [OF sent(2)] by (simp add: sent [simplified] s1 t)
  qed
qed


theorem ipcp_nak_discloses_witness:
  "let k = skb_of [CONF_NAK, 0, 0, 0, 3, 6, 1, 2, 3, 4]; t = sppp_ipcp_input ex_env k ex_if in
   over_read t \<and> (\<exists>code \<in> {CONF_REQ, CONF_REJ}. \<exists>rest. xmit t = xmit ex_if @
    cp_frame PPP_IPCP code (skb_at k 1) (of_nat (65532 + unat (ntohs_at k 2))) (octets k 4 (65532 + unat (ntohs_at k 2))) # rest)"
  unfolding Let_def by (rule ipcp_nak_discloses) (simp_all add: ntohs_at_def ex_if_def)

section \<open>A request with an address, when addresses are configured\<close>

text \<open>
  C25. IPCP with configured addresses, and a Configure-Request with options. Where the octets
  at the place of the address are those of the configured one and four zero octets follow,
  the request is acknowledged and the timer stopped, and IPCP stays in its state; else it is
  refused, the eleventh time in a row with a Terminate-Request, and IPCP is afterwards
  neither open nor waiting for an Ack. So no request with an address opens IPCP, and one
  with the right address only does not harm if what follows it is zero.
\<close>

theorem ipcp_address_request:
  assumes "skb_at k 0 = CONF_REQ" "\<not> dynamic_ip s" "\<forall>n. alloc_ok e n" "skb_len k < 65536"
  defines "len \<equiv> min (skb_len k) (unat (ntohs_at k 2))" and "t \<equiv> sppp_ipcp_input e k s"
  assumes "4 < len"
  shows "if octets k 6 4 = le_word (ucast (env_p2p_ip e)) \<and> octets k 10 4 = [0, 0, 0, 0]
    then xmit t = xmit s @ [cp_frame PPP_IPCP CONF_ACK (skb_at k 1) (of_nat (len - 4)) (octets k 4 (len - 4))] \<and>
      ipcp t = ipcp s \<and> dynamic_failures t = dynamic_failures s \<and> \<not> pp_has PP_TIMO t
    else (\<exists>rest. xmit t = xmit s @
        (if dynamic_failures s < 10
         then cp_frame PPP_IPCP CONF_REJ (skb_at k 1) (of_nat (len - 4)) (octets k 4 (len - 4))
         else cp_frame PPP_IPCP TERM_REQ (skb_at k 1) 0 []) # rest) \<and>
      ipcp_st t \<in> {CP_CLOSED, CP_ACK_RCVD} \<and>
      dynamic_failures t = (if dynamic_failures s < 10 then dynamic_failures s + 1 else 0)"
proof -
  have un: "unat (of_nat (len - 4) :: u16) = len - 4"
    using assms(4) by (intro unat_len16) (simp add: len_def)
  have t: "t = ipcp_static_req e k len s"
    using assms(1,2) \<open>4 < len\<close> by (simp add: t_def sppp_ipcp_input_def ipcp_conf_req_def Let_def flip: len_def)
      (simp add: len_def)
  have addr: "ucast (ucast (env_p2p_ip e) :: u32) = ipcp_address k \<longleftrightarrow>
      octets k 6 4 = le_word (ucast (env_p2p_ip e)) \<and> octets k 10 4 = [0, 0, 0, 0]"
    using long_at_eq_word [of "ucast (env_p2p_ip e)" k 6] by (simp add: ipcp_address_def)
  have sent: "xmit (sppp_cp_send e PPP_IPCP code (skb_at k 1) (of_nat (len - 4)) k 4 u) =
      xmit u @ [cp_frame PPP_IPCP code (skb_at k 1) (of_nat (len - 4)) (octets k 4 (len - 4))]" for code u
    using assms(3) by (simp only: xmit_cp_send un if_True)
  show ?thesis
    using assms(3)
    by (simp add: t ipcp_static_req_def Let_def addr sent [simplified] xmit_send_buf sppp_ipcp_open_def split: cp_state.split)
qed


theorem ipcp_address_request_witness:
  "let k = skb_of [CONF_REQ, 1, 0, 10, 3, 6, 0xC0, 0xA8, 0, 2];
       len = min (skb_len k) (unat (ntohs_at k 2)); t = sppp_ipcp_input ex_env k ex_if
   in if octets k 6 4 = le_word (ucast (env_p2p_ip ex_env)) \<and> octets k 10 4 = [0, 0, 0, 0]
    then xmit t = xmit ex_if @ [cp_frame PPP_IPCP CONF_ACK (skb_at k 1) (of_nat (len - 4)) (octets k 4 (len - 4))] \<and>
      ipcp t = ipcp ex_if \<and> dynamic_failures t = dynamic_failures ex_if \<and> \<not> pp_has PP_TIMO t
    else (\<exists>rest. xmit t = xmit ex_if @
        (if dynamic_failures ex_if < 10
         then cp_frame PPP_IPCP CONF_REJ (skb_at k 1) (of_nat (len - 4)) (octets k 4 (len - 4))
         else cp_frame PPP_IPCP TERM_REQ (skb_at k 1) 0 []) # rest) \<and>
      ipcp_st t \<in> {CP_CLOSED, CP_ACK_RCVD} \<and>
      dynamic_failures t = (if dynamic_failures ex_if < 10 then dynamic_failures ex_if + 1 else 0)"
  unfolding Let_def by (rule ipcp_address_request) (simp_all add: ntohs_at_def)

section \<open>A peer that negotiates IPCP again\<close>

text \<open>
  C40. IPCP is open, so its timer does not run, and the peer starts the negotiation again with
  an empty Configure-Request: the request is acknowledged and IPCP waits for an Ack, but no
  request of its own goes out, which the RFC demands, and no timer is armed; whatever the
  timers and the bottom half do, short of the keepalive, nothing is sent any more.
\<close>

definition quiet_event :: "sppp_event \<Rightarrow> bool" where
  "quiet_event ev \<longleftrightarrow> (case ev of Timer e \<Rightarrow> True | Bottom_half e \<Rightarrow> True | _ \<Rightarrow> False)"

definition half_open :: "u8 list list \<Rightarrow> sppp \<Rightarrow> bool" where
  "half_open fs s \<longleftrightarrow> ipcp_st s = CP_ACK_SENT \<and> pp_timer s = None \<and> xmit s = fs"

interpretation half: event_run sppp_do quiet_event "half_open fs"
proof
  fix ev s assume "quiet_event ev" "half_open fs s"
  then show "half_open fs (sppp_do ev s)"
    by (auto simp: quiet_event_def half_open_def sppp_do_def sppp_bh_def host_does_def Let_def
        split: sppp_event.splits)
qed

theorem ipcp_restart_half_open:
  assumes "skb_at k 0 = CONF_REQ" "4 \<le> skb_len k" "ntohs_at k 2 = 4" "\<forall>n. alloc_ok e n"
    and "ipcp_st s = CP_OPENED" "pp_timer s = None" "\<forall>ev \<in> set evs. quiet_event ev"
  shows "half_open (xmit s @ [cp_frame PPP_IPCP CONF_ACK (skb_at k 1) 0 []]) (fold sppp_do evs (sppp_ipcp_input e k s))"
proof -
  have "half_open (xmit s @ [cp_frame PPP_IPCP CONF_ACK (skb_at k 1) 0 []]) (sppp_ipcp_input e k s)"
    using assms(1-6) by (simp add: half_open_def sppp_ipcp_input_def ipcp_conf_req_def xmit_send_buf Let_def)
  then show ?thesis using assms(7) by (rule half.run)
qed

theorem ipcp_restart_half_open_witness:
  "let s = set_ipcp CP_OPENED (set_lcp CP_OPENED ex_if); k = skb_of [CONF_REQ, 5, 0, 4]
   in half_open (xmit s @ [cp_frame PPP_IPCP CONF_ACK (skb_at k 1) 0 []])
        (fold sppp_do [Timer ex_env, Bottom_half ex_env] (sppp_ipcp_input ex_env k s))"
  unfolding Let_def by (rule ipcp_restart_half_open) (simp_all add: ntohs_at_def quiet_event_def)

section \<open>Echo\<close>

lemma le64_htonl: "le64 (ucast (htonl w)) = be32 w @ [0, 0, 0, 0]"
proof (rule nth_equalityI)
  show len: "length (le64 (ucast (htonl w))) = length (be32 w @ [0, 0, 0, 0])"
    by (simp add: le64_def be32_def)
  fix j assume "j < length (le64 (ucast (htonl w)))"
  then have j: "j < 8" by (simp add: le64_def)
  have be: "length (be32 w) = 4" by (simp add: be32_def)
  show "le64 (ucast (htonl w)) ! j = (be32 w @ [0, 0, 0, 0]) ! j"
  proof (rule bit_word_eqI)
    fix m assume "m < LENGTH(8)"
    then have m: "m < 8" "(8 * j + m) div 8 = j" "(8 * j + m) mod 8 = m" "8 * j + m < 64" using j by simp_all
    have "bit (le64 (ucast (htonl w)) ! j) m \<longleftrightarrow> bit (htonl w) (8 * j + m)"
      using j m by (auto simp: le64_def bit_simps dest: bit_imp_le_length)
    also have "\<dots> \<longleftrightarrow> j < 4 \<and> bit (be32 w ! j) m"
      using j m be by (auto simp: htonl_def bit_horner_octets)
    finally show "bit (le64 (ucast (htonl w)) ! j) m \<longleftrightarrow> bit ((be32 w @ [0, 0, 0, 0]) ! j) m"
      using j be by (auto simp: nth_append less_Suc_eq numeral_eq_Suc)
  qed
qed

text \<open>
  C28. An Echo-Request with a foreign magic number that arrives while LCP is open is answered
  by an Echo-Reply with the own magic number, then four zero octets in the place of the
  first four octets of data, then the rest of the data; the octets are stored into the
  packet that was received, behind its end when the packet has less than twelve octets.
\<close>

theorem echo_reply_octets:
  assumes "skb_at k 0 = ECHO_REQ" "lcp_st s = CP_OPENED" "ntohl_at k 4 \<noteq> magic s" "\<forall>n. alloc_ok e n"
    and "skb_len k < 65536"
  defines "len \<equiv> min (skb_len k) (unat (ntohs_at k 2))" and "t \<equiv> sppp_lcp_input e k s"
  assumes "8 \<le> len"
  shows "xmit t = xmit s @ [cp_frame PPP_LCP ECHO_REPLY (skb_at k 1) (of_nat (len - 4))
      (take (len - 4) (be32 (magic s) @ [0, 0, 0, 0] @ octets k 12 (len - 12)))] \<and>
    lcp t = lcp s \<and> (over_write t \<longleftrightarrow> over_write s \<or> skb_len k < 12)"
proof -
  let ?k = "store_long (ucast (htonl (magic s))) 4 k"
  have un: "unat (of_nat (len - 4) :: u16) = len - 4"
    using assms(5) by (intro unat_len16) (simp add: len_def)
  have oct: "octets ?k 4 (len - 4) = take (len - 4) (be32 (magic s) @ [0, 0, 0, 0] @ octets k 12 (len - 12))"
  proof (rule nth_equalityI)
    have be: "length (be32 (magic s)) = 4" by (simp add: be32_def)
    show "length (octets ?k 4 (len - 4)) = length (take (len - 4) (be32 (magic s) @ [0, 0, 0, 0] @ octets k 12 (len - 12)))"
      using \<open>8 \<le> len\<close> be by simp
    fix i assume "i < length (octets ?k 4 (len - 4))"
    then have i: "i < len - 4" by simp
    show "octets ?k 4 (len - 4) ! i = take (len - 4) (be32 (magic s) @ [0, 0, 0, 0] @ octets k 12 (len - 12)) ! i"
    proof (cases "i < 8")
      case True
      then have "octets ?k 4 (len - 4) ! i = le64 (ucast (htonl (magic s))) ! i"
        using i by (simp add: octets_def store_long_def)
      also have "\<dots> = (be32 (magic s) @ [0, 0, 0, 0] @ octets k 12 (len - 12)) ! i"
        using True be nth_append [of "be32 (magic s) @ [0, 0, 0, 0]" "octets k 12 (len - 12)" i]
        by (simp add: le64_htonl)
      finally show ?thesis unfolding nth_take [OF i] .
    next
      case False
      then have "octets ?k 4 (len - 4) ! i = skb_at k (4 + i)"
        using i by (simp add: octets_def store_long_def)
      moreover have "(be32 (magic s) @ [0, 0, 0, 0] @ octets k 12 (len - 12)) ! i = octets k 12 (len - 12) ! (i - 8)"
        using False be nth_append [of "be32 (magic s) @ [0, 0, 0, 0]" "octets k 12 (len - 12)" i] by simp
      moreover have "i - 8 < len - 12" "12 + (i - 8) = 4 + i" using False i by linarith+
      then have "octets k 12 (len - 12) ! (i - 8) = skb_at k (4 + i)"
        by (simp add: octets_def)
      ultimately show ?thesis unfolding nth_take [OF i] by simp
    qed
  qed
  have "t = sppp_cp_send e PPP_LCP ECHO_REPLY (skb_at k 1) (of_nat (len - 4)) ?k 4
      (s\<lparr>over_write := over_write s \<or> skb_len k < 12\<rparr>)"
    using assms(1-3) \<open>8 \<le> len\<close>
    by (simp add: t_def sppp_lcp_input_def lcp_echo_req_def Let_def flip: len_def) (simp add: len_def)
  then show ?thesis
    using assms(4) by (simp only: xmit_cp_send un oct) simp
qed

theorem echo_reply_octets_witness:
  "let s = set_lcp CP_OPENED ex_if; k = skb_of ([ECHO_REQ, 3, 0, 14] @ [0, 0, 0, 1] @ [1, 2, 3, 4, 5, 6]);
       len = min (skb_len k) (unat (ntohs_at k 2)); t = sppp_lcp_input ex_env k s
   in xmit t = xmit s @ [cp_frame PPP_LCP ECHO_REPLY (skb_at k 1) (of_nat (len - 4))
      (take (len - 4) (be32 (magic s) @ [0, 0, 0, 0] @ octets k 12 (len - 12)))] \<and>
    lcp t = lcp s \<and> (over_write t \<longleftrightarrow> over_write s \<or> skb_len k < 12)"
  unfolding Let_def by (rule echo_reply_octets) (simp_all add: ntohs_at_def ntohl_at_def)

end
