(* ===== verification/Sppp_Interface.thy ===== *)
theory Sppp_Interface
  imports Sppp_Options
begin

unbundle bit_operations_syntax

text \<open>
  What an interface promises to the layers around it: when a packet reaches the protocol
  stack, the header of outgoing packets, the keepalives of both protocols, the bounds of
  the MTU, and the list of interfaces of the module.
\<close>

section \<open>Packets for the protocol stack\<close>

lemma rx_opens [simp]:
  "rx_up (sppp_lcp_open e s) = rx_up s" "rx_up (sppp_ipcp_open e s) = rx_up s"
  by (simp_all add: sppp_lcp_open_def sppp_ipcp_open_def Let_def)

lemma rx_lcp_parts [simp]:
  "rx_up (lcp_badreq e s) = rx_up s" "rx_up (lcp_up e ident s) = rx_up s"
  by (simp_all add: lcp_badreq_def lcp_up_def Let_def split: cp_state.split)

lemma rx_lcp_packets [simp]:
  "rx_up (lcp_loopback e ident s) = rx_up s" "rx_up (lcp_good_request e k len s) = rx_up s"
  "rx_up (lcp_conf_ack e ident s) = rx_up s" "rx_up (lcp_conf_nak e k len s) = rx_up s"
  "rx_up (lcp_conf_rej e ident s) = rx_up s" "rx_up (lcp_term_req e ident s) = rx_up s"
  "rx_up (lcp_echo_req e k len s) = rx_up s" "rx_up (lcp_echo_reply k len s) = rx_up s"
  by (simp_all add: lcp_loopback_def lcp_good_request_def lcp_conf_ack_def lcp_conf_nak_def lcp_conf_rej_def
      lcp_term_req_def lcp_echo_req_def lcp_echo_reply_def Let_def split: cp_state.split)

lemma rx_conf_req [simp]: "rx_up (lcp_conf_req e k len s) = rx_up s"
  by (auto simp: lcp_conf_req_def dest!: parse_keeps split: prod.split)

lemma rx_control [simp]:
  "rx_up (sppp_lcp_input e k s) = rx_up s" "rx_up (sppp_ipcp_input e k s) = rx_up s"
  "rx_up (pap_input e k s) = rx_up s" "rx_up (sppp_chap_input e k s) = rx_up s"
  "rx_up (sppp_cisco_input e k s) = rx_up s"
  by (simp_all add: sppp_lcp_input_def sppp_ipcp_input_def ipcp_conf_req_def ipcp_conf_nak_def ipcp_static_req_def
      ipcp_conf_ack_def ipcp_conf_rej_def ipcp_term_req_def pap_input_def sppp_chap_input_def chap_challenge_def
      sppp_cisco_input_def cisco_keepalive_def Let_def split: cp_state.split option.split)

text \<open>
  C13. After any run of an interface from its attachment, of any events in any order with any
  environment, a frame is handed to the protocol stack in PPP mode only where LCP and IPCP
  are both open, and what is handed up is the frame without its header, as an IP packet.
\<close>

theorem stack_gets_ip_when_open:
  assumes "s = fold sppp_do evs (sppp_attach_dev dbg s0)" "\<not> pp_has PP_CISCO s"
  shows "rx_up (wp_sppp_input e f s) = rx_up s \<or>
    lcp_st s = CP_OPENED \<and> ipcp_st s = CP_OPENED \<and> ntohs_at f 2 = PPP_IP \<and>
    rx_up (wp_sppp_input e f s) = rx_up s @ [(ETH_P_IP, octets f 4 (skb_len f - 4))]"
proof -
  have "layers_ok (sppp_attach_dev dbg s0)"
    by (simp add: layers_ok_def sppp_attach_dev_def Let_def)
  then have layers: "layers_ok s" unfolding assms(1) by (rule layers.run) simp
  have oct: "octets (skb_pull 4 f) 0 (skb_len f - 4) = octets f 4 (skb_len f - 4)" if "4 \<le> skb_len f"
    using that by (simp add: skb_pull_def octets_def add.commute)
  define c where "c = (if dev_running s
    then s\<lparr>ibytes := ibytes s + of_nat (skb_len f) + 3, ipkts := ipkts s + 1\<rparr> else s)"
  have c: "rx_up c = rx_up s" "ipcp_st c = ipcp_st s" "pp_has PP_CISCO c = pp_has PP_CISCO s"
    by (simp_all add: c_def)
  have "rx_up (ppp_input e f k c) = rx_up s @
      (if ntohs_at f 2 = PPP_IP \<and> ipcp_st s = CP_OPENED then [(ETH_P_IP, octets k 0 (skb_len k))] else [])" for k
    using c by (simp add: ppp_input_def Let_def netif_rx_def)
  then show ?thesis
    using assms(2) layers oct c
    by (auto simp: wp_sppp_input_def layers_ok_def Let_def skb_pull_def simp flip: c_def)
qed

text \<open>
  C19. In any run from attachment in which the user does not store the flags directly, the flag
  \<open>PP_TIMO\<close> says whether the restart timer is armed, so the timer is never armed twice and
  never deleted when it is not.
\<close>

theorem timer_flag_true:
  assumes "pp_timer s0 = None" "dbg AND PP_TIMO = 0" "\<forall>ev \<in> set evs. \<not> stores_flags ev"
  shows "timer_ok (fold sppp_do evs (sppp_attach_dev dbg s0))"
proof -
  have "(PP_KEEPALIVE OR PP_CISCO OR dbg) AND PP_TIMO = (0 :: u32)"
    using assms(2) by (simp add: bit.conj_disj_distrib2)
  then have "timer_ok (sppp_attach_dev dbg s0)"
    using assms(1) by (simp add: timer_ok_def sppp_attach_dev_def sppp_chap_init_def pp_has_def Let_def)
  then show ?thesis using assms(3) by (rule timer.run)
qed

theorem timer_flag_true_witness:
  "timer_ok (fold sppp_do [Open_if ex_env, Frame ex_env (skb_of []), Close_if] (sppp_attach_dev PP_DEBUG ex_if))"
  by (rule timer_flag_true) (simp_all add: stores_flags_def)

theorem stack_gets_ip_when_open_witness:
  "let s = fold sppp_do [Ioctl True True (SIOCDEVPRIVATE + 1) 0] (sppp_attach_dev 0 ex_if); f = skb_of [0xff, 3, 0, 0x21, 69]
   in rx_up (wp_sppp_input ex_env f s) = rx_up s \<or>
    lcp_st s = CP_OPENED \<and> ipcp_st s = CP_OPENED \<and> ntohs_at f 2 = PPP_IP \<and>
    rx_up (wp_sppp_input ex_env f s) = rx_up s @ [(ETH_P_IP, octets f 4 (skb_len f - 4))]"
  unfolding Let_def
  by (rule stack_gets_ip_when_open [OF refl])
    (simp add: sppp_do_def wp_sppp_do_ioctl_def sppp_attach_dev_def Let_def)

section \<open>The header of outgoing packets\<close>

text \<open>
  C24. An IP packet to which one interface puts its header reaches the protocol stack of any
  interface in the same mode, unchanged: in PPP mode where IPCP is open, in Cisco mode
  always. With less than four octets of headroom no header is put and zero is returned.
\<close>

theorem header_round_trip:
  assumes "pp_has PP_CISCO s = pp_has PP_CISCO t" "pp_has PP_CISCO t \<or> ipcp_st t = CP_OPENED" "os \<noteq> []"
  shows "case sppp_hard_header headroom ETH_P_IP junk os s of (n, frame) \<Rightarrow>
    if headroom < 4 then n = 0 \<and> frame = os
    else n = 4 \<and> length frame = length os + 4 \<and>
      rx_up (wp_sppp_input e (skb_of frame) t) = rx_up t @ [(ETH_P_IP, os)]"
proof -
  have oct: "octets (skb_pull 4 (skb_of (a # b # c # d # os))) 0 (length os) = os" for a b c d
    by (simp add: octets_skb_of)
  have len: "skb_len (skb_pull 4 (skb_of (a # b # c # d # os))) = length os" for a b c d
    by simp
  show ?thesis
  proof (cases "pp_has PP_CISCO s")
    case True
    then show ?thesis
      using assms oct len
      by (simp add: sppp_hard_header_def wp_sppp_input_def be16_def ntohs_at_def netif_rx_def Let_def)
  next
    case False
    then show ?thesis
      using assms oct len
      by (simp add: sppp_hard_header_def wp_sppp_input_def ppp_input_def be16_def ntohs_at_def netif_rx_def Let_def)
  qed
qed

theorem header_round_trip_witness:
  "case sppp_hard_header 16 ETH_P_IP [7, 7] [69, 0, 0, 20] ex_if of (n, frame) \<Rightarrow>
    if (16 :: nat) < 4 then n = 0 \<and> frame = [69, 0, 0, 20]
    else n = 4 \<and> length frame = length [69, 0, 0, 20 :: u8] + 4 \<and>
      rx_up (wp_sppp_input ex_env (skb_of frame) (set_ipcp CP_OPENED ex_if)) =
      rx_up (set_ipcp CP_OPENED ex_if) @ [(ETH_P_IP, [69, 0, 0, 20])]"
  by (rule header_round_trip) simp_all

section \<open>Keepalives\<close>

lemma counted_more [simp]:
  "pp_link_state (counted e n s) = pp_link_state s" "pp_loopcnt (counted e n s) = pp_loopcnt s"
  by (simp_all add: counted_def)

lemma cisco_frame_input:
  fixes ty par1 :: u32
  assumes "pp_has PP_CISCO t" "length rest = 10"
  defines "f \<equiv> [CISCO_MULTICAST, 0] @ be16 CISCO_KEEPALIVE @ be32 ty @ be32 par1 @ rest"
  shows "\<exists>k. wp_sppp_input e (skb_of f) t = sppp_cisco_input e k (counted e 22 t) \<and>
    skb_len k = 18 \<and> ntohl_at k 0 = ty \<and> ntohl_at k 4 = par1"
proof -
  have f: "f = 0x8f # 0 # 0x80 # 0x35 # be32 ty @ be32 par1 @ rest" by (simp add: f_def be16_def)
  define k where "k = skb_of (be32 ty @ be32 par1 @ rest)"
  have "skb_pull 4 (skb_of f) = k" by (simp add: f k_def)
  moreover have "skb_len (skb_of f) = 22" using assms(2) by (simp add: f be32_def)
  moreover have "skb_at (skb_of f) 0 = CISCO_MULTICAST" "ntohs_at (skb_of f) 2 = CISCO_KEEPALIVE"
    by (simp_all add: f ntohs_at_def)
  ultimately have "wp_sppp_input e (skb_of f) t = sppp_cisco_input e k (counted e 22 t)"
    using assms(1) by (simp add: wp_sppp_input_def Let_def counted_def)
  moreover have "skb_len k = 18" using assms(2) by (simp add: k_def be32_def)
  moreover have "ntohl_at k 0 = ty" "ntohl_at k 4 = par1"
    using assms(2) by (simp_all add: k_def ntohl_at_def be32_def) (simp_all add: be32_word)
  ultimately show ?thesis by blast
qed

text \<open>
  C27. Cisco HDLC. The keepalive one interface sends, arriving at another: its sequence number
  becomes the remote number there and the count of missed keepalives is cleared; where the
  number differs from the own one, the link comes up, and where it is the same, as on a
  line that loops back, the link does not come up and the own number is changed.
\<close>

theorem cisco_keepalive_arrives:
  assumes "pp_has PP_KEEPALIVE s" "dev_up s" "pp_has PP_CISCO s" "pp_has PP_CISCO t" "dev_up t" "alloc_ok e (allocs s)"
  defines "s' \<equiv> keepalive_one e s"
  shows "\<exists>f. xmit s' = xmit s @ [f] \<and>
    (let t' = wp_sppp_input e' (skb_of f) t in
     pp_alivecnt t' = 0 \<and> pp_rseq t' IDX_LCP = pp_seq s' IDX_LCP \<and>
     (if pp_seq t IDX_LCP \<noteq> pp_seq s' IDX_LCP
      then pp_link_state t' = SPPP_LINK_UP \<and> pp_seq t' = pp_seq t \<and> pp_loopcnt t' = 0
      else (pp_link_state t' = pp_link_state t \<or> pp_link_state t' = SPPP_LINK_DOWN) \<and>
        pp_seq t' IDX_LCP = pp_seq t IDX_LCP XOR rnd e'))"
proof -
  define s1 where "s1 = (if ucast (pp_alivecnt s) = max_keepalive e then if_down s else s)"
  define s2 where "s2 = (if ucast (pp_alivecnt s1) \<le> max_keepalive e then s1\<lparr>pp_alivecnt := pp_alivecnt s1 + 1\<rparr> else s1)"
  have s2: "pp_has PP_CISCO s2" "pp_seq s2 = pp_seq s" "pp_rseq s2 = pp_rseq s" "xmit s2 = xmit s" "allocs s2 = allocs s"
    using assms(3) by (simp_all add: s1_def s2_def if_down_def pp_has_def)
  have s': "s' = sppp_cisco_send e CISCO_KEEPALIVE_REQ (pp_seq (inc_seq IDX_LCP s2) IDX_LCP)
      (pp_rseq (inc_seq IDX_LCP s2) IDX_LCP) (inc_seq IDX_LCP s2)"
    using assms(1-3) s2(1) by (simp add: s'_def keepalive_one_def Let_def flip: s1_def s2_def)
      (simp add: s1_def s2_def)
  define rest where "rest = be32 (pp_rseq s IDX_LCP) @ [0xff, 0xff] @
      be16 (ucast (drop_bit 16 (ucast (jiffies e * 1000 div hz e) :: u32))) @ be16 (ucast (ucast (jiffies e * 1000 div hz e) :: u32))"
  define f where "f = [CISCO_MULTICAST, 0] @ be16 CISCO_KEEPALIVE @ be32 CISCO_KEEPALIVE_REQ @ be32 (pp_seq s IDX_LCP + 1) @ rest"
  have sent: "xmit s' = xmit s @ [f]" "pp_seq s' IDX_LCP = pp_seq s IDX_LCP + 1"
    using assms(6) s2 by (simp_all add: s' sppp_cisco_send_def Let_def inc_seq_def f_def rest_def)
  obtain k where k: "wp_sppp_input e' (skb_of f) t = sppp_cisco_input e' k (counted e' 22 t)"
      "skb_len k = 18" "ntohl_at k 0 = CISCO_KEEPALIVE_REQ" "ntohl_at k 4 = pp_seq s IDX_LCP + 1"
    using cisco_frame_input [OF assms(4), of rest e' CISCO_KEEPALIVE_REQ "pp_seq s IDX_LCP + 1"]
    by (auto simp: f_def rest_def be32_def be16_def)
  show ?thesis
    using assms(5) sent k
    by (cases "pp_link_state t") (simp_all add: sppp_cisco_input_def cisco_keepalive_def if_down_def Let_def)
qed

theorem cisco_keepalive_arrives_witness:
  "let s = pp_raise PP_CISCO ex_if; s' = keepalive_one ex_env s; t = s\<lparr>pp_seq := (\<lambda>_. 7)\<rparr>
   in \<exists>f. xmit s' = xmit s @ [f] \<and>
    (let t' = wp_sppp_input ex_env (skb_of f) t in
     pp_alivecnt t' = 0 \<and> pp_rseq t' IDX_LCP = pp_seq s' IDX_LCP \<and>
     (if pp_seq t IDX_LCP \<noteq> pp_seq s' IDX_LCP
      then pp_link_state t' = SPPP_LINK_UP \<and> pp_seq t' = pp_seq t \<and> pp_loopcnt t' = 0
      else (pp_link_state t' = pp_link_state t \<or> pp_link_state t' = SPPP_LINK_DOWN) \<and>
        pp_seq t' IDX_LCP = pp_seq t IDX_LCP XOR rnd ex_env))"
  unfolding Let_def by (rule cisco_keepalive_arrives [unfolded Let_def]) simp_all

text \<open>
  An address request of Cisco HDLC. The address and the mask of the interface are in
  network order already; they are converted again, so that the octets of both go out in
  the reverse order.
\<close>

theorem cisco_address_reversed:
  fixes par1 :: u32
  assumes "pp_has PP_CISCO s" "length rest = 10" "alloc_ok e (allocs s)" "env_ifa e = Some (addr, netmask)"
  defines "f \<equiv> [CISCO_MULTICAST, 0] @ be16 CISCO_KEEPALIVE @ be32 CISCO_ADDR_REQ @ be32 par1 @ rest"
  shows "\<exists>tail. xmit (wp_sppp_input e (skb_of f) s) = xmit s @
    [[CISCO_MULTICAST, 0] @ be16 CISCO_KEEPALIVE @ be32 CISCO_ADDR_REPLY @ rev (le_word addr) @ rev (le_word netmask) @ tail]"
proof -
  have rev: "be32 w = rev (le_word w)" for w by (simp add: be32_def le_word_def)
  obtain k where k: "wp_sppp_input e (skb_of f) s = sppp_cisco_input e k (counted e 22 s)"
      "skb_len k = 18" "ntohl_at k 0 = CISCO_ADDR_REQ"
    unfolding f_def using cisco_frame_input [OF assms(1,2)] by blast
  have "allocs (counted e 22 s) = allocs s" by (simp add: counted_def)
  then show ?thesis
    using k assms(3,4) by (simp add: sppp_cisco_input_def sppp_cisco_send_def Let_def rev)
qed

theorem cisco_address_reversed_witness:
  "\<exists>tail. xmit (wp_sppp_input ex_env (skb_of ([CISCO_MULTICAST, 0] @ be16 CISCO_KEEPALIVE @ be32 CISCO_ADDR_REQ @ be32 0 @ replicate 10 0))
      (pp_raise PP_CISCO ex_if)) = xmit (pp_raise PP_CISCO ex_if) @
    [[CISCO_MULTICAST, 0] @ be16 CISCO_KEEPALIVE @ be32 CISCO_ADDR_REPLY @ rev (le_word 0x0100A8C0) @ rev (le_word 0x00FFFFFF) @ tail]"
  by (rule cisco_address_reversed) (simp_all add: ex_env_def)

lemma unat_ucast_16_32: "unat (ucast (w :: u16) :: u32) = unat w"
proof -
  have "unat w < 2 ^ 32" using unsigned_less [of w, where ?'a = nat] by simp
  then show ?thesis by (simp add: unsigned_ucast_eq take_bit_nat_eq_self)
qed

lemma keepalive_echo:
  assumes "pp_has PP_KEEPALIVE s" "dev_up s" "\<not> pp_has PP_CISCO s" "lcp_st s = CP_OPENED" "\<And>n. alloc_ok e n"
    and "ucast (pp_alivecnt s) < max_keepalive e"
  shows "pp_has g (keepalive_one e s) = pp_has g s" "dev_up (keepalive_one e s)" "lcp_st (keepalive_one e s) = CP_OPENED"
    "magic (keepalive_one e s) = magic s" "pp_alivecnt (keepalive_one e s) = pp_alivecnt s + 1"
    "pp_link_state (keepalive_one e s) = pp_link_state s" "ipcp (keepalive_one e s) = ipcp s"
    "pp_seq (keepalive_one e s) IDX_LCP = pp_seq s IDX_LCP + 1"
    "xmit (keepalive_one e s) = xmit s @ [cp_frame PPP_LCP ECHO_REQ (ucast (pp_seq s IDX_LCP + 1)) 4 (be32 (magic s))]"
proof -
  have be: "length (be32 m) = 4" for m by (simp add: be32_def)
  have "ucast (pp_alivecnt s) \<noteq> max_keepalive e" "ucast (pp_alivecnt s) \<le> max_keepalive e"
    using assms(6) by auto
  then have eq: "keepalive_one e s =
    (let s = inc_seq IDX_LCP (s\<lparr>pp_alivecnt := pp_alivecnt s + 1\<rparr>);
         s = s\<lparr>lcp := (lcp s)\<lparr>lcp_echoid := ucast (pp_seq s IDX_LCP)\<rparr>\<rparr>
     in cp_send_buf e PPP_LCP ECHO_REQ (lcp_echoid (lcp s)) (be32 (magic s)) s)"
    using assms(1-4) by (simp add: keepalive_one_def Let_def)
  show "pp_has g (keepalive_one e s) = pp_has g s" "dev_up (keepalive_one e s)" "lcp_st (keepalive_one e s) = CP_OPENED"
    "magic (keepalive_one e s) = magic s" "pp_alivecnt (keepalive_one e s) = pp_alivecnt s + 1"
    "pp_link_state (keepalive_one e s) = pp_link_state s" "ipcp (keepalive_one e s) = ipcp s"
    "pp_seq (keepalive_one e s) IDX_LCP = pp_seq s IDX_LCP + 1"
    "xmit (keepalive_one e s) = xmit s @ [cp_frame PPP_LCP ECHO_REQ (ucast (pp_seq s IDX_LCP + 1)) 4 (be32 (magic s))]"
    using assms by (simp_all add: eq Let_def xmit_send_buf be inc_seq_def pp_has_def)
qed

definition echoing :: "nat \<Rightarrow> sppp \<Rightarrow> sppp \<Rightarrow> bool" where
  "echoing n s t \<longleftrightarrow> pp_has PP_KEEPALIVE t \<and> dev_up t \<and> \<not> pp_has PP_CISCO t \<and> lcp_st t = CP_OPENED \<and>
     magic t = magic s \<and> unat (pp_alivecnt t) = n \<and> pp_link_state t = pp_link_state s \<and> ipcp t = ipcp s \<and>
     pp_seq t IDX_LCP = pp_seq s IDX_LCP + of_nat n \<and>
     xmit t = xmit s @ map (\<lambda>i. cp_frame PPP_LCP ECHO_REQ (ucast (pp_seq s IDX_LCP + of_nat (Suc i))) 4 (be32 (magic s))) [0..<n]"

lemma echoing_step:
  assumes "echoing n s t" "n < unat (max_keepalive e)" "max_keepalive e < 0xffff" "\<And>n. alloc_ok e n"
  shows "echoing (Suc n) s (keepalive_one e t)"
proof -
  have m: "unat (max_keepalive e) < 0xffff" using assms(3) by (simp add: word_less_nat_alt)
  have t: "pp_has PP_KEEPALIVE t" "dev_up t" "\<not> pp_has PP_CISCO t" "lcp_st t = CP_OPENED" "unat (pp_alivecnt t) = n"
    using assms(1) by (simp_all add: echoing_def)
  have lt: "(ucast (pp_alivecnt t) :: u32) < max_keepalive e"
    using assms(2) t(5) by (simp add: word_less_nat_alt unat_ucast_16_32)
  have "unat (pp_alivecnt t + 1) = Suc n"
    using m assms(2) t(5) by (simp add: unat_word_ariths)
  then show ?thesis
    using assms(1) keepalive_echo [OF t(1-4) assms(4) lt] by (simp add: echoing_def add_ac)
qed

lemma echoing_run:
  assumes "echoing 0 s s" "max_keepalive e < 0xffff" "\<And>n. alloc_ok e n"
  shows "n \<le> unat (max_keepalive e) \<Longrightarrow> echoing n s ((keepalive_one e ^^ n) s)"
  by (induction n) (auto intro: echoing_step assms)

text \<open>
  C20. PPP. A link with LCP open that gets no answer to its echo requests: each run of the
  keepalive timer sends one, with the link unchanged, as often as the maximum says; the
  next one takes the link down, closes LCP and IPCP and sends a new Configure-Request with
  the clock as magic number.
\<close>

theorem keepalive_gives_up:
  assumes "pp_has PP_KEEPALIVE s" "dev_up s" "\<not> pp_has PP_CISCO s" "lcp_st s = CP_OPENED" "pp_alivecnt s = 0"
    and "\<forall>n. alloc_ok e n" "max_keepalive e < 0xffff"
  defines "m \<equiv> unat (max_keepalive e)" and "t \<equiv> (keepalive_one e ^^ Suc (unat (max_keepalive e))) s"
  shows "(\<forall>n \<le> m. let u = (keepalive_one e ^^ n) s in
      lcp_st u = CP_OPENED \<and> ipcp u = ipcp s \<and> pp_link_state u = pp_link_state s \<and>
      xmit u = xmit s @ map (\<lambda>i. cp_frame PPP_LCP ECHO_REQ (ucast (pp_seq s IDX_LCP + of_nat (Suc i))) 4 (be32 (magic s))) [0..<n]) \<and>
    lcp_st t = CP_CLOSED \<and> ipcp_st t = CP_CLOSED \<and> pp_link_state t = SPPP_LINK_DOWN \<and>
    xmit t = xmit ((keepalive_one e ^^ m) s) @
      [cp_frame PPP_LCP CONF_REQ (lcp_confid (lcp t)) 6 (magic_option (ucast (jiffies e)))]"
proof -
  have ok: "alloc_ok e n" for n using assms(6) by simp
  have start: "echoing 0 s s" using assms(1-5) by (simp add: echoing_def)
  have run: "echoing n s ((keepalive_one e ^^ n) s)" if "n \<le> m" for n
    using echoing_run [OF start assms(7) ok] that by (simp add: m_def)
  define u where "u = (keepalive_one e ^^ m) s"
  have u: "echoing m s u" unfolding u_def by (rule run) simp
  define v where "v = sppp_clear_timeout (set_ipcp CP_CLOSED (set_lcp CP_CLOSED (set_magic (ucast (jiffies e)) (if_down u))))"
  have cnt: "(ucast (pp_alivecnt u) :: u32) = max_keepalive e"
    using u by (simp add: echoing_def m_def word_unat_eq_iff unat_ucast_16_32)
  have uf: "pp_has PP_KEEPALIVE u" "dev_up u" "\<not> pp_has PP_CISCO u" "lcp_st u = CP_OPENED"
    using u by (simp_all add: echoing_def)
  have v: "pp_alivecnt v = pp_alivecnt u" "pp_has PP_CISCO v = pp_has PP_CISCO u" "lcp_st v = CP_CLOSED"
    by (simp_all add: v_def)
  have w: "pp_alivecnt (sppp_lcp_open e v) = pp_alivecnt u" "\<not> pp_has PP_CISCO (sppp_lcp_open e v)"
      "lcp_st (sppp_lcp_open e v) = CP_CLOSED"
    using v uf(3) by (simp_all add: sppp_lcp_open_def Let_def)
  have "t = keepalive_one e u" by (simp add: t_def u_def m_def)
  then have t: "t = (sppp_lcp_open e v)\<lparr>pp_alivecnt := pp_alivecnt u + 1\<rparr>"
    using uf cnt w by (simp add: keepalive_one_def Let_def flip: v_def)
  have last: "lcp_st t = CP_CLOSED" "ipcp_st t = CP_CLOSED" "pp_link_state t = SPPP_LINK_DOWN"
      "xmit t = xmit u @ [cp_frame PPP_LCP CONF_REQ (lcp_confid (lcp t)) 6 (magic_option (ucast (jiffies e)))]"
    using xmit_open(1) [OF ok, of v] by (simp_all add: t v_def)
      (simp add: sppp_lcp_open_def if_down_def Let_def)
  show ?thesis
    using run last by (simp add: echoing_def Let_def u_def)
qed

theorem keepalive_gives_up_witness:
  "let s = set_lcp CP_OPENED ex_if; m = unat (max_keepalive ex_env); t = (keepalive_one ex_env ^^ Suc m) s in
   (\<forall>n \<le> m. let u = (keepalive_one ex_env ^^ n) s in
      lcp_st u = CP_OPENED \<and> ipcp u = ipcp s \<and> pp_link_state u = pp_link_state s \<and>
      xmit u = xmit s @ map (\<lambda>i. cp_frame PPP_LCP ECHO_REQ (ucast (pp_seq s IDX_LCP + of_nat (Suc i))) 4 (be32 (magic s))) [0..<n]) \<and>
    lcp_st t = CP_CLOSED \<and> ipcp_st t = CP_CLOSED \<and> pp_link_state t = SPPP_LINK_DOWN \<and>
    xmit t = xmit ((keepalive_one ex_env ^^ m) s) @
      [cp_frame PPP_LCP CONF_REQ (lcp_confid (lcp t)) 6 (magic_option (ucast (jiffies ex_env)))]"
  unfolding Let_def
  by (rule keepalive_gives_up [unfolded Let_def]) (simp_all add: ex_if_def set_lcp_def pp_has_def)

section \<open>The list of interfaces\<close>

text \<open>
  What the module is told: an interface is attached, one is detached, the keepalive timer
  expires. A driver attaches an interface that is not attached; the timer expires when it
  is armed.
\<close>

datatype module_event = Attach env nat | Detach nat | Tick env

definition module_do :: "module_event \<Rightarrow> sppp_module \<Rightarrow> sppp_module" where
  "module_do ev m =
     (case ev of
        Attach e i \<Rightarrow> (if i \<in> set (spppq m) then m else wp_sppp_attach e i m)
      | Detach i \<Rightarrow> wp_sppp_detach i m
      | Tick e \<Rightarrow> (if keepalive_timer m \<noteq> None then sppp_keepalive e m else m))"

definition module_ok :: "sppp_module \<Rightarrow> bool" where
  "module_ok m \<longleftrightarrow> distinct (spppq m) \<and> (keepalive_timer m \<noteq> None \<longleftrightarrow> spppq m \<noteq> [])"

lemma keepalive_fold:
  "fold (\<lambda>i m. m\<lparr>sppp_at := (sppp_at m)(i := keepalive_one e (sppp_at m i))\<rparr>) q m =
     m\<lparr>sppp_at := fold (\<lambda>i f. f(i := keepalive_one e (f i))) q (sppp_at m)\<rparr>"
  by (induction q arbitrary: m) simp_all

lemma fold_each:
  "distinct q \<Longrightarrow> fold (\<lambda>i f. f(i := g (f i))) q f i = (if i \<in> set q then g (f i) else f i)"
  by (induction q arbitrary: f) auto

interpretation modules: event_run module_do "\<lambda>_. True" module_ok
proof
  fix ev m assume "module_ok m"
  then show "module_ok (module_do ev m)"
    by (auto simp: module_ok_def module_do_def wp_sppp_attach_def wp_sppp_detach_def sppp_keepalive_def
        keepalive_fold Let_def split: module_event.split)
qed

text \<open>
  C29. From the empty list on, whatever is attached and detached: the keepalive timer of the
  module is armed just when an interface is attached, and when it expires the keepalive of
  each attached interface runs, once, and no other interface is touched.
\<close>

theorem module_keepalives:
  fixes evs :: "module_event list"
  assumes "spppq m0 = []" "keepalive_timer m0 = None"
  defines "m \<equiv> fold module_do evs m0"
  shows "(keepalive_timer m \<noteq> None \<longleftrightarrow> spppq m \<noteq> []) \<and> keepalive_timer (sppp_keepalive e m) \<noteq> None \<and>
    sppp_at (sppp_keepalive e m) i = (if i \<in> set (spppq m) then keepalive_one e (sppp_at m i) else sppp_at m i)"
proof -
  have "module_ok m0" using assms(1,2) by (simp add: module_ok_def)
  then have "module_ok m" unfolding m_def by (rule modules.run) simp
  then show ?thesis
    by (simp add: module_ok_def sppp_keepalive_def keepalive_fold fold_each)
qed

theorem module_keepalives_witness:
  "let m = fold module_do [Attach ex_env 1, Attach ex_env 2, Detach 1]
     \<lparr>spppq = [], sppp_at = (\<lambda>_. ex_if), keepalive_timer = None, keepalive_interval = 10, debug_flag = 0\<rparr>
   in (keepalive_timer m \<noteq> None \<longleftrightarrow> spppq m \<noteq> []) \<and> keepalive_timer (sppp_keepalive ex_env m) \<noteq> None \<and>
    sppp_at (sppp_keepalive ex_env m) 2 = (if 2 \<in> set (spppq m) then keepalive_one ex_env (sppp_at m 2) else sppp_at m 2)"
  unfolding Let_def by (rule module_keepalives) simp_all

end
